(* ===== verification/Go_Prelude.thy ===== *)
theory Go_Prelude
  imports
    Complex_Main
    "HOL-Library.Word"
    "HOL-Library.Char_ord"
    "HOL-Library.List_Lexorder"
    "HOL-Library.Signed_Division"
    "HOL-Library.AList"
    "HOL-Library.Multiset"
begin

text \<open>
  What the components share: Go's 64-bit integers (\<open>i64\<close>, \<open>u64\<close>: an arithmetic
  result is wrapped to its width), the big-endian encoding of a \<open>uint64\<close>, decimal
  numerals (\<open>strconv.FormatUint\<close>, \<open>strconv.ParseUint\<close>), Go's string-keyed maps as
  association lists whose order is the order a \<open>range\<close> loop visits them in, floating
  point values, and the sequencing of fallible stateful calls (\<open>seqE\<close>).
\<close>

named_theorems i64_simps \<open>wrap-around of int64 and uint64 values\<close>
named_theorems io_simps \<open>unfolding of fallible calls on a state\<close>

section \<open>Machine integers\<close>

text \<open>
  An \<open>int64\<close> is an \<^typ>\<open>int\<close> in \<open>[-2^63, 2^63)\<close> and a \<open>uint64\<close> one in \<open>[0, 2^64)\<close>.
  Arithmetic is done on \<^typ>\<open>int\<close> and wrapped by \<open>i64\<close> or \<open>u64\<close>, which are also Go's
  conversions \<open>int64(x)\<close> and \<open>uint64(x)\<close>. Go's \<open>/\<close> truncates: it is \<open>sdiv\<close>.
\<close>

type_synonym byte = "8 word"

definition i64 :: "int \<Rightarrow> int" where
  "i64 x = signed_take_bit 63 x"

definition u64 :: "int \<Rightarrow> int" where
  "u64 x = take_bit 64 x"

abbreviation int64_range :: "int \<Rightarrow> bool" where
  "int64_range x \<equiv> - (2 ^ 63) \<le> x \<and> x < 2 ^ 63"

lemma i64_sint: "i64 x = sint (word_of_int x :: 64 word)"
  by (simp add: i64_def sint_sbintrunc')

lemma u64_uint: "u64 x = uint (word_of_int x :: 64 word)"
  by (simp add: u64_def uint_word_of_int take_bit_eq_mod)

lemma i64_id [i64_simps]: "- (2 ^ 63) \<le> x \<Longrightarrow> x < 2 ^ 63 \<Longrightarrow> i64 x = x"
  unfolding i64_def by (rule signed_take_bit_int_eq_self)

lemma u64_id [i64_simps]: "0 \<le> x \<Longrightarrow> x < 2 ^ 64 \<Longrightarrow> u64 x = x"
  unfolding u64_def by (rule take_bit_int_eq_self)

lemma u64_mod: "u64 x = x mod 2 ^ 64"
  by (simp add: u64_def take_bit_eq_mod)

lemma i64_range: "- (2 ^ 63) \<le> i64 x" "i64 x < 2 ^ 63"
  unfolding i64_def
  by (rule signed_take_bit_int_greater_eq_minus_exp, rule signed_take_bit_int_less_exp)

lemma u64_range: "0 \<le> u64 x" "u64 x < 2 ^ 64"
  by (simp_all add: u64_mod)

lemma i64_u64 [simp]: "i64 (u64 x) = i64 x"
  by (simp add: i64_def u64_def signed_take_bit_take_bit)

lemma u64_i64 [simp]: "u64 (i64 x) = u64 x"
  by (simp add: i64_def u64_def take_bit_signed_take_bit)

lemma i64_roundtrip: "int64_range x \<Longrightarrow> i64 (u64 x) = x"
  by (simp add: i64_id)

text \<open>Go's division by a positive constant on a non-negative number is \<open>div\<close>.\<close>

lemma sdiv_nonneg: "0 \<le> a \<Longrightarrow> 0 < b \<Longrightarrow> (a::int) sdiv b = a div b"
  by (simp add: signed_divide_int_def sgn_if zero_less_iff_neq_zero)

lemma sdiv_mult_cancel: "0 < b \<Longrightarrow> (a * b :: int) sdiv b = a"
  by (simp add: signed_divide_int_def sgn_if abs_mult mult.assoc zero_less_mult_iff mult_less_0_iff)

lemma sdiv_one [simp]: "(a :: int) sdiv 1 = a"
  by (simp add: signed_divide_int_def sgn_mult_abs)

lemma abs_sdiv_le: "1 < b \<Longrightarrow> \<bar>(a :: int) sdiv b\<bar> \<le> \<bar>a\<bar> div 2"
  using zdiv_mono2 [of "\<bar>a\<bar>" 2 b]
  by (simp add: signed_divide_int_def abs_mult abs_sgn_eq pos_imp_zdiv_nonneg_iff)

section \<open>Big-endian encoding of a uint64\<close>

fun be_bytes :: "nat \<Rightarrow> int \<Rightarrow> byte list" where
  "be_bytes 0 n = []"
| "be_bytes (Suc k) n = be_bytes k (n div 256) @ [word_of_int n]"

fun be_value :: "byte list \<Rightarrow> int" where
  "be_value [] = 0"
| "be_value (b # bs) = uint b * 256 ^ length bs + be_value bs"

lemma length_be_bytes [simp]: "length (be_bytes k n) = k"
  by (induction k arbitrary: n) auto

lemma be_value_snoc: "be_value (bs @ [b]) = be_value bs * 256 + uint b"
  by (induction bs) (auto simp: algebra_simps)

lemma be_value_be_bytes: "0 \<le> n \<Longrightarrow> n < 256 ^ k \<Longrightarrow> be_value (be_bytes k n) = n"
proof (induction k arbitrary: n)
  case (Suc k)
  then have "0 \<le> n div 256" "n div 256 < 256 ^ k"
    by (simp_all add: pos_imp_zdiv_nonneg_iff int_div_less_self less_mult_imp_div_less mult.commute)
  with Suc show ?case
    by (simp add: be_value_snoc uint_word_of_int)
qed simp

text \<open>\<open>binary.BigEndian.PutUint64\<close> and \<open>binary.BigEndian.Uint64\<close>.\<close>

definition put_uint64 :: "int \<Rightarrow> byte list" where
  "put_uint64 x = be_bytes 8 (u64 x)"

definition get_uint64 :: "byte list \<Rightarrow> int" where
  "get_uint64 bs = be_value bs"

lemma length_put_uint64 [simp]: "length (put_uint64 x) = 8"
  by (simp add: put_uint64_def)

lemma put_uint64_neq_Nil [simp]: "put_uint64 x \<noteq> []"
  by (metis length_put_uint64 list.size(3) zero_neq_numeral)

lemma get_put_uint64 [simp]: "get_uint64 (put_uint64 x) = u64 x"
  using u64_range [of x] by (simp add: get_uint64_def put_uint64_def be_value_be_bytes)

section \<open>Decimal numerals\<close>

text \<open>\<open>strconv.FormatUint(n, 10)\<close> and \<open>strconv.ParseUint(s, 10, 64)\<close>.\<close>

definition digit_char :: "nat \<Rightarrow> char" where
  "digit_char d = char_of (48 + d)"

definition is_digit :: "char \<Rightarrow> bool" where
  "is_digit c \<longleftrightarrow> 48 \<le> (of_char c :: nat) \<and> (of_char c :: nat) \<le> 57"

definition digit_value :: "char \<Rightarrow> nat" where
  "digit_value c = of_char c - 48"

fun format_uint :: "nat \<Rightarrow> string" where
  "format_uint n =
     (if n < 10 then [digit_char n] else format_uint (n div 10) @ [digit_char (n mod 10)])"

declare format_uint.simps [simp del]

definition decimal_value :: "string \<Rightarrow> int" where
  "decimal_value s = foldl (\<lambda>a c. a * 10 + int (digit_value c)) 0 s"

definition parse_uint :: "string \<Rightarrow> nat option" where
  "parse_uint s =
     (if s \<noteq> [] \<and> list_all is_digit s \<and> decimal_value s < 2 ^ 64
      then Some (nat (decimal_value s)) else None)"

definition format_int :: "int \<Rightarrow> string" where
  "format_int n = (if n < 0 then ''-'' @ format_uint (nat (- n)) else format_uint (nat n))"

lemma digit_char_value [simp]: "d < 10 \<Longrightarrow> digit_value (digit_char d) = d"
  by (simp add: digit_value_def digit_char_def)

lemma is_digit_digit_char [simp]: "d < 10 \<Longrightarrow> is_digit (digit_char d)"
  by (simp add: is_digit_def digit_char_def)

lemma format_uint_neq_Nil [simp]: "format_uint n \<noteq> []"
  by (subst format_uint.simps) simp

lemma decimal_value_snoc: "decimal_value (s @ [c]) = decimal_value s * 10 + int (digit_value c)"
  by (simp add: decimal_value_def)

lemma decimal_value_format_uint [simp]: "decimal_value (format_uint n) = int n"
proof (induction n rule: format_uint.induct)
  case (1 n)
  show ?case
  proof (cases "n < 10")
    case True
    then show ?thesis by (subst format_uint.simps) (simp add: decimal_value_def)
  next
    case False
    with 1 show ?thesis
      by (subst format_uint.simps) (simp add: decimal_value_snoc, presburger)
  qed
qed

lemma format_uint_digits: "list_all is_digit (format_uint n)"
proof (induction n rule: format_uint.induct)
  case (1 n)
  then show ?case by (subst format_uint.simps) simp
qed

lemma parse_format_uint [simp]: "int n < 2 ^ 64 \<Longrightarrow> parse_uint (format_uint n) = Some n"
  by (simp add: parse_uint_def format_uint_digits)

lemma format_uint_inject [simp]: "format_uint m = format_uint n \<longleftrightarrow> m = n"
  by (metis decimal_value_format_uint of_nat_eq_iff)

section \<open>Maps, floats, sequencing\<close>

text \<open>
  A Go map with string keys is an association list with distinct keys. Its order is the
  order in which a \<open>range\<close> loop visits the entries: Go leaves it open, so a statement
  about every list covers every order.
\<close>

type_synonym 'v gomap = "(string \<times> 'v) list"

abbreviation gomap_ok :: "'v gomap \<Rightarrow> bool" where
  "gomap_ok m \<equiv> distinct (map fst m)"

definition gm_get :: "'v \<Rightarrow> 'v gomap \<Rightarrow> string \<Rightarrow> 'v" where
  "gm_get zero m k = (case map_of m k of None \<Rightarrow> zero | Some v \<Rightarrow> v)"

abbreviation gm_set :: "'v gomap \<Rightarrow> string \<Rightarrow> 'v \<Rightarrow> 'v gomap" where
  "gm_set m k v \<equiv> AList.update k v m"

abbreviation gm_delete :: "'v gomap \<Rightarrow> string \<Rightarrow> 'v gomap" where
  "gm_delete m k \<equiv> AList.delete k m"

lemmas gm_simps = update_conv' delete_conv' distinct_update distinct_delete

lemma set_update_subset: "e \<in> set (AList.update k v m) \<Longrightarrow> e = (k, v) \<or> e \<in> set m"
  by (induction m) (auto split: if_splits)

lemma sort_key_distinct: "distinct (map fst (sort_key fst d)) = distinct (map fst d)"
  by (metis distinct_map distinct_sort set_sort)

lemma map_of_perm:
  assumes "distinct (map fst xs)" and "mset xs = mset ys"
  shows "map_of xs = map_of ys"
proof -
  have "distinct (map fst ys)"
    using assms by (metis mset_eq_imp_distinct_iff mset_map)
  moreover have "set xs = set ys"
    using assms(2) by (metis set_mset_mset)
  ultimately show ?thesis
    using assms(1) by (simp add: map_of_inject_set)
qed

datatype float64 = Fin real | PosInf | NegInf | NaN

text \<open>What a call comes to that can panic or wait for ever.\<close>

datatype 'a outcome = Returns 'a | Panics | Blocks

text \<open>
  A call that can fail returns \<open>Inl\<close> of the error or \<open>Inr\<close> of the result beside the
  state it leaves. \<open>seqE\<close> is the idiom \<open>if err != nil { return err }\<close>.
\<close>

fun seqE :: "('e + 'a) \<times> 's \<Rightarrow> ('a \<Rightarrow> 's \<Rightarrow> ('e + 'b) \<times> 's) \<Rightarrow> ('e + 'b) \<times> 's" where
  "seqE (Inl e, s) k = (Inl e, s)"
| "seqE (Inr x, s) k = k x s"

lemma seqE_assoc: "seqE (seqE p f) g = seqE p (\<lambda>x s. seqE (f x s) g)"
  by (cases "(p, f)" rule: seqE.cases) auto

lemma seqE_split:
  "P (seqE p k) \<longleftrightarrow>
     (\<forall>e s. p = (Inl e, s) \<longrightarrow> P (Inl e, s)) \<and> (\<forall>x s. p = (Inr x, s) \<longrightarrow> P (k x s))"
  by (cases "(p, k)" rule: seqE.cases) auto

end
