(* ===== verification/Points.thy ===== *)
theory Points
  imports Go_Prelude
begin

text \<open>
  The data every component passes around: points and batches (\<open>pkg/rpc/rpc.go\<close>), label
  sets, and the translation of points for the store and for Prometheus
  (\<open>pkg/persistence/transform/point_translator.go\<close>, \<open>time.go\<close>): sanitised names, tags and
  fields, and the conversions between seconds, milliseconds and nanoseconds.
\<close>

section \<open>Points\<close>

record point =
  p_Name :: string
  p_Timestamp :: int
  p_Value :: float64
  p_Labels :: "string gomap"

type_synonym batch = "point list"

definition EstimatePointSize :: "point \<Rightarrow> nat" where
  "EstimatePointSize p =
     foldl (\<lambda>sz (k, v). sz + (length k + length v)) (length (p_Name p) + 16) (p_Labels p)"

text \<open>A Prometheus label set is a list of name and value pairs.\<close>

type_synonym labels = "(string \<times> string) list"

definition MetricName :: string where
  "MetricName = ''__name__''"

definition ConvertLabels :: "point \<Rightarrow> labels" where
  "ConvertLabels p = foldl (\<lambda>ls kv. ls @ [kv]) [] (p_Labels p) @ [(MetricName, p_Name p)]"

definition IsValidFloat :: "float64 \<Rightarrow> bool" where
  "IsValidFloat v \<longleftrightarrow> \<not> (v = PosInf \<or> v = NegInf) \<and> v \<noteq> NaN"

section \<open>Sanitised names\<close>

definition is_upper :: "char \<Rightarrow> bool" where
  "is_upper c \<longleftrightarrow> CHR ''A'' \<le> c \<and> c \<le> CHR ''Z''"

definition is_lower :: "char \<Rightarrow> bool" where
  "is_lower c \<longleftrightarrow> CHR ''a'' \<le> c \<and> c \<le> CHR ''z''"

definition is_numeral :: "char \<Rightarrow> bool" where
  "is_numeral c \<longleftrightarrow> CHR ''0'' \<le> c \<and> c \<le> CHR ''9''"

definition metric_char :: "nat \<Rightarrow> char \<Rightarrow> bool" where
  "metric_char n c \<longleftrightarrow>
     c = CHR ''_'' \<or> c = CHR '':'' \<or> is_upper c \<or> is_lower c \<or> (n > 0 \<and> is_numeral c)"

definition label_char :: "nat \<Rightarrow> char \<Rightarrow> bool" where
  "label_char n c \<longleftrightarrow>
     c = CHR ''_'' \<or> is_upper c \<or> is_lower c \<or> (n > 0 \<and> is_numeral c)"

text \<open>The loop over the bytes of the name; a byte that is not allowed becomes \<open>_\<close>.\<close>

fun sanitize_from :: "(nat \<Rightarrow> char \<Rightarrow> bool) \<Rightarrow> nat \<Rightarrow> string \<Rightarrow> string" where
  "sanitize_from ok n [] = []"
| "sanitize_from ok n (c # cs) = (if ok n c then c else CHR ''_'') # sanitize_from ok (Suc n) cs"

definition SanitizeMetricName :: "string \<Rightarrow> string" where
  "SanitizeMetricName name = sanitize_from metric_char 0 name"

definition SanitizeLabelName :: "string \<Rightarrow> string" where
  "SanitizeLabelName name = sanitize_from label_char 0 name"

text \<open>Prometheus' rule for names: every byte is allowed at its position.\<close>

definition valid_name :: "(nat \<Rightarrow> char \<Rightarrow> bool) \<Rightarrow> string \<Rightarrow> bool" where
  "valid_name ok s \<longleftrightarrow> (\<forall>i < length s. ok i (s ! i))"

lemma sanitize_nth:
  "length (sanitize_from ok n s) = length s \<and>
   (\<forall>i < length s. sanitize_from ok n s ! i = (if ok (n + i) (s ! i) then s ! i else CHR ''_''))"
  by (induction ok n s rule: sanitize_from.induct) (auto simp: nth_Cons' less_Suc_eq_0_disj)

lemma sanitize_valid:
  assumes "\<And>n. ok n (CHR ''_'')"
  shows "valid_name ok (sanitize_from ok 0 s)"
  using sanitize_nth [of ok 0 s] assms by (simp add: valid_name_def)

lemma sanitize_id:
  assumes "valid_name ok s"
  shows "sanitize_from ok 0 s = s"
  using sanitize_nth [of ok 0 s] assms by (intro nth_equalityI) (auto simp: valid_name_def)

lemma underscore_ok [simp]: "metric_char n (CHR ''_'')" "label_char n (CHR ''_'')"
  by (simp_all add: metric_char_def label_char_def)

section \<open>Points for the store\<close>

definition UNINDEXED_LABELS :: "string list" where
  "UNINDEXED_LABELS =
     [''uri'', ''content_length'', ''user_agent'', ''request_id'', ''forwarded'', ''remote_address'']"

text \<open>
  A field of an Influx point is the float \<open>value\<close> or a string; tags are kept sorted by key.
  \<open>tags_Set\<close> is \<open>models.Tags.Set\<close>: it overwrites a tag or appends it and sorts.
\<close>

datatype field_value = FloatField float64 | StringField string

record influx_point =
  ip_name :: string
  ip_tags :: "(string \<times> string) list"
  ip_fields :: "field_value gomap"
  ip_time :: int

definition tags_Set :: "(string \<times> string) list \<Rightarrow> string \<Rightarrow> string \<Rightarrow> (string \<times> string) list" where
  "tags_Set ts k v =
     (if k \<in> set (map fst ts) then AList.update k v ts else sort_key fst (ts @ [(k, v)]))"

definition add_label ::
    "(string \<times> string) list \<times> field_value gomap \<Rightarrow> string \<times> string \<Rightarrow>
     (string \<times> string) list \<times> field_value gomap" where
  "add_label tf kv =
     (if fst kv \<in> set UNINDEXED_LABELS
      then (fst tf, gm_set (snd tf) (fst kv) (StringField (snd kv)))
      else (tags_Set (fst tf) (fst kv) (snd kv), snd tf))"

definition ToInfluxPoint :: "point \<Rightarrow> influx_point" where
  "ToInfluxPoint p =
     (case foldl add_label ([], [(''value'', FloatField (p_Value p))]) (p_Labels p) of
        (ts, fs) \<Rightarrow>
          \<lparr>ip_name = p_Name p, ip_tags = ts, ip_fields = fs, ip_time = p_Timestamp p\<rparr>)"

text \<open>\<open>models.MustNewPoint\<close> panics on a point \<open>models.NewPoint\<close> rejects (\<open>ok\<close> false): \<open>None\<close>.\<close>

fun ToInfluxPoints :: "(influx_point \<Rightarrow> bool) \<Rightarrow> point list \<Rightarrow> influx_point list option" where
  "ToInfluxPoints ok [] = Some []"
| "ToInfluxPoints ok (p # ps) =
     (if ok (ToInfluxPoint p)
      then map_option (\<lambda>ips. ToInfluxPoint p # ips) (ToInfluxPoints ok ps) else None)"

lemma tags_Set_map: "map_of (tags_Set ts k v) = (map_of ts)(k \<mapsto> v)" if "gomap_ok ts"
proof (cases "k \<in> set (map fst ts)")
  case True
  then show ?thesis by (simp add: tags_Set_def update_conv')
next
  case False
  then have "gomap_ok (ts @ [(k, v)])" using that by auto
  moreover have "mset (sort_key fst (ts @ [(k, v)])) = mset (ts @ [(k, v)])" by simp
  ultimately have "map_of (sort_key fst (ts @ [(k, v)])) = map_of (ts @ [(k, v)])"
    by (metis map_of_perm)
  also have "\<dots> = (map_of ts)(k \<mapsto> v)"
    using False map_of_eq_None_iff [of ts k] by (auto simp: map_add_def fun_eq_iff split: option.splits)
  finally show ?thesis using False by (simp add: tags_Set_def)
qed

lemma tags_Set_keys: "set (map fst (tags_Set ts k v)) = insert k (set (map fst ts))"
  by (auto simp: tags_Set_def dom_update image_iff)

lemma map_fst_update: "k \<in> set (map fst ts) \<Longrightarrow> map fst (AList.update k v ts) = map fst ts"
  by (induction ts) auto

lemma tags_Set_distinct: "gomap_ok ts \<Longrightarrow> gomap_ok (tags_Set ts k v)"
  by (simp add: tags_Set_def map_fst_update sort_key_distinct)

lemma tags_Set_sorted: "sorted (map fst ts) \<Longrightarrow> sorted (map fst (tags_Set ts k v))"
  by (simp add: tags_Set_def map_fst_update)

text \<open>The loop over the labels splits into one over the tags and one over the fields.\<close>

lemma add_label_split:
  "foldl add_label (ts, fs) ls =
     (foldl (\<lambda>ts kv. tags_Set ts (fst kv) (snd kv)) ts (filter (\<lambda>kv. fst kv \<notin> set UNINDEXED_LABELS) ls),
      foldl (\<lambda>fs kv. gm_set fs (fst kv) (StringField (snd kv))) fs
        (filter (\<lambda>kv. fst kv \<in> set UNINDEXED_LABELS) ls))"
  by (induction ls arbitrary: ts fs) (auto simp: add_label_def)

lemma foldl_tags_Set:
  assumes "gomap_ok ts" "sorted (map fst ts)"
  shows "gomap_ok (foldl (\<lambda>ts kv. tags_Set ts (fst kv) (snd kv)) ts ls)
    \<and> sorted (map fst (foldl (\<lambda>ts kv. tags_Set ts (fst kv) (snd kv)) ts ls))
    \<and> map_of (foldl (\<lambda>ts kv. tags_Set ts (fst kv) (snd kv)) ts ls) = map_of ts ++ map_of (rev ls)"
  using assms
  by (induction ls arbitrary: ts) (auto simp: tags_Set_map tags_Set_distinct tags_Set_sorted)

lemma foldl_gm_set:
  "map_of (foldl (\<lambda>fs kv. gm_set fs (fst kv) (g (snd kv))) fs ls) =
     map_of fs ++ map_of (rev (map (\<lambda>kv. (fst kv, g (snd kv))) ls))"
  by (induction ls arbitrary: fs) (auto simp: update_conv')

lemma map_of_rev: "gomap_ok ls \<Longrightarrow> map_of (rev ls) = map_of ls"
  by (rule map_of_perm) (auto simp: rev_map [symmetric])

lemma gomap_ok_filter: "gomap_ok ls \<Longrightarrow> gomap_ok (filter P ls)"
  by (induction ls) auto

lemma map_of_filter_key:
  "gomap_ok ls \<Longrightarrow> map_of (filter (\<lambda>kv. P (fst kv)) ls) k = (if P k then map_of ls k else None)"
  by (induction ls) (auto simp: map_of_eq_None_iff)

lemma map_of_map_snd: "map_of (map (\<lambda>kv. (fst kv, g (snd kv))) ls) k = map_option g (map_of ls k)"
  by (induction ls) auto

section \<open>Time\<close>

definition SecondsToMilliseconds :: "int \<Rightarrow> int" where
  "SecondsToMilliseconds s = i64 (i64 (s * 1000000000) sdiv 1000000)"

definition MillisecondsToNanoseconds :: "int \<Rightarrow> int" where
  "MillisecondsToNanoseconds ms = i64 (i64 (ms * 1000000) sdiv 1)"

definition MillisecondsToTime :: "int \<Rightarrow> int" where
  "MillisecondsToTime ms = MillisecondsToNanoseconds ms"

definition MillisecondsToString :: "int \<Rightarrow> string" where
  "MillisecondsToString ms = format_int (ms sdiv 1000)"

definition NanosecondsToMilliseconds :: "int \<Rightarrow> int" where
  "NanosecondsToMilliseconds ns = i64 (i64 (ns * 1) sdiv 1000000)"

text \<open>\<open>float64(t) / float64(time.Second)\<close>, without the rounding of float64.\<close>

definition DurationToSeconds :: "int \<Rightarrow> real" where
  "DurationToSeconds t = of_int t / 1000000000"

lemma ms_ns_exact:
  assumes "int64_range (ms * 1000000)"
  shows "MillisecondsToNanoseconds ms = ms * 1000000"
  using assms by (simp add: MillisecondsToNanoseconds_def i64_id)

lemma ns_ms_exact:
  assumes "int64_range ns"
  shows "NanosecondsToMilliseconds ns = ns sdiv 1000000"
proof -
  have "\<bar>ns sdiv 1000000\<bar> \<le> \<bar>ns\<bar> div 2"
    by (rule abs_sdiv_le) simp
  then have "i64 (ns sdiv 1000000) = ns sdiv 1000000"
    using assms by (intro i64_id) auto
  then show ?thesis
    using assms by (simp add: NanosecondsToMilliseconds_def i64_id)
qed

section \<open>Where points are written to\<close>

text \<open>
  The interface \<open>Adapter\<close> of \<open>pkg/persistence/appender.go\<close>: a place that takes points. What it
  holds is seen through \<open>view\<close>; a write that succeeds puts every point into it, in order, and
  no write breaks the invariant of the place.
\<close>

locale point_sink =
  fixes wr :: "point list \<Rightarrow> 'w \<Rightarrow> ('e + unit) \<times> 'w"
    and sink_inv :: "'w \<Rightarrow> bool"
    and view :: "'w \<Rightarrow> 'v"
    and put :: "'v \<Rightarrow> point \<Rightarrow> 'v"
    and pok :: "point \<Rightarrow> bool"
  assumes write_inv: "sink_inv w \<Longrightarrow> \<forall>p \<in> set ps. pok p \<Longrightarrow> wr ps w = (r, w') \<Longrightarrow> sink_inv w'"
    and write_view: "sink_inv w \<Longrightarrow> \<forall>p \<in> set ps. pok p \<Longrightarrow> wr ps w = (Inr u, w') \<Longrightarrow>
      view w' = foldl put (view w) ps"
begin

text \<open>Two writes that succeed are one write of both lists.\<close>

lemma write_twice:
  assumes "sink_inv w" "\<forall>p \<in> set (ps @ qs). pok p" "wr ps w = (Inr u, w1)" "wr qs w1 = (Inr v, w2)"
  shows "sink_inv w2 \<and> view w2 = foldl put (view w) (ps @ qs)"
proof -
  have ps: "\<forall>p \<in> set ps. pok p" "\<forall>p \<in> set qs. pok p" using assms(2) by auto
  have "sink_inv w1" by (rule write_inv [OF assms(1) ps(1) assms(3)])
  then show ?thesis
    using write_inv [OF _ ps(2) assms(4)] write_view [OF _ ps(2) assms(4)] write_view [OF assms(1) ps(1) assms(3)]
    by simp
qed

end

section \<open>Properties\<close>

text \<open>
  A sanitised metric or label name keeps its length, obeys Prometheus' rule for names
  at every position, and a name that obeys it is not changed; so sanitising is idempotent.
\<close>

theorem sanitize_names:
  "valid_name metric_char (SanitizeMetricName s) \<and> length (SanitizeMetricName s) = length s
   \<and> (valid_name metric_char s \<longrightarrow> SanitizeMetricName s = s)
   \<and> valid_name label_char (SanitizeLabelName s) \<and> length (SanitizeLabelName s) = length s
   \<and> (valid_name label_char s \<longrightarrow> SanitizeLabelName s = s)
   \<and> SanitizeMetricName (SanitizeMetricName s) = SanitizeMetricName s
   \<and> SanitizeLabelName (SanitizeLabelName s) = SanitizeLabelName s"
  using sanitize_nth [of metric_char 0 s] sanitize_nth [of label_char 0 s]
  by (auto simp: SanitizeMetricName_def SanitizeLabelName_def sanitize_valid sanitize_id)

theorem sanitize_names_witness:
  "SanitizeMetricName ''9a-b:c'' = ''_a_b:c'' \<and> SanitizeLabelName ''9a-b:c'' = ''_a_b_c''
   \<and> SanitizeMetricName ''a9:c'' = ''a9:c''"
proof -
  have "valid_name metric_char ''a9:c''"
    by (simp add: valid_name_def metric_char_def is_lower_def is_numeral_def less_Suc_eq numeral_3_eq_3 nth_Cons')
  then have "SanitizeMetricName ''a9:c'' = ''a9:c''" using sanitize_names [of "''a9:c''"] by blast
  moreover have "SanitizeMetricName ''9a-b:c'' = ''_a_b:c'' \<and> SanitizeLabelName ''9a-b:c'' = ''_a_b_c''"
    by code_simp
  ultimately show ?thesis by blast
qed

text \<open>
  The store's point has the name and time of the point, its value as the field
  \<open>value\<close>, and every label either as a tag or, for the unindexed labels, as a string
  field, none lost, none twice; the tags are sorted by key.
\<close>

theorem influx_point_partition:
  assumes "gomap_ok (p_Labels p)"
  shows "let ip = ToInfluxPoint p in
    ip_name ip = p_Name p \<and> ip_time ip = p_Timestamp p
    \<and> sorted (map fst (ip_tags ip)) \<and> distinct (map fst (ip_tags ip))
    \<and> (\<forall>k. map_of (ip_tags ip) k =
         (if k \<in> set UNINDEXED_LABELS then None else map_of (p_Labels p) k))
    \<and> (\<forall>k. map_of (ip_fields ip) k =
         (if k = ''value'' then Some (FloatField (p_Value p))
          else if k \<in> set UNINDEXED_LABELS then map_option StringField (map_of (p_Labels p) k)
          else None))"
proof -
  let ?ix = "filter (\<lambda>kv. fst kv \<notin> set UNINDEXED_LABELS) (p_Labels p)"
  let ?un = "filter (\<lambda>kv. fst kv \<in> set UNINDEXED_LABELS) (p_Labels p)"
  have d: "gomap_ok ?ix" "gomap_ok (map (\<lambda>kv. (fst kv, StringField (snd kv))) ?un)"
    using gomap_ok_filter [OF assms] by (auto simp: comp_def)
  have "''value'' \<notin> set UNINDEXED_LABELS" by (simp add: UNINDEXED_LABELS_def)
  then show ?thesis
    using foldl_tags_Set [of "[]" ?ix] assms
    by (auto simp: ToInfluxPoint_def add_label_split foldl_gm_set map_of_rev [OF d(1)] map_of_rev [OF d(2)]
        map_of_filter_key [where P = "\<lambda>k. k \<notin> set UNINDEXED_LABELS"]
        map_of_filter_key [where P = "\<lambda>k. k \<in> set UNINDEXED_LABELS"] map_of_map_snd map_add_def
        split: option.splits)
qed

definition ex_point :: point where
  "ex_point = \<lparr>p_Name = ''http'', p_Timestamp = 5, p_Value = Fin 1,
     p_Labels = [(''uri'', ''/a''), (''z'', ''1''), (''b'', ''2'')]\<rparr>"

theorem influx_point_partition_witness:
  "map_of (ip_tags (ToInfluxPoint ex_point)) ''b'' = Some ''2''
   \<and> map_of (ip_tags (ToInfluxPoint ex_point)) ''uri'' = None
   \<and> map_of (ip_fields (ToInfluxPoint ex_point)) ''uri'' = Some (StringField ''/a'')"
  using influx_point_partition [of ex_point] by (simp add: ex_point_def Let_def UNINDEXED_LABELS_def)

text \<open>
  Milliseconds survive the conversion to nanoseconds and back whenever the nanoseconds
  fit an int64 (until the year 2262); outside, the product wraps around.
\<close>

theorem time_roundtrip:
  assumes "int64_range (ms * 1000000)"
  shows "NanosecondsToMilliseconds (MillisecondsToNanoseconds ms) = ms"
  using assms ns_ms_exact [of "ms * 1000000"] by (simp add: ms_ns_exact sdiv_mult_cancel)

theorem time_roundtrip_witness:
  "NanosecondsToMilliseconds (MillisecondsToNanoseconds 1600000000123) = 1600000000123"
  by (rule time_roundtrip) simp

end
