(* ===== verification/Series_Set.thy ===== *)
theory Series_Set
  imports Points
begin

text \<open>
  What a query returns (\<open>pkg/persistence/transform\<close>): the series set and its iterators
  (\<open>series_set.go\<close>), the builder that joins the samples of the shards into series
  (\<open>series_set_builder.go\<close>), and the translation of Prometheus matchers to a condition of
  the store's query language (\<open>filter_translator.go\<close>). The hash of a label set and the
  compilation of a regular expression are parameters.
\<close>

section \<open>Series and iterators\<close>

record seriesSample =
  TimeInMilliseconds :: int
  sm_Value :: float64

record concreteSeries =
  cs_labels :: labels
  cs_samples :: "seriesSample list"

text \<open>\<open>labels.New\<close> copies the labels and sorts them by name.\<close>

definition series_Labels :: "concreteSeries \<Rightarrow> labels" where
  "series_Labels s = sort_key fst (cs_labels s)"

record concreteSeriesSet =
  css_cur :: int
  css_series :: "concreteSeries list"

definition set_Next :: "concreteSeriesSet \<Rightarrow> bool \<times> concreteSeriesSet" where
  "set_Next c =
     (let c = c\<lparr>css_cur := css_cur c + 1\<rparr> in (css_cur c - 1 < int (length (css_series c)), c))"

text \<open>An index out of range panics: \<open>None\<close>.\<close>

definition set_At :: "concreteSeriesSet \<Rightarrow> concreteSeries option" where
  "set_At c =
     (if 0 \<le> css_cur c - 1 \<and> css_cur c - 1 < int (length (css_series c))
      then Some (css_series c ! nat (css_cur c - 1)) else None)"

record concreteSeriesIterator =
  it_cur :: int
  it_series :: concreteSeries

definition newConcreteSeriersIterator :: "concreteSeries \<Rightarrow> concreteSeriesIterator" where
  "newConcreteSeriersIterator s = \<lparr>it_cur = -1, it_series = s\<rparr>"

text \<open>\<open>sort.Search\<close>: the loop keeps \<open>f\<close> false below \<open>i\<close> and true from \<open>j\<close> on.\<close>

function search_loop :: "(nat \<Rightarrow> bool) \<Rightarrow> nat \<Rightarrow> nat \<Rightarrow> nat" where
  "search_loop f i j =
     (if i < j
      then let h = (i + j) div 2 in if \<not> f h then search_loop f (h + 1) j else search_loop f i h
      else i)"
  by pat_completeness auto
termination
  by (relation "measure (\<lambda>(f, i, j). j - i)") auto

declare search_loop.simps [simp del]

definition sort_Search :: "nat \<Rightarrow> (nat \<Rightarrow> bool) \<Rightarrow> nat" where
  "sort_Search n f = search_loop f 0 n"

definition iter_Seek :: "int \<Rightarrow> concreteSeriesIterator \<Rightarrow> bool \<times> concreteSeriesIterator" where
  "iter_Seek t c =
     (let ss = cs_samples (it_series c);
          k = sort_Search (length ss) (\<lambda>n. TimeInMilliseconds (ss ! n) \<ge> t)
      in (int k < int (length ss), c\<lparr>it_cur := int k\<rparr>))"

definition iter_At :: "concreteSeriesIterator \<Rightarrow> (int \<times> float64) option" where
  "iter_At c =
     (let ss = cs_samples (it_series c)
      in if 0 \<le> it_cur c \<and> it_cur c < int (length ss)
         then let s = ss ! nat (it_cur c) in Some (TimeInMilliseconds s, sm_Value s) else None)"

definition iter_Next :: "concreteSeriesIterator \<Rightarrow> bool \<times> concreteSeriesIterator" where
  "iter_Next c =
     (let c = c\<lparr>it_cur := it_cur c + 1\<rparr> in (it_cur c < int (length (cs_samples (it_series c))), c))"

section \<open>The builder\<close>

text \<open>A point read from a shard has a time in nanoseconds.\<close>

record floatPoint =
  fp_Time :: int
  fp_Value :: float64

record seriesData =
  sd_labels :: labels
  sd_samples :: "seriesSample list list"

record seriesSetBuilder =
  ssb_data :: "(int \<times> seriesData) list"
  ssb_count :: nat

definition NewSeriesBuilder :: seriesSetBuilder where
  "NewSeriesBuilder = \<lparr>ssb_data = [], ssb_count = 0\<rparr>"

definition to_sample :: "floatPoint \<Rightarrow> seriesSample" where
  "to_sample p = \<lparr>TimeInMilliseconds = NanosecondsToMilliseconds (fp_Time p), sm_Value = fp_Value p\<rparr>"

definition AddSeriesPoints ::
    "(labels \<Rightarrow> int) \<Rightarrow> labels \<Rightarrow> floatPoint list \<Rightarrow> seriesSetBuilder \<Rightarrow> seriesSetBuilder" where
  "AddSeriesPoints hash ls points b =
     (if points = [] then b
      else let seriesID = hash ls; samples = map to_sample points;
               d = (case map_of (ssb_data b) seriesID of
                      Some sd \<Rightarrow> sd\<lparr>sd_samples := sd_samples sd @ [samples]\<rparr>
                    | None \<Rightarrow> \<lparr>sd_labels = ls, sd_samples = [samples]\<rparr>)
           in b\<lparr>ssb_data := AList.update seriesID d (ssb_data b),
                ssb_count := ssb_count b + length points\<rparr>)"

definition builder_Len :: "seriesSetBuilder \<Rightarrow> nat" where
  "builder_Len b = ssb_count b"

text \<open>\<open>sort.Sort\<close> on the shards' first sample times; the shards are then joined.\<close>

definition join_shards :: "seriesSample list list \<Rightarrow> seriesSample list" where
  "join_shards ss = concat (sort_key (\<lambda>s. TimeInMilliseconds (s ! 0)) ss)"

definition SeriesSet :: "seriesSetBuilder \<Rightarrow> concreteSeriesSet" where
  "SeriesSet b =
     \<lparr>css_cur = 0,
      css_series = map (\<lambda>kd. \<lparr>cs_labels = sd_labels (snd kd),
                             cs_samples = join_shards (sd_samples (snd kd))\<rparr>) (ssb_data b)\<rparr>"

section \<open>Matchers\<close>

text \<open>\<open>labels.MatchType\<close>; a value outside the four constants is \<open>MatchOther\<close>.\<close>

datatype matchType = MatchEqual | MatchNotEqual | MatchRegexp | MatchNotRegexp | MatchOther int

record matcher =
  m_Type :: matchType
  m_Name :: string
  m_Value :: string

datatype token = TEQ | TNEQ | TEQREGEX | TNEQREGEX | TAND

datatype 'r iexpr =
    VarRef string
  | StringLiteral string
  | RegexLiteral 'r
  | BinaryExpr token "'r iexpr" "'r iexpr"

datatype filter_error = UnsupportedOperation | InvalidRegularExpression

fun operatorMapping :: "matchType \<Rightarrow> token option" where
  "operatorMapping MatchEqual = Some TEQ"
| "operatorMapping MatchNotEqual = Some TNEQ"
| "operatorMapping MatchRegexp = Some TEQREGEX"
| "operatorMapping MatchNotRegexp = Some TNEQREGEX"
| "operatorMapping (MatchOther _) = None"

definition ToInfluxFilter :: "(string \<Rightarrow> 'r option) \<Rightarrow> matcher \<Rightarrow> filter_error + 'r iexpr" where
  "ToInfluxFilter rx mt =
     (case operatorMapping (m_Type mt) of
        None \<Rightarrow> Inl UnsupportedOperation
      | Some op \<Rightarrow>
          if op = TEQ \<or> op = TNEQ
          then Inr (BinaryExpr op (VarRef (m_Name mt)) (StringLiteral (m_Value mt)))
          else if op = TEQREGEX \<or> op = TNEQREGEX
          then (case rx (m_Value mt) of
                  None \<Rightarrow> Inl InvalidRegularExpression
                | Some r \<Rightarrow> Inr (BinaryExpr op (VarRef (m_Name mt)) (RegexLiteral r)))
          else Inl UnsupportedOperation)"

text \<open>The loop of \<open>ToInfluxFilters\<close>; \<open>None\<close> is the nil condition.\<close>

fun filters_from ::
    "(string \<Rightarrow> 'r option) \<Rightarrow> 'r iexpr option \<Rightarrow> matcher list \<Rightarrow> filter_error + 'r iexpr option" where
  "filters_from rx cond [] = Inr cond"
| "filters_from rx cond (mt # mts) =
     (case ToInfluxFilter rx mt of
        Inl e \<Rightarrow> Inl e
      | Inr f \<Rightarrow>
          filters_from rx
            (Some (case cond of None \<Rightarrow> f | Some c \<Rightarrow> BinaryExpr TAND f c)) mts)"

definition ToInfluxFilters :: "(string \<Rightarrow> 'r option) \<Rightarrow> matcher list \<Rightarrow> filter_error + 'r iexpr option" where
  "ToInfluxFilters rx mts = filters_from rx None mts"

section \<open>Seeking\<close>

lemma search_loop_steps:
  "i < j \<Longrightarrow> f ((i + j) div 2) \<Longrightarrow> search_loop f i j = search_loop f i ((i + j) div 2)"
  "i < j \<Longrightarrow> \<not> f ((i + j) div 2) \<Longrightarrow> search_loop f i j = search_loop f (Suc ((i + j) div 2)) j"
  "\<not> i < j \<Longrightarrow> search_loop f i j = i"
  using search_loop.simps [of f i j] by (simp_all add: Let_def)

text \<open>What the loop keeps true: \<open>f\<close> is false below \<open>i\<close> and true from \<open>j\<close> on.\<close>

definition search_inv :: "(nat \<Rightarrow> bool) \<Rightarrow> nat \<Rightarrow> nat \<Rightarrow> nat \<Rightarrow> bool" where
  "search_inv f n i j \<longleftrightarrow> i \<le> j \<and> j \<le> n \<and> (\<forall>k<i. \<not> f k) \<and> (\<forall>k. j \<le> k \<and> k < n \<longrightarrow> f k)"

lemma search_inv_step:
  assumes mono: "\<forall>a b. a \<le> b \<and> b < n \<and> f a \<longrightarrow> f b" and "search_inv f n i j" "i < j"
  shows "if f ((i + j) div 2) then search_inv f n i ((i + j) div 2)
    else search_inv f n (Suc ((i + j) div 2)) j"
proof (cases "f ((i + j) div 2)")
  case True
  then have "f k" if "(i + j) div 2 \<le> k" "k < n" for k
    using mono [rule_format, of "(i + j) div 2" k] that by simp
  then show ?thesis using True assms(2,3) by (auto simp: search_inv_def)
next
  case False
  have "(i + j) div 2 < n" using assms(2,3) by (auto simp: search_inv_def)
  then have "\<not> f k" if "k < Suc ((i + j) div 2)" for k
    using mono [rule_format, of k "(i + j) div 2"] False that by auto
  then show ?thesis using False assms(2,3) by (auto simp: search_inv_def)
qed

lemma search_loop_spec:
  assumes mono: "\<forall>a b. a \<le> b \<and> b < n \<and> f a \<longrightarrow> f b" and "search_inv f n i j"
  shows "search_inv f n (search_loop f i j) (search_loop f i j)"
  using assms
proof (induction f i j rule: search_loop.induct)
  case (1 f i j)
  show ?case
  proof (cases "i < j")
    case True
    then show ?thesis
      using search_inv_step [OF 1(3,4) True] 1(1) [OF True refl _ 1(3)] 1(2) [OF True refl _ 1(3)]
      by (cases "f ((i + j) div 2)") (auto simp: search_loop_steps)
  next
    case False
    then show ?thesis using 1(4) by (auto simp: search_loop_steps search_inv_def)
  qed
qed

lemma find_filter: "find P xs = (case filter P xs of [] \<Rightarrow> None | x # _ \<Rightarrow> Some x)"
  by (induction xs) auto

lemma sort_Search_spec:
  assumes "\<forall>a b. a \<le> b \<and> b < n \<and> f a \<longrightarrow> f b"
  shows "search_inv f n (sort_Search n f) (sort_Search n f)"
  unfolding sort_Search_def by (rule search_loop_spec [OF assms]) (auto simp: search_inv_def)

lemma split_index:
  assumes "search_inv (\<lambda>k. P (xs ! k)) (length xs) r r"
  shows "r \<le> length xs" "drop r xs = filter P xs"
proof -
  have r: "r \<le> length xs" "\<forall>k<r. \<not> P (xs ! k)" "\<forall>k. r \<le> k \<and> k < length xs \<longrightarrow> P (xs ! k)"
    using assms unfolding search_inv_def by blast+
  show "r \<le> length xs" by (rule r(1))
  have "\<forall>x \<in> set (take r xs). \<not> P x"
    using r(1,2) by (auto simp: set_conv_nth)
  moreover have "\<forall>x \<in> set (drop r xs). P x"
    using r(1,3) by (auto simp: set_conv_nth)
  moreover have "filter P xs = filter P (take r xs) @ filter P (drop r xs)"
    by (metis append_take_drop_id filter_append)
  ultimately show "drop r xs = filter P xs"
    by (simp add: filter_False filter_True)
qed

lemma seek_index:
  assumes "sorted (map TimeInMilliseconds ss)"
  shows "search_inv (\<lambda>n. TimeInMilliseconds (ss ! n) \<ge> t) (length ss)
     (sort_Search (length ss) (\<lambda>n. TimeInMilliseconds (ss ! n) \<ge> t))
     (sort_Search (length ss) (\<lambda>n. TimeInMilliseconds (ss ! n) \<ge> t))"
proof (rule sort_Search_spec, intro allI impI)
  fix a b assume "a \<le> b \<and> b < length ss \<and> t \<le> TimeInMilliseconds (ss ! a)"
  then show "t \<le> TimeInMilliseconds (ss ! b)"
    using sorted_nth_mono [OF assms, of a b] by simp
qed

text \<open>
  On a series in time order, \<open>Seek(t)\<close>, a binary search, moves the iterator to the
  first sample at or after \<open>t\<close> and reports whether there is one; the samples from there on
  are exactly those at or after \<open>t\<close>.
\<close>

theorem seek_finds_first:
  assumes "sorted (map TimeInMilliseconds (cs_samples (it_series c)))"
    and "iter_Seek t c = (ok, c')"
  shows "drop (nat (it_cur c')) (cs_samples (it_series c')) =
      filter (\<lambda>s. t \<le> TimeInMilliseconds s) (cs_samples (it_series c))
    \<and> (ok \<longleftrightarrow> (\<exists>s \<in> set (cs_samples (it_series c)). t \<le> TimeInMilliseconds s))
    \<and> (ok \<longrightarrow> iter_At c' = map_option (\<lambda>s. (TimeInMilliseconds s, sm_Value s))
         (find (\<lambda>s. t \<le> TimeInMilliseconds s) (cs_samples (it_series c))))"
proof -
  let ?ss = "cs_samples (it_series c)"
  let ?r = "sort_Search (length ?ss) (\<lambda>n. TimeInMilliseconds (?ss ! n) \<ge> t)"
  note r = split_index [OF seek_index [OF assms(1), of t]]
  have c': "it_cur c' = int ?r" "it_series c' = it_series c" "ok \<longleftrightarrow> ?r < length ?ss"
    using assms(2) by (auto simp: iter_Seek_def Let_def)
  have "ok \<longleftrightarrow> filter (\<lambda>s. t \<le> TimeInMilliseconds s) ?ss \<noteq> []"
    using c'(3) r(1) unfolding r(2) [symmetric] by auto
  moreover have "?ss ! ?r = hd (filter (\<lambda>s. t \<le> TimeInMilliseconds s) ?ss)" if ok
    using that c'(3) unfolding r(2) [symmetric] by (simp add: hd_drop_conv_nth)
  ultimately show ?thesis
    using c' r(2) by (auto simp: filter_empty_conv iter_At_def Let_def find_filter
        split: list.splits)
qed

definition ex_series :: concreteSeries where
  "ex_series = \<lparr>cs_labels = [(''a'', ''b'')],
     cs_samples = [\<lparr>TimeInMilliseconds = 10, sm_Value = Fin 1\<rparr>, \<lparr>TimeInMilliseconds = 20, sm_Value = Fin 2\<rparr>,
       \<lparr>TimeInMilliseconds = 30, sm_Value = Fin 3\<rparr>]\<rparr>"

theorem seek_finds_first_witness:
  "fst (iter_Seek 15 (newConcreteSeriersIterator ex_series))
   \<and> iter_At (snd (iter_Seek 15 (newConcreteSeriersIterator ex_series))) = Some (20, Fin 2)"
  using seek_finds_first [of "newConcreteSeriersIterator ex_series" 15, OF _ surjective_pairing]
  by (simp add: newConcreteSeriersIterator_def ex_series_def)

section \<open>Translated matchers\<close>

text \<open>The conditions an \<open>AND\<close> chain built by \<open>ToInfluxFilters\<close> joins, the last matcher first.\<close>

fun conjuncts :: "'r iexpr \<Rightarrow> 'r iexpr list" where
  "conjuncts (BinaryExpr TAND f c) = f # conjuncts c"
| "conjuncts e = [e]"

lemma filter_not_and:
  "ToInfluxFilter rx mt = Inr f \<Longrightarrow> conjuncts f = [f]"
  by (cases "m_Type mt") (auto simp: ToInfluxFilter_def split: option.splits)

definition cond_conjuncts :: "'r iexpr option \<Rightarrow> 'r iexpr list" where
  "cond_conjuncts r = (case r of None \<Rightarrow> [] | Some c \<Rightarrow> conjuncts c)"

lemma filters_from_ok:
  "list_all (\<lambda>mt. \<not> isl (ToInfluxFilter rx mt)) mts \<Longrightarrow>
   \<exists>r. filters_from rx cond mts = Inr r \<and>
     cond_conjuncts r = rev (map (\<lambda>mt. projr (ToInfluxFilter rx mt)) mts) @ cond_conjuncts cond"
proof (induction mts arbitrary: cond)
  case (Cons mt mts)
  then obtain f where f: "ToInfluxFilter rx mt = Inr f"
    by (cases "ToInfluxFilter rx mt") auto
  let ?c = "case cond of None \<Rightarrow> f | Some c \<Rightarrow> BinaryExpr TAND f c"
  have "cond_conjuncts (Some ?c) = f # cond_conjuncts cond"
    using filter_not_and [OF f] by (cases cond) (auto simp: cond_conjuncts_def)
  then show ?case
    using Cons.IH [of "Some ?c"] Cons.prems f by auto
qed auto

lemma filters_from_error:
  "find (\<lambda>mt. isl (ToInfluxFilter rx mt)) mts = Some mt \<Longrightarrow>
   filters_from rx cond mts = Inl (projl (ToInfluxFilter rx mt))"
  by (induction mts arbitrary: cond) (auto split: sum.splits if_splits)

lemma find_None_list_all: "find P xs = None \<longleftrightarrow> list_all (\<lambda>x. \<not> P x) xs"
  by (induction xs) auto

text \<open>
  C40: The condition for a list of matchers is the conjunction of exactly their filters; it
  is missing only for the empty list, and the first matcher that has no filter (an unknown
  type, a regular expression that does not compile) makes the translation fail with its
  error.
\<close>

theorem filters_translate_all:
  "case find (\<lambda>mt. isl (ToInfluxFilter rx mt)) mts of
     Some mt \<Rightarrow> ToInfluxFilters rx mts = Inl (projl (ToInfluxFilter rx mt))
   | None \<Rightarrow> (\<exists>r. ToInfluxFilters rx mts = Inr r \<and> (r = None \<longleftrightarrow> mts = []) \<and>
       rev (cond_conjuncts r) = map (\<lambda>mt. projr (ToInfluxFilter rx mt)) mts)"
proof (cases "find (\<lambda>mt. isl (ToInfluxFilter rx mt)) mts")
  case None
  then obtain r where r: "ToInfluxFilters rx mts = Inr r"
    "cond_conjuncts r = rev (map (\<lambda>mt. projr (ToInfluxFilter rx mt)) mts)"
    using filters_from_ok [of rx mts None]
    by (auto simp: find_None_list_all ToInfluxFilters_def cond_conjuncts_def)
  have "conjuncts c \<noteq> []" for c :: "'a iexpr" by (cases c rule: conjuncts.cases) auto
  then have "r = None \<longleftrightarrow> mts = []"
    using r(2) by (cases r) (auto simp: cond_conjuncts_def)
  with r None show ?thesis by simp
next
  case (Some mt)
  then show ?thesis by (simp add: ToInfluxFilters_def filters_from_error)
qed

section \<open>The builder joins the shards\<close>

type_synonym shard_result = "labels \<times> floatPoint list"

definition build :: "(labels \<Rightarrow> int) \<Rightarrow> shard_result list \<Rightarrow> seriesSetBuilder" where
  "build hash adds = foldl (\<lambda>b (ls, ps). AddSeriesPoints hash ls ps b) NewSeriesBuilder adds"

text \<open>The samples added for a label set, one list per non-empty call.\<close>

definition shards_of :: "shard_result list \<Rightarrow> labels \<Rightarrow> seriesSample list list" where
  "shards_of adds ls = map (\<lambda>a. map to_sample (snd a)) (filter (\<lambda>a. fst a = ls \<and> snd a \<noteq> []) adds)"

definition builder_rep :: "(labels \<Rightarrow> int) \<Rightarrow> shard_result list \<Rightarrow> seriesSetBuilder \<Rightarrow> bool" where
  "builder_rep hash adds b \<longleftrightarrow>
     distinct (map fst (ssb_data b)) \<and> ssb_count b = (\<Sum>a\<leftarrow>adds. length (snd a)) \<and>
     (\<forall>(h, d) \<in> set (ssb_data b). h = hash (sd_labels d) \<and> sd_labels d \<in> fst ` set adds) \<and>
     (\<forall>ls \<in> fst ` set adds. map_of (ssb_data b) (hash ls) =
        (if shards_of adds ls = [] then None
         else Some \<lparr>sd_labels = ls, sd_samples = shards_of adds ls\<rparr>))"

lemma shards_of_snoc:
  "shards_of (adds @ [(l, ps)]) ls =
     shards_of adds ls @ (if l = ls \<and> ps \<noteq> [] then [map to_sample ps] else [])"
  by (simp add: shards_of_def)

lemma shards_of_notin: "ls \<notin> fst ` set adds \<Longrightarrow> shards_of adds ls = []"
  by (force simp: shards_of_def filter_empty_conv)

lemma builder_rep_get:
  assumes rep: "builder_rep hash adds b" and inj: "inj_on hash (insert l (fst ` set adds))"
  shows "map_of (ssb_data b) (hash l) =
    (if shards_of adds l = [] then None
     else Some \<lparr>sd_labels = l, sd_samples = shards_of adds l\<rparr>)"
proof (cases "l \<in> fst ` set adds")
  case True
  then show ?thesis using rep unfolding builder_rep_def by blast
next
  case new: False
  have "map_of (ssb_data b) (hash l) = None"
  proof (rule ccontr)
    assume "map_of (ssb_data b) (hash l) \<noteq> None"
    then obtain d where "(hash l, d) \<in> set (ssb_data b)" by (auto dest: map_of_SomeD)
    then have "hash l = hash (sd_labels d)" "sd_labels d \<in> fst ` set adds"
      using rep by (auto simp: builder_rep_def)
    then show False using inj new by (auto simp: inj_on_def)
  qed
  then show ?thesis using new by (simp add: shards_of_notin)
qed

lemma builder_rep_add:
  assumes rep: "builder_rep hash adds b" and inj: "inj_on hash (insert l (fst ` set adds))"
  shows "builder_rep hash (adds @ [(l, ps)]) (AddSeriesPoints hash l ps b)"
proof (cases "ps = []")
  case True
  then have "shards_of (adds @ [(l, ps)]) = shards_of adds" by (simp add: fun_eq_iff shards_of_snoc)
  then show ?thesis
    using rep True builder_rep_get [OF rep inj]
    unfolding builder_rep_def by (auto simp: AddSeriesPoints_def)
next
  case False
  define old where "old = shards_of adds l"
  have get: "map_of (ssb_data b) (hash l) =
      (if old = [] then None else Some \<lparr>sd_labels = l, sd_samples = old\<rparr>)"
    using builder_rep_get [OF rep inj] by (simp add: old_def)
  let ?d = "\<lparr>sd_labels = l, sd_samples = old @ [map to_sample ps]\<rparr>"
  have add: "AddSeriesPoints hash l ps b =
      b\<lparr>ssb_data := AList.update (hash l) ?d (ssb_data b), ssb_count := ssb_count b + length ps\<rparr>"
    using False get by (simp add: AddSeriesPoints_def)
  have other: "hash ls \<noteq> hash l" if "ls \<in> fst ` set adds" "ls \<noteq> l" for ls
    using inj that by (auto simp: inj_on_def)
  show ?thesis
    unfolding add builder_rep_def
  proof (intro conjI)
    show "\<forall>(h, d) \<in> set (ssb_data (b\<lparr>ssb_data := AList.update (hash l) ?d (ssb_data b), ssb_count := ssb_count b + length ps\<rparr>)).
        h = hash (sd_labels d) \<and> sd_labels d \<in> fst ` set (adds @ [(l, ps)])"
      using rep by (fastforce simp: builder_rep_def dest!: set_update_subset)
    show "\<forall>ls \<in> fst ` set (adds @ [(l, ps)]).
        map_of (ssb_data (b\<lparr>ssb_data := AList.update (hash l) ?d (ssb_data b), ssb_count := ssb_count b + length ps\<rparr>)) (hash ls) =
        (if shards_of (adds @ [(l, ps)]) ls = [] then None
         else Some \<lparr>sd_labels = ls, sd_samples = shards_of (adds @ [(l, ps)]) ls\<rparr>)"
      using rep other False by (auto simp: builder_rep_def update_conv' shards_of_snoc old_def)
  qed (use rep in \<open>simp_all add: builder_rep_def distinct_update\<close>)
qed

lemma builder_rep_build: "inj_on hash (fst ` set adds) \<Longrightarrow> builder_rep hash adds (build hash adds)"
proof (induction adds rule: rev_induct)
  case Nil
  then show ?case by (simp add: builder_rep_def build_def NewSeriesBuilder_def)
next
  case (snoc a adds)
  obtain l ps where a: "a = (l, ps)" by (cases a)
  have "inj_on hash (fst ` set adds)" using snoc.prems by (rule inj_on_subset) auto
  then show ?case
    using builder_rep_add [of hash adds "build hash adds" l ps] snoc a by (simp add: build_def)
qed

text \<open>Lists of samples in time order, of which any two lie one before the other.\<close>

definition times :: "seriesSample list \<Rightarrow> int list" where
  "times s = map TimeInMilliseconds s"

definition shards_apart :: "seriesSample list list \<Rightarrow> bool" where
  "shards_apart ss \<longleftrightarrow>
     distinct ss \<and> (\<forall>s \<in> set ss. s \<noteq> [] \<and> sorted (times s)) \<and>
     (\<forall>a \<in> set ss. \<forall>b \<in> set ss. a \<noteq> b \<longrightarrow>
        (\<forall>x \<in> set (times a). \<forall>y \<in> set (times b). x < y) \<or>
        (\<forall>x \<in> set (times a). \<forall>y \<in> set (times b). y < x))"

lemma concat_sorted:
  assumes "sorted_wrt (\<lambda>a b. \<forall>x \<in> set (times a). \<forall>y \<in> set (times b). x < y) ss"
    and "\<forall>s \<in> set ss. sorted (times s)"
  shows "sorted (times (concat ss))"
  using assms
proof (induction ss)
  case (Cons s ss)
  then show ?case by (fastforce simp: times_def sorted_append map_concat)
qed (simp add: times_def)

lemma join_shards_sorted:
  assumes apart: "shards_apart ss"
  shows "sorted (times (join_shards ss))"
proof -
  let ?key = "\<lambda>s. TimeInMilliseconds (s ! 0)"
  let ?o = "sort_key ?key ss"
  have d: "distinct ?o" "set ?o = set ss" using apart by (simp_all add: shards_apart_def)
  have first: "?key s \<in> set (times s)" if "s \<in> set ss" for s
    using apart that by (auto simp: shards_apart_def times_def)
  have "sorted_wrt (\<lambda>a b. ?key a \<le> ?key b) ?o"
    using sorted_sort_key [of ?key ss] by (simp add: sorted_map)
  then have "sorted_wrt (\<lambda>a b. ?key a \<le> ?key b \<and> a \<noteq> b) ?o"
    using d(1) by (simp add: sorted_wrt_iff_nth_less nth_eq_iff_index_eq)
  then have "sorted_wrt (\<lambda>a b. \<forall>x \<in> set (times a). \<forall>y \<in> set (times b). x < y) ?o"
  proof (rule sorted_wrt_mono_rel [rotated])
    fix a b assume "a \<in> set ?o" "b \<in> set ?o" "?key a \<le> ?key b \<and> a \<noteq> b"
    then show "\<forall>x \<in> set (times a). \<forall>y \<in> set (times b). x < y"
      using apart first [of a] first [of b] unfolding shards_apart_def by (metis d(2) not_less)
  qed
  then show ?thesis
    using apart unfolding join_shards_def by (intro concat_sorted) (auto simp: shards_apart_def)
qed

lemma join_shards_mset: "mset (join_shards ss) = mset (concat ss)"
proof -
  have "mset (sort_key (\<lambda>s. TimeInMilliseconds (s ! 0)) ss) = mset ss" by simp
  then show ?thesis
    unfolding join_shards_def by (metis mset_concat mset_map sum_mset_sum_list)
qed

text \<open>What the data of a built set are: one entry per label set with a sample.\<close>

lemma build_entry:
  assumes inj: "inj_on hash (fst ` set adds)" and hd: "(h, d) \<in> set (ssb_data (build hash adds))"
  shows "h = hash (sd_labels d)"
    and "d = \<lparr>sd_labels = sd_labels d, sd_samples = shards_of adds (sd_labels d)\<rparr>"
    and "shards_of adds (sd_labels d) \<noteq> []"
proof -
  note rep = builder_rep_build [OF inj]
  have h: "h = hash (sd_labels d)" "sd_labels d \<in> fst ` set adds"
    using rep hd by (auto simp: builder_rep_def)
  then have "map_of (ssb_data (build hash adds)) (hash (sd_labels d)) = Some d"
    using hd rep by (auto simp: builder_rep_def intro: map_of_is_SomeI)
  then have "d = \<lparr>sd_labels = sd_labels d, sd_samples = shards_of adds (sd_labels d)\<rparr>
      \<and> shards_of adds (sd_labels d) \<noteq> []"
    using builder_rep_get [OF rep, of "sd_labels d"] h inj
    by (auto simp: insert_absorb split: if_splits)
  with h show "h = hash (sd_labels d)"
    and "d = \<lparr>sd_labels = sd_labels d, sd_samples = shards_of adds (sd_labels d)\<rparr>"
    and "shards_of adds (sd_labels d) \<noteq> []" by blast+
qed

lemma build_has_entry:
  assumes inj: "inj_on hash (fst ` set adds)" and ne: "shards_of adds ls \<noteq> []"
  shows "(hash ls, \<lparr>sd_labels = ls, sd_samples = shards_of adds ls\<rparr>) \<in> set (ssb_data (build hash adds))"
proof -
  have "ls \<in> fst ` set adds" using ne shards_of_notin by blast
  then show ?thesis
    using builder_rep_get [OF builder_rep_build [OF inj], of ls] ne inj
    by (simp add: insert_absorb map_of_SomeD)
qed

lemma series_of_build:
  assumes inj: "inj_on hash (fst ` set adds)"
  shows "set (css_series (SeriesSet (build hash adds))) =
    {\<lparr>cs_labels = ls, cs_samples = join_shards (shards_of adds ls)\<rparr> | ls. shards_of adds ls \<noteq> []}"
    (is "?L = ?R")
proof
  show "?L \<subseteq> ?R"
  proof
    fix s assume "s \<in> ?L"
    then obtain h d where "(h, d) \<in> set (ssb_data (build hash adds))"
      "s = \<lparr>cs_labels = sd_labels d, cs_samples = join_shards (sd_samples d)\<rparr>"
      by (auto simp: SeriesSet_def)
    then show "s \<in> ?R"
      using build_entry(2,3) [OF inj] by (metis (mono_tags, lifting) mem_Collect_eq seriesData.select_convs(2))
  qed
  show "?R \<subseteq> ?L"
    using build_has_entry [OF inj] by (force simp: SeriesSet_def)
qed

lemma series_labels_distinct:
  assumes inj: "inj_on hash (fst ` set adds)"
  shows "distinct (map cs_labels (css_series (SeriesSet (build hash adds))))"
proof -
  have "map fst (ssb_data (build hash adds)) =
      map hash (map cs_labels (css_series (SeriesSet (build hash adds))))"
    using build_entry(1) [OF inj] by (auto simp: SeriesSet_def)
  moreover have "distinct (map fst (ssb_data (build hash adds)))"
    using builder_rep_build [OF inj] by (simp add: builder_rep_def)
  ultimately show ?thesis by (metis distinct_map)
qed

text \<open>
  C32: For a hash without collisions on the label sets at hand, the series set has one
  series for every label set with a sample, and its samples are exactly those added for
  it; when the shards' samples are in time order and do not overlap, so are the joined
  ones, whatever the order in which the shards answered. \<open>Len\<close> counts all samples.
\<close>

theorem builder_joins_shards:
  assumes "inj_on hash (fst ` set adds)"
  shows "distinct (map cs_labels (css_series (SeriesSet (build hash adds))))
    \<and> (\<forall>ls. (ls \<in> set (map cs_labels (css_series (SeriesSet (build hash adds)))))
          \<longleftrightarrow> shards_of adds ls \<noteq> [])
    \<and> (\<forall>s \<in> set (css_series (SeriesSet (build hash adds))).
         mset (cs_samples s) = mset (concat (shards_of adds (cs_labels s)))
         \<and> (shards_apart (shards_of adds (cs_labels s)) \<longrightarrow> sorted (times (cs_samples s))))
    \<and> builder_Len (build hash adds) = (\<Sum>a\<leftarrow>adds. length (snd a))"
  using series_labels_distinct [OF assms] series_of_build [OF assms] builder_rep_build [OF assms]
  by (auto simp: join_shards_mset join_shards_sorted builder_Len_def builder_rep_def image_iff)

definition ex_adds :: "shard_result list" where
  "ex_adds = [([(''a'', ''b'')], [\<lparr>fp_Time = 20000000, fp_Value = Fin 2\<rparr>]), ([(''c'', ''d''), (''e'', ''f'')], []),
     ([(''a'', ''b'')], [\<lparr>fp_Time = 10000000, fp_Value = Fin 1\<rparr>])]"

definition ex_hash :: "labels \<Rightarrow> int" where
  "ex_hash ls = int (length ls)"

theorem builder_joins_shards_witness:
  "map (times \<circ> cs_samples) (css_series (SeriesSet (build ex_hash ex_adds))) = [[10, 20]]
   \<and> map cs_labels (css_series (SeriesSet (build ex_hash ex_adds))) = [[(''a'', ''b'')]]
   \<and> builder_Len (build ex_hash ex_adds) = 2"
proof -
  have "inj_on ex_hash (fst ` set ex_adds)"
    by (simp add: inj_on_def ex_hash_def ex_adds_def)
  moreover have "map (times \<circ> cs_samples) (css_series (SeriesSet (build ex_hash ex_adds))) = [[10, 20]]"
    by code_simp
  moreover have "map cs_labels (css_series (SeriesSet (build ex_hash ex_adds))) = [[(''a'', ''b'')]]"
    by code_simp
  ultimately show ?thesis
    using builder_joins_shards [of ex_hash ex_adds] by (simp add: ex_adds_def)
qed

end
