(* ===== verification/Shards.thy ===== *)
theory Shards
  imports Series_Set
begin

text \<open>
  The adapter between the metric store and its time series database
  (\<open>pkg/persistence/influx_adapter.go\<close>, \<open>shard_ids.go\<close>). Points are kept in one shard per
  day; a shard's id is the start of its day in nanoseconds. The database (InfluxDB's
  \<open>tsdb.Store\<close>, the interface \<open>InfluxStore\<close>) is a parameter: a record of its operations on a
  state \<open>'s\<close>. What the adapter relies on is \<open>stores_points\<close> and \<open>reads_points\<close>, the documented
  behaviour of its writes, deletions and iterators. \<open>sched\<close> and \<open>ord\<close> are the orders that the
  goroutines of a query and the iteration over a Go map happen to have.
\<close>

section \<open>Days\<close>

text \<open>
  \<open>Truncate(24 * time.Hour)\<close> rounds down to a multiple of a day since Go's zero time, which
  is a whole number of days before the Unix epoch. \<open>UnixNano\<close> wraps around.
\<close>

definition day :: int where
  "day = 86400000000000"

definition truncate_day :: "int \<Rightarrow> int" where
  "truncate_day t = t - t mod day"

definition getShardStartForTimestamp :: "int \<Rightarrow> int" where
  "getShardStartForTimestamp ts = i64 (truncate_day ts)"

definition getShardEndForTimestamp :: "int \<Rightarrow> int" where
  "getShardEndForTimestamp ts = i64 (truncate_day ts + day)"

section \<open>The database\<close>

record 'r iteratorOptions =
  io_Aux :: "string list"
  io_Dimensions :: "string list"
  io_Condition :: "'r iexpr option"
  io_StartTime :: int
  io_EndTime :: int

text \<open>An iterator yields its points and then ends, or fails.\<close>

type_synonym labeledIterator = "labels \<times> floatPoint list \<times> string option"

record ('s, 'r) influxStore =
  CreateShard :: "int \<Rightarrow> 's \<Rightarrow> (string + unit) \<times> 's"
  DeleteShard :: "int \<Rightarrow> 's \<Rightarrow> (string + unit) \<times> 's"
  WriteToShard :: "int \<Rightarrow> influx_point list \<Rightarrow> 's \<Rightarrow> (string + unit) \<times> 's"
  store_ShardIDs :: "'s \<Rightarrow> int list"
  store_Shards :: "int list \<Rightarrow> 's \<Rightarrow> int list"
  FieldDimensions :: "int list \<Rightarrow> string \<Rightarrow> 's \<Rightarrow> string + string list \<times> string list"
  CreateIterators :: "int \<Rightarrow> string \<Rightarrow> 'r iteratorOptions \<Rightarrow> 's \<Rightarrow> string + labeledIterator list"
  TagKeys :: "int list \<Rightarrow> 's \<Rightarrow> string list list"
  TagValues :: "int list \<Rightarrow> string \<Rightarrow> 's \<Rightarrow> string list list"
  Measurements :: "int list \<Rightarrow> 's \<Rightarrow> string list"

section \<open>The adapter\<close>

datatype adapter_error =
    StoreError string
  | FilterError filter_error
  | NoShardIDs
  | PanicMisaligned int
  | PanicCreateShard string
  | PanicNewPoint

record 's influxAdapter =
  ad_influx :: 's
  ad_shards :: "int list"

definition checkShardId :: "int \<Rightarrow> adapter_error option" where
  "checkShardId shardId =
     (let shardStart = i64 shardId
      in if shardStart \<noteq> getShardStartForTimestamp shardStart
         then Some (PanicMisaligned shardStart) else None)"

fun register_shards :: "int list \<Rightarrow> int list \<Rightarrow> adapter_error + int list" where
  "register_shards known [] = Inr known"
| "register_shards known (i # is) =
     (case checkShardId i of
        Some e \<Rightarrow> Inl e
      | None \<Rightarrow> register_shards (List.insert i known) is)"

definition NewInfluxAdapter :: "('s, 'r) influxStore \<Rightarrow> 's \<Rightarrow> adapter_error + 's influxAdapter" where
  "NewInfluxAdapter db s =
     map_sum id (\<lambda>ids. \<lparr>ad_influx = s, ad_shards = ids\<rparr>) (register_shards [] (store_ShardIDs db s))"

text \<open>\<open>sync.Map.LoadOrStore\<close>; creating the shard panics when the database refuses.\<close>

definition findOrCreateShardForTimestamp ::
    "('s, 'r) influxStore \<Rightarrow> int \<Rightarrow> 's influxAdapter \<Rightarrow> (adapter_error + int) \<times> 's influxAdapter" where
  "findOrCreateShardForTimestamp db ts t =
     (let shardId = u64 (getShardStartForTimestamp ts)
      in if shardId \<in> set (ad_shards t) then (Inr shardId, t)
         else let t = t\<lparr>ad_shards := shardId # ad_shards t\<rparr>
              in case CreateShard db shardId (ad_influx t) of
                   (Inl e, s) \<Rightarrow> (Inl (PanicCreateShard e), t\<lparr>ad_influx := s\<rparr>)
                 | (Inr _, s) \<Rightarrow> (Inr shardId, t\<lparr>ad_influx := s\<rparr>))"

type_synonym buckets = "(int \<times> influx_point list) list"

definition add_to_bucket :: "buckets \<Rightarrow> influx_point \<Rightarrow> buckets" where
  "add_to_bucket m p =
     (let shardStart = getShardStartForTimestamp (ip_time p)
      in AList.update shardStart ((case map_of m shardStart of None \<Rightarrow> [] | Some ps \<Rightarrow> ps) @ [p]) m)"

fun write_buckets ::
    "('s, 'r) influxStore \<Rightarrow> buckets \<Rightarrow> 's influxAdapter \<Rightarrow> (adapter_error + unit) \<times> 's influxAdapter" where
  "write_buckets db [] t = (Inr (), t)"
| "write_buckets db ((bucketIndex, points) # bs) t =
     (case findOrCreateShardForTimestamp db bucketIndex t of
        (Inl e, t) \<Rightarrow> (Inl e, t)
      | (Inr shardId, t) \<Rightarrow>
          (case WriteToShard db shardId points (ad_influx t) of
             (Inl e, s) \<Rightarrow> (Inl (StoreError e), t\<lparr>ad_influx := s\<rparr>)
           | (Inr _, s) \<Rightarrow> write_buckets db bs (t\<lparr>ad_influx := s\<rparr>)))"

definition WritePoints ::
    "('s, 'r) influxStore \<Rightarrow> (influx_point \<Rightarrow> bool) \<Rightarrow> (buckets \<Rightarrow> buckets) \<Rightarrow> point list \<Rightarrow>
     's influxAdapter \<Rightarrow> (adapter_error + unit) \<times> 's influxAdapter" where
  "WritePoints db okp ord points t =
     (case ToInfluxPoints okp points of
        None \<Rightarrow> (Inl PanicNewPoint, t)
      | Some influxPoints \<Rightarrow> write_buckets db (ord (foldl add_to_bucket [] influxPoints)) t)"

definition forTimestampRange :: "int \<Rightarrow> int \<Rightarrow> 's influxAdapter \<Rightarrow> int list" where
  "forTimestampRange start end t =
     sort (filter (\<lambda>shardId. i64 shardId < end \<and> getShardEndForTimestamp (i64 shardId) \<ge> start)
       (ad_shards t))"

text \<open>
  What the goroutine of one shard does to the builder and to the error channel, as a list
  of events.
\<close>

fun iterator_events :: "labeledIterator list \<Rightarrow> (string + shard_result) list" where
  "iterator_events [] = []"
| "iterator_events ((ls, ps, Some e) # its) = [Inl e]"
| "iterator_events ((ls, ps, None) # its) = Inr (ls, ps) # iterator_events its"

definition shard_events :: "string + labeledIterator list \<Rightarrow> (string + shard_result) list" where
  "shard_events r = (case r of Inl e \<Rightarrow> [Inl e] | Inr its \<Rightarrow> iterator_events its)"

definition GetPoints ::
    "('s, 'r) influxStore \<Rightarrow> (string \<Rightarrow> 'r option) \<Rightarrow> (labels \<Rightarrow> int) \<Rightarrow>
     ((string + shard_result) list \<Rightarrow> (string + shard_result) list) \<Rightarrow>
     string \<Rightarrow> int \<Rightarrow> int \<Rightarrow> matcher list \<Rightarrow> 's influxAdapter \<Rightarrow> adapter_error + seriesSetBuilder" where
  "GetPoints db rx hash sched measurementName start end matchers t =
     (let shardIDs = forTimestampRange start end t
      in case FieldDimensions db shardIDs measurementName (ad_influx t) of
           Inl e \<Rightarrow> Inl (StoreError e)
         | Inr (auxFields, dimensions) \<Rightarrow>
             (case ToInfluxFilters rx matchers of
                Inl e \<Rightarrow> Inl (FilterError e)
              | Inr filterCondition \<Rightarrow>
                  let opts = \<lparr>io_Aux = auxFields, io_Dimensions = dimensions, io_Condition = filterCondition,
                              io_StartTime = start, io_EndTime = end\<rparr>;
                      events = sched (concat (map
                        (\<lambda>shard. shard_events (CreateIterators db shard measurementName opts (ad_influx t)))
                        (store_Shards db shardIDs (ad_influx t))))
                  in (case find isl events of
                        Some e \<Rightarrow> Inl (StoreError (projl e))
                      | None \<Rightarrow> Inr (build hash (map projr events)))))"

definition ad_ShardIDs :: "'s influxAdapter \<Rightarrow> int list" where
  "ad_ShardIDs t = rev (sort (ad_shards t))"

definition ShardIDsOldestSort :: "'s influxAdapter \<Rightarrow> int list" where
  "ShardIDsOldestSort t = sort (ad_shards t)"

definition AllTagKeys :: "('s, 'r) influxStore \<Rightarrow> 's influxAdapter \<Rightarrow> string list" where
  "AllTagKeys db t = concat (TagKeys db (ad_ShardIDs t) (ad_influx t))"

definition AllTagValues :: "('s, 'r) influxStore \<Rightarrow> string \<Rightarrow> 's influxAdapter \<Rightarrow> string list" where
  "AllTagValues db tagKey t = concat (TagValues db (ad_ShardIDs t) tagKey (ad_influx t))"

definition AllMeasurementNames :: "('s, 'r) influxStore \<Rightarrow> 's influxAdapter \<Rightarrow> string list" where
  "AllMeasurementNames db t = Measurements db (ad_ShardIDs t) (ad_influx t)"

definition OldestShardID :: "'s influxAdapter \<Rightarrow> adapter_error + int" where
  "OldestShardID t =
     (let shardIDs = ad_ShardIDs t
      in if shardIDs = [] then Inl NoShardIDs else Inr (shardIDs ! (length shardIDs - 1)))"

definition ad_Delete ::
    "('s, 'r) influxStore \<Rightarrow> int \<Rightarrow> 's influxAdapter \<Rightarrow> (adapter_error + unit) \<times> 's influxAdapter" where
  "ad_Delete db shardID t =
     (let t = t\<lparr>ad_shards := removeAll shardID (ad_shards t)\<rparr>
      in case DeleteShard db shardID (ad_influx t) of
           (r, s) \<Rightarrow> (map_sum StoreError id r, t\<lparr>ad_influx := s\<rparr>))"

definition DeleteOldest ::
    "('s, 'r) influxStore \<Rightarrow> 's influxAdapter \<Rightarrow> (adapter_error + unit) \<times> 's influxAdapter" where
  "DeleteOldest db t =
     (case OldestShardID t of
        Inl e \<Rightarrow> (Inl e, t)
      | Inr shardId \<Rightarrow>
          let t = snd (ad_Delete db shardId t)
          in case DeleteShard db shardId (ad_influx t) of
               (r, s) \<Rightarrow> (map_sum StoreError id r, t\<lparr>ad_influx := s\<rparr>))"

fun delete_until ::
    "('s, 'r) influxStore \<Rightarrow> int \<Rightarrow> int list \<Rightarrow> nat \<Rightarrow> 's influxAdapter \<Rightarrow>
     (nat \<times> adapter_error option) \<times> 's influxAdapter" where
  "delete_until db cutoff [] deleted t = ((deleted, None), t)"
| "delete_until db cutoff (shardID # ids) deleted t =
     (if i64 shardID > cutoff then ((deleted, None), t)
      else case ad_Delete db shardID t of
             (Inl e, t) \<Rightarrow> ((deleted, Some e), t)
           | (Inr _, t) \<Rightarrow> delete_until db cutoff ids (Suc deleted) t)"

definition adjustedCutoff :: "int \<Rightarrow> int" where
  "adjustedCutoff cutoff = i64 (truncate_day (cutoff - 60000000000))"

definition DeleteOlderThan ::
    "('s, 'r) influxStore \<Rightarrow> int \<Rightarrow> 's influxAdapter \<Rightarrow> (nat \<times> adapter_error option) \<times> 's influxAdapter" where
  "DeleteOlderThan db cutoff t = delete_until db (adjustedCutoff cutoff) (ShardIDsOldestSort t) 0 t"

definition removeFutureShardIds :: "int \<Rightarrow> int list \<Rightarrow> int list" where
  "removeFutureShardIds now shardIds = filter (\<lambda>id. id \<le> u64 (now + day)) shardIds"

fun contiguous_from :: "int \<Rightarrow> int list \<Rightarrow> int" where
  "contiguous_from l [] = l"
| "contiguous_from l (i # is) = (if u64 (l - i) = day then contiguous_from i is else l)"

definition OldestContiguousShardID :: "int \<Rightarrow> 's influxAdapter \<Rightarrow> adapter_error + int" where
  "OldestContiguousShardID now t =
     (case removeFutureShardIds now (ad_ShardIDs t) of
        [] \<Rightarrow> Inl NoShardIDs
      | i # is \<Rightarrow> Inr (contiguous_from i is))"

section \<open>Days and shards\<close>

declare split_paired_All [simp del] split_paired_Ex [simp del]

lemma day_pos [simp]: "0 < day"
  by (simp add: day_def)

lemma truncate_day_bounds: "truncate_day t \<le> t" "t < truncate_day t + day"
  using pos_mod_sign [OF day_pos, of t] pos_mod_bound [OF day_pos, of t]
  by (simp_all add: truncate_day_def)

lemma truncate_day_mod: "truncate_day t mod day = 0"
  by (simp add: truncate_day_def mod_diff_right_eq [of t t day, symmetric])

lemma truncate_day_idem [simp]: "truncate_day (truncate_day t) = truncate_day t"
  using truncate_day_mod by (simp add: truncate_day_def [of "truncate_day t"])

lemma truncate_day_mono: "a \<le> b \<Longrightarrow> truncate_day a \<le> truncate_day b"
  using zdiv_mono1 [of a b day]
  by (simp add: truncate_day_def minus_mod_eq_mult_div)

lemma truncate_day_nonneg: "0 \<le> t \<Longrightarrow> 0 \<le> truncate_day t"
  using truncate_day_mono [of 0 t] by (simp add: truncate_day_def)

text \<open>A timestamp whose day has a start that is an \<open>int64\<close>, and the id of its shard.\<close>

definition ts_ok :: "int \<Rightarrow> bool" where
  "ts_ok ts \<longleftrightarrow> - (2 ^ 63) \<le> truncate_day ts \<and> ts < 2 ^ 63"

definition shard_of :: "int \<Rightarrow> int" where
  "shard_of ts = u64 (getShardStartForTimestamp ts)"

lemma shard_start_ok:
  assumes "ts_ok ts"
  shows "getShardStartForTimestamp ts = truncate_day ts" "int64_range (truncate_day ts)"
  using assms truncate_day_bounds(1) [of ts]
  by (auto simp: ts_ok_def getShardStartForTimestamp_def i64_id)

lemma ts_ok_nonneg: "0 \<le> ts \<Longrightarrow> ts < 2 ^ 63 \<Longrightarrow> ts_ok ts"
  using truncate_day_nonneg [of ts] by (simp add: ts_ok_def)

lemma ts_ok_start: "ts_ok ts \<Longrightarrow> ts_ok (truncate_day ts)"
  using truncate_day_bounds(1) [of ts] by (auto simp: ts_ok_def)

lemma shard_of_start [simp]:
  assumes "ts_ok ts"
  shows "shard_of (getShardStartForTimestamp ts) = shard_of ts"
    and "i64 (shard_of ts) = truncate_day ts"
  using shard_start_ok [OF assms] shard_start_ok [OF ts_ok_start [OF assms]]
  by (simp_all add: shard_of_def i64_id)

lemma shard_of_eq_iff:
  "ts_ok a \<Longrightarrow> ts_ok b \<Longrightarrow> shard_of a = shard_of b \<longleftrightarrow> truncate_day a = truncate_day b"
  by (metis shard_of_def shard_of_start(2) shard_start_ok(1))

section \<open>What the adapter relies on\<close>

text \<open>
  The database keeps, per shard, a value for every field of a point's key: its name, tags
  and time. A point written again replaces the fields it has.
\<close>

type_synonym pkey = "string \<times> (string \<times> string) list \<times> int"
type_synonym fieldmap = "string \<rightharpoonup> field_value"
type_synonym contents = "int \<Rightarrow> pkey \<rightharpoonup> fieldmap"

definition point_key :: "influx_point \<Rightarrow> pkey" where
  "point_key p = (ip_name p, ip_tags p, ip_time p)"

abbreviation key_time :: "pkey \<Rightarrow> int" where
  "key_time k \<equiv> snd (snd k)"

definition merge_fields :: "fieldmap option \<Rightarrow> influx_point \<Rightarrow> fieldmap option" where
  "merge_fields old p = Some (case old of None \<Rightarrow> map_of (ip_fields p) | Some f \<Rightarrow> f ++ map_of (ip_fields p))"

definition put_point :: "(pkey \<rightharpoonup> fieldmap) \<Rightarrow> influx_point \<Rightarrow> (pkey \<rightharpoonup> fieldmap)" where
  "put_point m p = m(point_key p := merge_fields (m (point_key p)) p)"

definition stores_points :: "('s, 'r) influxStore \<Rightarrow> ('s \<Rightarrow> contents) \<Rightarrow> bool" where
  "stores_points db content \<longleftrightarrow>
     (\<forall>id s r s'. CreateShard db id s = (r, s') \<longrightarrow> content s' = content s) \<and>
     (\<forall>id ps s s'. WriteToShard db id ps s = (Inr (), s') \<longrightarrow>
        content s' = (content s)(id := foldl put_point (content s id) ps)) \<and>
     (\<forall>id ps s e s'. WriteToShard db id ps s = (Inl e, s') \<longrightarrow>
        (\<exists>m. content s' = (content s)(id := m) \<and>
           (\<forall>k. k \<notin> point_key ` set ps \<longrightarrow> m k = content s id k))) \<and>
     (\<forall>id s s'. DeleteShard db id s = (Inr (), s') \<longrightarrow> content s' = (content s)(id := Map.empty)) \<and>
     (\<forall>id s e s'. DeleteShard db id s = (Inl e, s') \<longrightarrow>
        (\<exists>m. content s' = (content s)(id := m) \<and> m \<subseteq>\<^sub>m content s id))"

lemma stores_pointsD:
  assumes "stores_points db content"
  shows "CreateShard db i s = (r, s') \<Longrightarrow> content s' = content s"
    and "WriteToShard db i ps s = (Inr u, s') \<Longrightarrow>
      content s' = (content s)(i := foldl put_point (content s i) ps)"
    and "WriteToShard db i ps s = (Inl e, s') \<Longrightarrow>
      \<exists>m. content s' = (content s)(i := m) \<and> (\<forall>k. k \<notin> point_key ` set ps \<longrightarrow> m k = content s i k)"
    and "DeleteShard db i s = (Inr u, s') \<Longrightarrow> content s' = (content s)(i := Map.empty)"
    and "DeleteShard db i s = (Inl e, s') \<Longrightarrow>
      \<exists>m. content s' = (content s)(i := m) \<and> m \<subseteq>\<^sub>m content s i"
  using assms unfolding stores_points_def by (simp, simp, blast, simp, blast)

text \<open>
  The invariant: the ids are those of days, every shard with a point is known, and a point
  lies in the shard of its day. What the adapter then represents is one map from keys to
  fields.
\<close>

definition adapter_inv :: "('s \<Rightarrow> contents) \<Rightarrow> 's influxAdapter \<Rightarrow> bool" where
  "adapter_inv content t \<longleftrightarrow>
     distinct (ad_shards t) \<and>
     (\<forall>id \<in> set (ad_shards t). \<exists>ts. ts_ok ts \<and> id = shard_of ts) \<and>
     (\<forall>id k. content (ad_influx t) id k \<noteq> None \<longrightarrow>
        id \<in> set (ad_shards t) \<and> ts_ok (key_time k) \<and> id = shard_of (key_time k))"

definition stored :: "('s \<Rightarrow> contents) \<Rightarrow> 's influxAdapter \<Rightarrow> pkey \<rightharpoonup> fieldmap" where
  "stored content t k = content (ad_influx t) (shard_of (key_time k)) k"

lemma adapter_invD:
  assumes "adapter_inv content t"
  shows "distinct (ad_shards t)"
    and "i \<in> set (ad_shards t) \<Longrightarrow> \<exists>ts. ts_ok ts \<and> i = shard_of ts"
    and "content (ad_influx t) i k = Some f \<Longrightarrow>
      i \<in> set (ad_shards t) \<and> ts_ok (key_time k) \<and> i = shard_of (key_time k) \<and> stored content t k = Some f"
proof -
  show "distinct (ad_shards t)" "i \<in> set (ad_shards t) \<Longrightarrow> \<exists>ts. ts_ok ts \<and> i = shard_of ts"
    using assms unfolding adapter_inv_def by blast+
  assume f: "content (ad_influx t) i k = Some f"
  then have "i \<in> set (ad_shards t)" "ts_ok (key_time k)" "i = shard_of (key_time k)"
    using assms unfolding adapter_inv_def by (metis option.distinct(1))+
  with f show "i \<in> set (ad_shards t) \<and> ts_ok (key_time k) \<and> i = shard_of (key_time k) \<and> stored content t k = Some f"
    by (simp add: stored_def)
qed

section \<open>Writing\<close>

lemma ToInfluxPoints_map: "ToInfluxPoints okp ps = Some ips \<Longrightarrow> ips = map ToInfluxPoint ps"
  by (induction ps arbitrary: ips) (auto split: if_splits)

text \<open>A key sees only the points written for it.\<close>

lemma foldl_put_point:
  "foldl put_point m ps k = foldl merge_fields (m k) (filter (\<lambda>p. point_key p = k) ps)"
  by (induction ps arbitrary: m) (auto simp: put_point_def)

lemma foldl_put_point_other: "k \<notin> point_key ` set ps \<Longrightarrow> foldl put_point m ps k = m k"
  unfolding foldl_put_point by (subst filter_False) auto

definition bucket_ok :: "int \<times> influx_point list \<Rightarrow> bool" where
  "bucket_ok b \<longleftrightarrow> snd b \<noteq> [] \<and> (\<forall>p \<in> set (snd b). ts_ok (ip_time p) \<and> fst b = getShardStartForTimestamp (ip_time p))"

text \<open>The buckets have every point, in its order, once.\<close>

lemma buckets_get:
  "map_of (foldl add_to_bucket m ps) b =
     (let new = filter (\<lambda>p. getShardStartForTimestamp (ip_time p) = b) ps
      in if new = [] then map_of m b else Some ((case map_of m b of None \<Rightarrow> [] | Some old \<Rightarrow> old) @ new))"
proof (induction ps arbitrary: m)
  case (Cons p ps)
  have "map_of (add_to_bucket m p) b =
      (if getShardStartForTimestamp (ip_time p) = b
       then Some ((case map_of m b of None \<Rightarrow> [] | Some old \<Rightarrow> old) @ [p]) else map_of m b)"
    by (simp add: add_to_bucket_def Let_def update_conv')
  then show ?case by (simp add: Cons.IH Let_def)
qed simp

lemma buckets_distinct: "distinct (map fst m) \<Longrightarrow> distinct (map fst (foldl add_to_bucket m ps))"
  by (induction ps arbitrary: m) (auto simp: add_to_bucket_def Let_def distinct_update)

lemma buckets_ok:
  assumes "\<forall>p \<in> set ps. ts_ok (ip_time p)" "b \<in> set (foldl add_to_bucket [] ps)"
  shows "bucket_ok b"
proof -
  have "map_of (foldl add_to_bucket [] ps) (fst b) = Some (snd b)"
    using assms(2) buckets_distinct [of "[]" ps] by (simp add: map_of_is_SomeI)
  then have "snd b = filter (\<lambda>p. getShardStartForTimestamp (ip_time p) = fst b) ps" "snd b \<noteq> []"
    by (auto simp: buckets_get Let_def split: if_splits)
  then show ?thesis using assms(1) by (auto simp: bucket_ok_def)
qed

lemma filter_concat_buckets:
  assumes "distinct (map fst bs)" "\<forall>b \<in> set bs. bucket_ok b" "getShardStartForTimestamp (key_time k) = i"
  shows "filter (\<lambda>p. point_key p = k) (concat (map snd bs)) =
    (case map_of bs i of None \<Rightarrow> [] | Some ps \<Rightarrow> filter (\<lambda>p. point_key p = k) ps)"
  using assms(1,2)
proof (induction bs)
  case (Cons b bs)
  have other: "filter (\<lambda>p. point_key p = k) (snd b) = []" if "bucket_ok b" "fst b \<noteq> i" for b
  proof (rule filter_False, rule ballI)
    fix p assume "p \<in> set (snd b)"
    then have "fst b = getShardStartForTimestamp (ip_time p)"
      using that(1) unfolding bucket_ok_def by blast
    then show "point_key p \<noteq> k" using that(2) assms(3) by (auto simp: point_key_def)
  qed
  have "filter (\<lambda>p. point_key p = k) (snd c) = []" if "fst b = i" "c \<in> set bs" for c
  proof (rule other)
    show "bucket_ok c" using Cons.prems(2) that(2) by simp
    show "fst c \<noteq> i" using Cons.prems(1) that by (auto simp: image_iff)
  qed
  then have "filter (\<lambda>p. point_key p = k) (concat (map snd bs)) = []" if "fst b = i"
    using that by (auto simp: filter_empty_conv)
  moreover obtain j qs where b: "b = (j, qs)" by (cases b)
  moreover have "bucket_ok b" "distinct (map fst bs)" "\<forall>b \<in> set bs. bucket_ok b"
    using Cons.prems by simp_all
  ultimately show ?case
    using other [of b] Cons.IH by (cases "j = i") simp_all
qed simp

lemma find_or_create:
  assumes db: "stores_points db content" and inv: "adapter_inv content t" and ts: "ts_ok ts"
    and call: "findOrCreateShardForTimestamp db (getShardStartForTimestamp ts) t = (r, t')"
  shows "adapter_inv content t' \<and> content (ad_influx t') = content (ad_influx t)
    \<and> (\<forall>i. r = Inr i \<longrightarrow> i = shard_of ts \<and> i \<in> set (ad_shards t'))"
proof (cases "shard_of ts \<in> set (ad_shards t)")
  case True
  then show ?thesis
    using inv call shard_of_start(1) [OF ts] by (auto simp: findOrCreateShardForTimestamp_def shard_of_def)
next
  case False
  obtain r' s where c: "CreateShard db (shard_of ts) (ad_influx t) = (r', s)"
    by (cases "CreateShard db (shard_of ts) (ad_influx t)")
  have t': "t' = t\<lparr>ad_shards := shard_of ts # ad_shards t, ad_influx := s\<rparr>"
    and r: "r = map_sum PanicCreateShard (\<lambda>_. shard_of ts) r'"
    using call False shard_of_start(1) [OF ts] c
    by (auto simp: findOrCreateShardForTimestamp_def Let_def shard_of_def split: sum.splits)
  have s: "content s = content (ad_influx t)"
    by (rule stores_pointsD(1) [OF db c])
  then have "adapter_inv content t'"
    using inv False ts unfolding adapter_inv_def t' by simp blast
  then show ?thesis using s r by (cases r') (simp_all add: t')
qed

text \<open>A change of one shard that touches only keys of its day.\<close>

lemma shard_update:
  assumes inv: "adapter_inv content t" and i: "shard_of ts \<in> set (ad_shards t)"
    and ks: "\<forall>k \<in> ks. ts_ok (key_time k) \<and> shard_of (key_time k) = shard_of ts"
    and s': "content s' = (content (ad_influx t))(shard_of ts := m)"
    and m: "\<forall>k. k \<notin> ks \<longrightarrow> m k = content (ad_influx t) (shard_of ts) k"
  shows "adapter_inv content (t\<lparr>ad_influx := s'\<rparr>)"
    and "stored content (t\<lparr>ad_influx := s'\<rparr>) k = (if k \<in> ks then m k else stored content t k)"
proof -
  have "i \<in> set (ad_shards t) \<and> ts_ok (key_time k) \<and> i = shard_of (key_time k)"
    if "content s' i k \<noteq> None" for i k
  proof (cases "i = shard_of ts \<and> k \<in> ks")
    case True
    then show ?thesis using i ks by auto
  next
    case False
    then have "content (ad_influx t) i k \<noteq> None"
      using that s' m [rule_format, of k] by (auto split: if_splits)
    then show ?thesis using adapter_invD(3) [OF inv] by blast
  qed
  then show "adapter_inv content (t\<lparr>ad_influx := s'\<rparr>)"
    using inv unfolding adapter_inv_def by simp
  show "stored content (t\<lparr>ad_influx := s'\<rparr>) k = (if k \<in> ks then m k else stored content t k)"
    using ks s' m [rule_format, of k] by (auto simp: stored_def)
qed

lemma bucket_keys:
  assumes "bucket_ok (b, ps)"
  obtains ts where "ts_ok ts" "b = getShardStartForTimestamp ts"
    "\<forall>k \<in> point_key ` set ps. ts_ok (key_time k) \<and> shard_of (key_time k) = shard_of ts"
proof -
  have ps: "ps \<noteq> []" "\<forall>p \<in> set ps. ts_ok (ip_time p) \<and> b = getShardStartForTimestamp (ip_time p)"
    using assms by (simp_all add: bucket_ok_def)
  then have "hd ps \<in> set ps" by simp
  show ?thesis
  proof (rule that)
    show hd: "ts_ok (ip_time (hd ps))" "b = getShardStartForTimestamp (ip_time (hd ps))"
      using ps(2) \<open>hd ps \<in> set ps\<close> by blast+
    show "\<forall>k \<in> point_key ` set ps. ts_ok (key_time k) \<and> shard_of (key_time k) = shard_of (ip_time (hd ps))"
      using ps(2) hd(2) by (auto simp: point_key_def shard_of_def)
  qed
qed

lemma write_shard_ok:
  assumes db: "stores_points db content" and inv: "adapter_inv content t"
    and i: "shard_of ts \<in> set (ad_shards t)"
    and ks: "\<forall>k \<in> point_key ` set ps. ts_ok (key_time k) \<and> shard_of (key_time k) = shard_of ts"
    and w: "WriteToShard db (shard_of ts) ps (ad_influx t) = (r, s')"
  shows "adapter_inv content (t\<lparr>ad_influx := s'\<rparr>)"
    and "r = Inr () \<Longrightarrow> stored content (t\<lparr>ad_influx := s'\<rparr>) = foldl put_point (stored content t) ps"
    and "k \<notin> point_key ` set ps \<Longrightarrow> stored content (t\<lparr>ad_influx := s'\<rparr>) k = stored content t k"
proof -
  have ok: "content s' = (content (ad_influx t))(shard_of ts := foldl put_point (content (ad_influx t) (shard_of ts)) ps)"
    if "r = Inr ()" using stores_pointsD(2) [OF db] w that by blast
  have "\<exists>m. content s' = (content (ad_influx t))(shard_of ts := m)
      \<and> (\<forall>k. k \<notin> point_key ` set ps \<longrightarrow> m k = content (ad_influx t) (shard_of ts) k)"
  proof (cases r)
    case (Inl e)
    then show ?thesis using stores_pointsD(3) [OF db] w by blast
  next
    case (Inr u)
    then have "r = Inr ()" by simp
    then show ?thesis using ok by (auto intro!: exI simp: foldl_put_point_other)
  qed
  then obtain m where m: "content s' = (content (ad_influx t))(shard_of ts := m)"
      "\<forall>k. k \<notin> point_key ` set ps \<longrightarrow> m k = content (ad_influx t) (shard_of ts) k" by blast
  note u = shard_update [OF inv i ks m]
  show "adapter_inv content (t\<lparr>ad_influx := s'\<rparr>)"
    and "k \<notin> point_key ` set ps \<Longrightarrow> stored content (t\<lparr>ad_influx := s'\<rparr>) k = stored content t k"
    using u by simp_all
  assume "r = Inr ()"
  from ok [OF this] m(1) have "m = foldl put_point (content (ad_influx t) (shard_of ts)) ps"
    by (metis fun_upd_same)
  then have "stored content (t\<lparr>ad_influx := s'\<rparr>) k = foldl put_point (stored content t) ps k" for k
    using u(2) [of k] bspec [OF ks, of k] foldl_put_point_other [of k ps]
    by (cases "k \<in> point_key ` set ps") (simp_all add: foldl_put_point stored_def)
  then show "stored content (t\<lparr>ad_influx := s'\<rparr>) = foldl put_point (stored content t) ps" by blast
qed

lemma write_buckets_ok:
  assumes "stores_points db content" "adapter_inv content t" "\<forall>b \<in> set bs. bucket_ok b"
    and "write_buckets db bs t = (r, t')"
  shows "adapter_inv content t'
    \<and> (r = Inr () \<longrightarrow> stored content t' = foldl put_point (stored content t) (concat (map snd bs)))
    \<and> (\<forall>k. k \<notin> point_key ` set (concat (map snd bs)) \<longrightarrow> stored content t' k = stored content t k)"
  using assms(2-4)
proof (induction bs arbitrary: t)
  case (Cons b bs)
  note db = assms(1)
  obtain i ps where b: "b = (i, ps)" by (cases b)
  obtain ts where ts: "ts_ok ts" "i = getShardStartForTimestamp ts"
      "\<forall>k \<in> point_key ` set ps. ts_ok (key_time k) \<and> shard_of (key_time k) = shard_of ts"
    using bucket_keys Cons.prems(2) b by (metis list.set_intros(1))
  obtain r1 t1 where f: "findOrCreateShardForTimestamp db i t = (r1, t1)"
    by (cases "findOrCreateShardForTimestamp db i t")
  have t1: "adapter_inv content t1" "content (ad_influx t1) = content (ad_influx t)"
    "\<And>j. r1 = Inr j \<Longrightarrow> j = shard_of ts \<and> j \<in> set (ad_shards t1)"
    using find_or_create [OF db Cons.prems(1) ts(1) f [unfolded ts(2)]] by blast+
  have st1: "stored content t1 = stored content t" by (simp add: stored_def fun_eq_iff t1(2))
  show ?case
  proof (cases r1)
    case (Inl e)
    then show ?thesis using Cons.prems(3) b f t1(1) st1 by auto
  next
    case (Inr j)
    then have j: "j = shard_of ts" "shard_of ts \<in> set (ad_shards t1)" using t1(3) by blast+
    obtain r2 s2 where w: "WriteToShard db (shard_of ts) ps (ad_influx t1) = (r2, s2)"
      by (cases "WriteToShard db (shard_of ts) ps (ad_influx t1)")
    note u = write_shard_ok [OF db t1(1) j(2) ts(3) w, unfolded st1]
    show ?thesis
    proof (cases r2)
      case (Inl e)
      then show ?thesis using Cons.prems(3) b f Inr w u(1,3) j by auto
    next
      case (Inr v)
      then have "write_buckets db bs (t1\<lparr>ad_influx := s2\<rparr>) = (r, t')"
        using Cons.prems(3) b f \<open>r1 = Inr j\<close> w j by simp
      from Cons.IH [OF u(1) _ this] have IH: "adapter_inv content t'"
        "r = Inr () \<longrightarrow> stored content t' = foldl put_point (foldl put_point (stored content t) ps) (concat (map snd bs))"
        "\<And>k. k \<notin> point_key ` set (concat (map snd bs)) \<Longrightarrow> stored content t' k = foldl put_point (stored content t) ps k"
        using Cons.prems(2) u(2) Inr by simp_all
      have "stored content t' k = stored content t k"
        if "k \<notin> point_key ` set (concat (map snd (b # bs)))" for k
        using IH(3) [of k] that b by (simp add: image_Un foldl_put_point_other)
      with IH(1,2) b show ?thesis by simp
    qed
  qed
qed auto

lemma ToInfluxPoint_time [simp]: "ip_time (ToInfluxPoint p) = p_Timestamp p"
  by (simp add: ToInfluxPoint_def split: prod.splits)

lemma key_in_filter: "k \<in> point_key ` set ps \<longleftrightarrow> filter (\<lambda>p. point_key p = k) ps \<noteq> []"
  by (auto simp: filter_empty_conv)

text \<open>A write adds its points to the represented map, whatever the order of the buckets.\<close>

lemma write_points_ok:
  assumes db: "stores_points db content" and inv: "adapter_inv content t"
    and ts: "\<forall>p \<in> set pts. ts_ok (p_Timestamp p)" and ord: "\<forall>bs. mset (ord bs) = mset bs"
    and w: "WritePoints db okp ord pts t = (r, t')"
  shows "adapter_inv content t'"
    and "r = Inr () \<Longrightarrow> stored content t' = foldl put_point (stored content t) (map ToInfluxPoint pts)"
    and "k \<notin> point_key ` ToInfluxPoint ` set pts \<Longrightarrow> stored content t' k = stored content t k"
proof -
  let ?ips = "map ToInfluxPoint pts"
  let ?bs = "ord (foldl add_to_bucket [] ?ips)"
  have bs: "set ?bs = set (foldl add_to_bucket [] ?ips)" "distinct (map fst ?bs)"
    using ord buckets_distinct [of "[]" ?ips]
    by (metis set_mset_mset, metis distinct.simps(1) list.simps(8) mset_eq_imp_distinct_iff mset_map)
  have ok: "\<forall>b \<in> set ?bs. bucket_ok b"
    unfolding bs(1) using ts by (auto intro!: buckets_ok)
  have mo: "map_of ?bs = map_of (foldl add_to_bucket [] ?ips)"
    by (rule map_of_perm [OF bs(2)]) (use ord in blast)
  have same: "filter (\<lambda>p. point_key p = k) (concat (map snd ?bs)) = filter (\<lambda>p. point_key p = k) ?ips" for k
  proof -
    have "filter (\<lambda>p. point_key p = k) (filter (\<lambda>p. getShardStartForTimestamp (ip_time p) = getShardStartForTimestamp (key_time k)) ?ips)
        = filter (\<lambda>p. point_key p = k) ?ips"
      by (auto simp: point_key_def intro!: filter_cong)
    then show ?thesis
      unfolding filter_concat_buckets [OF bs(2) ok refl] mo
      by (auto simp: buckets_get Let_def simp del: filter_filter)
  qed
  have keys: "point_key ` set (concat (map snd ?bs)) = point_key ` set ?ips"
    by (rule set_eqI) (simp only: key_in_filter same)
  have "foldl put_point m (concat (map snd ?bs)) = foldl put_point m ?ips" for m
    by (rule ext) (simp only: foldl_put_point same)
  moreover have "r = Inl PanicNewPoint \<and> t' = t \<or> write_buckets db ?bs t = (r, t')"
    using w by (auto simp: WritePoints_def dest: ToInfluxPoints_map split: option.splits)
  ultimately show "adapter_inv content t'"
    and "r = Inr () \<Longrightarrow> stored content t' = foldl put_point (stored content t) ?ips"
    and "k \<notin> point_key ` ToInfluxPoint ` set pts \<Longrightarrow> stored content t' k = stored content t k"
    using write_buckets_ok [OF db inv ok] inv keys by (auto simp: image_image)
qed

interpretation adapter_sink: point_sink "WritePoints db okp ord"
    "\<lambda>t. stores_points db content \<and> (\<forall>bs. mset (ord bs) = mset bs) \<and> adapter_inv content t"
    "stored content" "\<lambda>m p. put_point m (ToInfluxPoint p)" "\<lambda>p. ts_ok (p_Timestamp p)"
  for db okp ord content
proof
  fix w w' :: "'a influxAdapter" and ps :: "point list" and r u
  assume w: "stores_points db content \<and> (\<forall>bs. mset (ord bs) = mset bs) \<and> adapter_inv content w"
    and ps: "\<forall>p \<in> set ps. ts_ok (p_Timestamp p)"
  show "stores_points db content \<and> (\<forall>bs. mset (ord bs) = mset bs) \<and> adapter_inv content w'"
    if "WritePoints db okp ord ps w = (r, w')"
    using write_points_ok(1) [OF _ _ ps _ that] w by blast
  show "stored content w' = foldl (\<lambda>m p. put_point m (ToInfluxPoint p)) (stored content w) ps"
    if "WritePoints db okp ord ps w = (Inr u, w')"
    using write_points_ok(2) [OF _ _ ps _ that] w by (simp add: foldl_map)
qed

text \<open>What a start finds: an id that passes the check is that of a day.\<close>

lemma checkShardId_ok:
  assumes "checkShardId i = None" "0 \<le> i" "i < 2 ^ 64"
  shows "ts_ok (i64 i) \<and> i = shard_of (i64 i)"
proof -
  have eq: "i64 (truncate_day (i64 i)) = i64 i"
    using assms(1) by (auto simp: checkShardId_def getShardStartForTimestamp_def Let_def split: if_splits)
  have "- (2 ^ 63) \<le> truncate_day (i64 i)"
  proof (rule ccontr)
    assume lt: "\<not> - (2 ^ 63) \<le> truncate_day (i64 i)"
    have "truncate_day (i64 i) + 2 ^ 64 = i64 (truncate_day (i64 i))"
    proof -
      have "i64 (truncate_day (i64 i)) = i64 (truncate_day (i64 i) + 2 ^ 64)"
        by (metis i64_u64 mod_add_self2 u64_mod)
      also have "\<dots> = truncate_day (i64 i) + 2 ^ 64"
        using lt truncate_day_bounds(2) [of "i64 i"] i64_range [of i] by (intro i64_id) (auto simp: day_def)
      finally show ?thesis ..
    qed
    then show False
      using eq lt truncate_day_bounds(2) [of "i64 i"] i64_range [of i] by (simp add: day_def)
  qed
  then have "ts_ok (i64 i)" using i64_range(2) [of i] by (simp add: ts_ok_def)
  moreover have "shard_of (i64 i) = i"
    using eq assms(2,3) by (simp add: shard_of_def getShardStartForTimestamp_def u64_id)
  ultimately show ?thesis by simp
qed

lemma register_shards_ok:
  assumes "register_shards known is = Inr ids" "distinct known"
  shows "distinct ids \<and> set ids = set known \<union> set is \<and> (\<forall>i \<in> set is. checkShardId i = None)"
  using assms
  by (induction known "is" rule: register_shards.induct) (auto split: option.splits)

section \<open>Deleting\<close>

lemma delete_ok:
  assumes db: "stores_points db content" and inv: "adapter_inv content t"
    and d: "ad_Delete db i t = (Inr u, t')"
  shows "adapter_inv content t'" and "ad_shards t' = removeAll i (ad_shards t)"
    and "stored content t' k = (if shard_of (key_time k) = i then None else stored content t k)"
proof -
  obtain r s where rs: "DeleteShard db i (ad_influx t) = (r, s)" by fastforce
  then have s: "DeleteShard db i (ad_influx t) = (Inr (), s)"
    and t': "t' = t\<lparr>ad_shards := removeAll i (ad_shards t), ad_influx := s\<rparr>"
    using d by (cases r; simp add: ad_Delete_def Let_def)+
  have c: "content s = (content (ad_influx t))(i := Map.empty)"
    by (rule stores_pointsD(4) [OF db s])
  have "j \<in> set (removeAll i (ad_shards t)) \<and> ts_ok (key_time k) \<and> j = shard_of (key_time k)"
    if "content s j k \<noteq> None" for j k
    using that adapter_invD(3) [OF inv, of j k] c by (cases "j = i") auto
  then show "adapter_inv content t'"
    using inv unfolding adapter_inv_def t' by (simp add: distinct_removeAll)
  show "ad_shards t' = removeAll i (ad_shards t)" by (simp add: t')
  show "stored content t' k = (if shard_of (key_time k) = i then None else stored content t k)"
    by (simp add: stored_def t' c)
qed

lemma oldest_in:
  assumes "OldestShardID t = Inr i"
  shows "i \<in> set (ad_shards t) \<and> (\<forall>j \<in> set (ad_shards t). i \<le> j)"
proof (cases "sort (ad_shards t)")
  case Nil
  then show ?thesis using assms by (simp add: OldestShardID_def ad_ShardIDs_def)
next
  case (Cons x xs)
  then have "i = x" using assms by (simp add: OldestShardID_def ad_ShardIDs_def Let_def nth_append)
  moreover have "set (ad_shards t) = set (x # xs)" "sorted (x # xs)"
    using Cons by (metis set_sort, metis sorted_sort)
  ultimately show ?thesis by simp
qed

lemma delete_oldest_ok:
  assumes db: "stores_points db content" and del: "\<forall>i s. \<exists>s'. DeleteShard db i s = (Inr (), s')"
    and inv: "adapter_inv content t" and d: "DeleteOldest db t = (r, t')"
  shows "adapter_inv content t'"
proof (cases "OldestShardID t")
  case (Inr i)
  obtain s1 where s1: "DeleteShard db i (ad_influx t) = (Inr (), s1)" using del by blast
  define t1 where "t1 = t\<lparr>ad_shards := removeAll i (ad_shards t), ad_influx := s1\<rparr>"
  have "ad_Delete db i t = (Inr (), t1)" using s1 by (simp add: ad_Delete_def t1_def)
  note t1 = delete_ok(1) [OF db inv this] this
  obtain s2 where s2: "DeleteShard db i (ad_influx t1) = (Inr (), s2)" using del by blast
  have "t' = t1\<lparr>ad_influx := s2\<rparr>"
    using d Inr t1(2) s2 by (simp add: DeleteOldest_def)
  moreover have "content s2 = content (ad_influx t1)"
    using stores_pointsD(4) [OF db s1] stores_pointsD(4) [OF db s2] by (simp add: t1_def)
  ultimately show ?thesis using t1(1) by (simp add: adapter_inv_def)
qed (use assms in \<open>simp add: DeleteOldest_def\<close>)

lemma delete_until_ok:
  assumes "stores_points db content" "adapter_inv content t"
    and "delete_until db c ids n t = ((d, None), t')"
  shows "adapter_inv content t' \<and> d = n + length (takeWhile (\<lambda>i. i64 i \<le> c) ids)
    \<and> ad_shards t' = filter (\<lambda>i. i \<notin> set (takeWhile (\<lambda>i. i64 i \<le> c) ids)) (ad_shards t)
    \<and> (\<forall>k. stored content t' k =
        (if shard_of (key_time k) \<in> set (takeWhile (\<lambda>i. i64 i \<le> c) ids) then None else stored content t k))"
  using assms(2,3)
proof (induction ids arbitrary: n t)
  case (Cons i ids)
  show ?case
  proof (cases "i64 i \<le> c")
    case True
    then obtain t1 where t1: "ad_Delete db i t = (Inr (), t1)"
      "delete_until db c ids (Suc n) t1 = ((d, None), t')"
      using Cons.prems(2) by (cases "ad_Delete db i t") (auto split: sum.splits)
    note d = delete_ok [OF assms(1) Cons.prems(1) t1(1)]
    show ?thesis
      using Cons.IH [OF d(1) t1(2)] d(2,3) True by (auto simp: removeAll_filter_not_eq intro: filter_cong)
  next
    case False
    then show ?thesis using Cons.prems by auto
  qed
qed auto

lemma delete_until_fails:
  assumes "delete_until db c ids n t = ((d, Some e), t')"
  shows "\<exists>pre i post. ids = pre @ i # post \<and> (\<forall>j \<in> set (pre @ [i]). i64 j \<le> c) \<and> d = n + length pre
    \<and> ad_shards t' = filter (\<lambda>j. j \<notin> set (pre @ [i])) (ad_shards t)"
  using assms
proof (induction ids arbitrary: n t)
  case (Cons i ids)
  then have le: "i64 i \<le> c" by (auto split: if_splits)
  obtain r t1 where t1: "ad_Delete db i t = (r, t1)" by (cases "ad_Delete db i t")
  then have sh: "ad_shards t1 = removeAll i (ad_shards t)"
    by (auto simp: ad_Delete_def Let_def split: prod.splits)
  show ?case
  proof (cases r)
    case (Inl e')
    then have "d = n" "ad_shards t' = filter (\<lambda>j. j \<notin> set ([] @ [i])) (ad_shards t)"
      using Cons.prems le t1 sh by (auto simp: removeAll_filter_not_eq intro: filter_cong)
    then show ?thesis using le by (intro exI [where x = "[]"]) auto
  next
    case (Inr u)
    then have "delete_until db c ids (Suc n) t1 = ((d, Some e), t')"
      using Cons.prems le t1 by simp
    from Cons.IH [OF this] obtain pre j post where
      "ids = pre @ j # post" "\<forall>l \<in> set (pre @ [j]). i64 l \<le> c" "d = Suc n + length pre"
      "ad_shards t' = filter (\<lambda>l. l \<notin> set (pre @ [j])) (ad_shards t1)" by blast
    then show ?thesis
      using le sh by (intro exI [where x = "i # pre"] exI [where x = j] exI [where x = post])
        (auto simp: removeAll_filter_not_eq intro: filter_cong)
  qed
qed simp

section \<open>Reading\<close>

text \<open>
  What the iterators of a shard yield: for every label set at most one iterator, in time
  order, and together exactly the float values of the matching points of the shard. \<open>lab\<close> is
  the label set of a stored point and \<open>sat\<close> the meaning of a condition.
\<close>

definition matches ::
    "(pkey \<Rightarrow> fieldmap \<Rightarrow> labels) \<Rightarrow> ('r iexpr option \<Rightarrow> pkey \<Rightarrow> fieldmap \<Rightarrow> bool) \<Rightarrow> (pkey \<rightharpoonup> fieldmap) \<Rightarrow>
     string \<Rightarrow> 'r iexpr option \<Rightarrow> int \<Rightarrow> int \<Rightarrow> (labels \<times> int \<times> float64) set" where
  "matches lab sat m name cond start end =
     {(lab k f, key_time k, v) | k f v. m k = Some f \<and> fst k = name \<and> sat cond k f
        \<and> start \<le> key_time k \<and> key_time k \<le> end \<and> f ''value'' = Some (FloatField v)}"

definition result_points :: "shard_result list \<Rightarrow> (labels \<times> int \<times> float64) set" where
  "result_points rs = (\<Union>r \<in> set rs. (\<lambda>p. (fst r, fp_Time p, fp_Value p)) ` set (snd r))"

definition iterator_result :: "labeledIterator \<Rightarrow> shard_result" where
  "iterator_result it = (fst it, fst (snd it))"

definition iterators_ok :: "labeledIterator list \<Rightarrow> (labels \<times> int \<times> float64) set \<Rightarrow> bool" where
  "iterators_ok its ms \<longleftrightarrow>
     distinct (map fst its) \<and> (\<forall>it \<in> set its. sorted (map fp_Time (fst (snd it)))) \<and>
     ((\<forall>it \<in> set its. snd (snd it) = None) \<longrightarrow> result_points (map iterator_result its) = ms)"

definition reads_points ::
    "('s, 'r) influxStore \<Rightarrow> ('s \<Rightarrow> contents) \<Rightarrow> (pkey \<Rightarrow> fieldmap \<Rightarrow> labels) \<Rightarrow>
     ('r iexpr option \<Rightarrow> pkey \<Rightarrow> fieldmap \<Rightarrow> bool) \<Rightarrow> bool" where
  "reads_points db content lab sat \<longleftrightarrow>
     (\<forall>ids s. distinct ids \<longrightarrow> distinct (store_Shards db ids s) \<and> set (store_Shards db ids s) \<subseteq> set ids
        \<and> (\<forall>i \<in> set ids. content s i \<noteq> Map.empty \<longrightarrow> i \<in> set (store_Shards db ids s))) \<and>
     (\<forall>i name opts s its. CreateIterators db i name opts s = Inr its \<longrightarrow>
        iterators_ok its (matches lab sat (content s i) name (io_Condition opts) (io_StartTime opts) (io_EndTime opts)))"

definition samples_of :: "concreteSeriesSet \<Rightarrow> (labels \<times> int \<times> float64) set" where
  "samples_of ss =
     (\<Union>s \<in> set (css_series ss). (\<lambda>x. (cs_labels s, TimeInMilliseconds x, sm_Value x)) ` set (cs_samples s))"

abbreviation to_ms :: "labels \<times> int \<times> float64 \<Rightarrow> labels \<times> int \<times> float64" where
  "to_ms x \<equiv> (fst x, NanosecondsToMilliseconds (fst (snd x)), snd (snd x))"

lemma samples_of_build:
  assumes "inj_on hash (fst ` set adds)"
  shows "samples_of (SeriesSet (build hash adds)) = to_ms ` result_points adds" (is "?L = ?R")
proof -
  have join: "set (join_shards (shards_of adds ls)) =
      to_sample ` (\<Union>a \<in> {a \<in> set adds. fst a = ls}. set (snd a))" for ls
  proof -
    have "set (join_shards (shards_of adds ls)) = \<Union> (set ` set (shards_of adds ls))"
      using join_shards_mset [of "shards_of adds ls"] by (metis set_concat set_mset_mset)
    then show ?thesis by (auto simp: shards_of_def)
  qed
  have "shards_of adds ls \<noteq> [] \<longleftrightarrow> set (join_shards (shards_of adds ls)) \<noteq> {}" for ls
    unfolding join by (auto simp: shards_of_def filter_empty_conv)
  then have "?L = (\<Union>ls. (\<lambda>x. (ls, TimeInMilliseconds x, sm_Value x)) ` set (join_shards (shards_of adds ls)))"
    unfolding samples_of_def series_of_build [OF assms] setcompr_eq_image
    by auto (metis (no_types, lifting) empty_iff image_eqI list.set(1))
  also have "\<dots> = ?R"
    unfolding join result_points_def by (auto simp: to_sample_def image_iff) (metis fst_conv snd_conv)+
  finally show ?thesis .
qed

text \<open>When no event is an error, a shard's events are the results of its iterators.\<close>

lemma iterator_events_ok:
  "\<forall>e \<in> set (iterator_events its). \<not> isl e \<Longrightarrow>
   (\<forall>it \<in> set its. snd (snd it) = None) \<and> iterator_events its = map (Inr \<circ> iterator_result) its"
  by (induction its rule: iterator_events.induct) (auto simp: iterator_result_def)

lemma shard_events_ok:
  assumes "\<forall>e \<in> set (shard_events r). \<not> isl e"
  obtains its where "r = Inr its" "\<forall>it \<in> set its. snd (snd it) = None"
    "map projr (shard_events r) = map iterator_result its"
proof (cases r)
  case (Inr its)
  then show ?thesis using that assms iterator_events_ok [of its] by (simp add: shard_events_def comp_def)
qed (use assms in \<open>simp add: shard_events_def\<close>)

lemma shard_results:
  assumes rd: "reads_points db content lab sat"
    and ok: "\<forall>e \<in> set (shard_events (CreateIterators db i name opts s)). \<not> isl e"
  defines "rs \<equiv> map projr (shard_events (CreateIterators db i name opts s))"
  shows "result_points rs = matches lab sat (content s i) name (io_Condition opts) (io_StartTime opts) (io_EndTime opts)"
    and "distinct (map fst rs)" and "\<forall>r \<in> set rs. sorted (map fp_Time (snd r))"
proof -
  obtain its where its: "CreateIterators db i name opts s = Inr its" "\<forall>it \<in> set its. snd (snd it) = None"
    "rs = map iterator_result its"
    using shard_events_ok [OF ok] unfolding rs_def by metis
  then have "iterators_ok its (matches lab sat (content s i) name (io_Condition opts) (io_StartTime opts) (io_EndTime opts))"
    using rd unfolding reads_points_def by blast
  then show "result_points rs = matches lab sat (content s i) name (io_Condition opts) (io_StartTime opts) (io_EndTime opts)"
    and "distinct (map fst rs)" and "\<forall>r \<in> set rs. sorted (map fp_Time (snd r))"
    using its(2,3) by (auto simp: iterators_ok_def iterator_result_def comp_def)
qed

text \<open>The shards a range selects hold every point of the range.\<close>

lemma range_complete:
  assumes inv: "adapter_inv content t" and f: "stored content t k = Some f"
    and r: "start \<le> key_time k" "key_time k \<le> end" "end < 2 ^ 63 - day" "end mod day \<noteq> 0"
  shows "shard_of (key_time k) \<in> set (forTimestampRange start end t)"
proof -
  have k: "shard_of (key_time k) \<in> set (ad_shards t)" "ts_ok (key_time k)"
    using adapter_invD(3) [OF inv f [unfolded stored_def]] by blast+
  let ?d = "truncate_day (key_time k)"
  have "?d \<noteq> end" using r(4) truncate_day_mod by metis
  then have "?d < end" using truncate_day_bounds(1) [of "key_time k"] r(2) by simp
  moreover have "getShardEndForTimestamp ?d = ?d + day"
    using truncate_day_bounds(1) [of "key_time k"] r k(2)
    by (simp add: getShardEndForTimestamp_def i64_id ts_ok_def day_def)
  ultimately show ?thesis
    using k r(1) truncate_day_bounds(2) [of "key_time k"] by (simp add: forTimestampRange_def)
qed

lemma matches_shards:
  fixes start :: int
  assumes rd: "reads_points db content lab sat" and inv: "adapter_inv content t"
    and r: "end < 2 ^ 63 - day" "end mod day \<noteq> 0"
  defines "ids \<equiv> store_Shards db (forTimestampRange start end t) (ad_influx t)"
  shows "(\<Union>i \<in> set ids. matches lab sat (content (ad_influx t) i) name cond start end)
    = matches lab sat (stored content t) name cond start end" (is "?L = ?R")
proof
  show "?L \<subseteq> ?R"
  proof
    fix x assume "x \<in> ?L"
    then obtain i k f v where "x = (lab k f, key_time k, v)" "content (ad_influx t) i k = Some f"
      "fst k = name \<and> sat cond k f \<and> start \<le> key_time k \<and> key_time k \<le> end \<and> f ''value'' = Some (FloatField v)"
      by (auto simp: matches_def)
    moreover have "stored content t k = Some f" using adapter_invD(3) [OF inv] calculation(2) by blast
    ultimately show "x \<in> ?R" unfolding matches_def by blast
  qed
  show "?R \<subseteq> ?L"
  proof
    fix x assume "x \<in> ?R"
    then obtain k f v where k: "x = (lab k f, key_time k, v)" "stored content t k = Some f" "fst k = name"
      "sat cond k f" "start \<le> key_time k" "key_time k \<le> end" "f ''value'' = Some (FloatField v)"
      by (auto simp: matches_def)
    have i: "shard_of (key_time k) \<in> set (forTimestampRange start end t)"
      by (rule range_complete [OF inv k(2,5,6) r])
    have "distinct (forTimestampRange start end t)"
      using adapter_invD(1) [OF inv] by (simp add: forTimestampRange_def)
    moreover have c: "content (ad_influx t) (shard_of (key_time k)) k = Some f"
      using k(2) by (simp add: stored_def)
    then have "content (ad_influx t) (shard_of (key_time k)) \<noteq> Map.empty" by auto
    ultimately have "shard_of (key_time k) \<in> set ids"
      using rd i unfolding reads_points_def ids_def by blast
    then show "x \<in> ?L" using k c by (auto simp: matches_def)
  qed
qed

lemma build_nonempty: "build hash adds = build hash (filter (\<lambda>a. snd a \<noteq> []) adds)"
  unfolding build_def
  by (induction adds rule: rev_induct) (auto simp: AddSeriesPoints_def)

lemma result_points_nonempty: "result_points (filter (\<lambda>a. snd a \<noteq> []) adds) = result_points adds"
  by (auto simp: result_points_def)

lemma result_labels: "fst ` set (filter (\<lambda>a. snd a \<noteq> []) adds) = fst ` result_points adds"
  by (auto simp: result_points_def image_UN image_image image_constant_conv split: if_splits)

lemma GetPoints_results:
  assumes rd: "reads_points db content lab sat" and sched: "\<forall>es. mset (sched es) = mset es"
    and g: "GetPoints db rx hash sched name start end mts t = Inr b"
    and cond: "ToInfluxFilters rx mts = Inr cond"
  shows "\<exists>adds rs. b = build hash adds
    \<and> mset adds = mset (concat (map rs (store_Shards db (forTimestampRange start end t) (ad_influx t))))
    \<and> (\<forall>i \<in> set (store_Shards db (forTimestampRange start end t) (ad_influx t)).
         result_points (rs i) = matches lab sat (content (ad_influx t) i) name cond start end
         \<and> distinct (map fst (rs i)) \<and> (\<forall>r \<in> set (rs i). sorted (map fp_Time (snd r))))"
proof -
  let ?ids = "store_Shards db (forTimestampRange start end t) (ad_influx t)"
  obtain fields dims where "FieldDimensions db (forTimestampRange start end t) name (ad_influx t) = Inr (fields, dims)"
    using g by (auto simp: GetPoints_def Let_def split: sum.splits)
  moreover define opts where "opts = \<lparr>io_Aux = fields, io_Dimensions = dims, io_Condition = cond,
    io_StartTime = start, io_EndTime = end\<rparr>"
  moreover define ev where "ev = (\<lambda>i. shard_events (CreateIterators db i name opts (ad_influx t)))"
  ultimately have "find isl (sched (concat (map ev ?ids))) = None"
      and b: "b = build hash (map projr (sched (concat (map ev ?ids))))"
    using g cond by (auto simp: GetPoints_def Let_def split: option.splits)
  then have "\<forall>e \<in> set (concat (map ev ?ids)). \<not> isl e"
    unfolding find_None_iff using sched by (metis mset_eq_setD)
  then have ok: "\<And>i e. i \<in> set ?ids \<Longrightarrow> e \<in> set (ev i) \<Longrightarrow> \<not> isl e" by simp
  have res: "result_points (map projr (ev i)) = matches lab sat (content (ad_influx t) i) name cond start end
      \<and> distinct (map fst (map projr (ev i))) \<and> (\<forall>r \<in> set (map projr (ev i)). sorted (map fp_Time (snd r)))"
    if "i \<in> set ?ids" for i
    using shard_results [OF rd ballI [OF ok [OF that, unfolded ev_def]]]
    unfolding ev_def by (simp add: opts_def)
  have "mset (map projr (sched (concat (map ev ?ids)))) = mset (map projr (concat (map ev ?ids)))"
    using sched by (metis mset_map)
  also have "map projr (concat (map ev ?ids)) = concat (map (\<lambda>i. map projr (ev i)) ?ids)"
    by (simp add: map_concat comp_def)
  finally show ?thesis
    using b res
    by (intro exI [where x = "map projr (sched (concat (map ev ?ids)))"] exI [where x = "\<lambda>i. map projr (ev i)"])
      blast
qed

text \<open>The samples of different shards do not overlap, also not in milliseconds.\<close>

lemma ms_div:
  assumes "0 \<le> a" "a < 2 ^ 63"
  shows "NanosecondsToMilliseconds a = a div 1000000"
  using assms by (simp add: ns_ms_exact sdiv_nonneg)

lemma ms_apart:
  assumes "0 \<le> a" "b < 2 ^ 63" "truncate_day a < truncate_day b"
  shows "NanosecondsToMilliseconds a < NanosecondsToMilliseconds b"
proof -
  have "truncate_day a + day \<le> truncate_day b"
    using assms(3) truncate_day_mod [of a] truncate_day_mod [of b]
    by (auto simp: day_def dest!: mod_0_imp_dvd elim!: dvdE)
  then have "a < truncate_day b" "truncate_day b \<le> b"
    using truncate_day_bounds [of a] truncate_day_bounds [of b] by auto
  moreover obtain q where "truncate_day b = 1000000 * q"
    using that [of "86400000 * (truncate_day b div day)"] truncate_day_mod [of b]
    by (auto simp: day_def dest!: mod_0_imp_dvd elim!: dvdE)
  ultimately have "a div 1000000 < b div 1000000"
    using zdiv_mono1 [of "1000000 * q" b 1000000] div_mult_mod_eq [of a 1000000]
      pos_mod_sign [of 1000000 a] by simp
  then show ?thesis using assms \<open>a < truncate_day b\<close> \<open>truncate_day b \<le> b\<close> by (simp add: ms_div)
qed

lemma distinct_concat_map:
  assumes "distinct is" "\<And>i. i \<in> set is \<Longrightarrow> distinct (g i)"
    and "\<And>i j. i \<in> set is \<Longrightarrow> j \<in> set is \<Longrightarrow> i \<noteq> j \<Longrightarrow> set (g i) \<inter> set (g j) = {}"
  shows "distinct (concat (map g is))"
  using assms
proof (induction "is")
  case (Cons i js)
  have "distinct (concat (map g js))"
    using Cons.prems by (intro Cons.IH) auto
  moreover have "set (g i) \<inter> (\<Union>j \<in> set js. set (g j)) = {}"
    using Cons.prems(1) Cons.prems(3) [of i] by (fastforce simp: disjoint_iff)
  ultimately show ?case using Cons.prems(2) [of i] by simp
qed simp

lemma shards_of_concat: "shards_of (concat rss) ls = concat (map (\<lambda>rs. shards_of rs ls) rss)"
  by (induction rss) (simp_all add: shards_of_def)

lemma shards_of_single:
  assumes "distinct (map fst rs)"
  shows "shards_of rs ls = [] \<or> (\<exists>a. shards_of rs ls = [a])"
proof -
  have "length (filter (\<lambda>r. fst r = ls \<and> snd r \<noteq> []) rs) \<le> 1"
    using assms by (induction rs) (force simp: filter_empty_conv)+
  then have "length (shards_of rs ls) \<le> 1" by (simp add: shards_of_def)
  then show ?thesis by (cases "shards_of rs ls") auto
qed

lemma shards_apart_perm: "mset xs = mset ys \<Longrightarrow> shards_apart xs = shards_apart ys"
  using mset_eq_imp_distinct_iff [of xs ys] mset_eq_setD [of xs ys] by (simp add: shards_apart_def)

text \<open>The points of shard \<open>i\<close> lie in its day.\<close>

definition day_results :: "(int \<Rightarrow> shard_result list) \<Rightarrow> int \<Rightarrow> bool" where
  "day_results rs i \<longleftrightarrow> distinct (map fst (rs i)) \<and>
     (\<forall>r \<in> set (rs i). sorted (map fp_Time (snd r)) \<and>
        (\<forall>p \<in> set (snd r). 0 \<le> fp_Time p \<and> fp_Time p < 2 ^ 63 \<and> truncate_day (fp_Time p) = i64 i))"

lemma day_results_times:
  assumes "day_results rs i" "s \<in> set (shards_of (rs i) ls)"
  shows "s \<noteq> []" "sorted (times s)"
    "\<forall>x \<in> set (times s). \<exists>p. x = NanosecondsToMilliseconds p \<and> 0 \<le> p \<and> p < 2 ^ 63 \<and> truncate_day p = i64 i"
proof -
  obtain r where r: "r \<in> set (rs i)" "snd r \<noteq> []" "s = map to_sample (snd r)"
    using assms(2) by (auto simp: shards_of_def)
  have p: "\<And>p. p \<in> set (snd r) \<Longrightarrow> 0 \<le> fp_Time p \<and> fp_Time p < 2 ^ 63 \<and> truncate_day (fp_Time p) = i64 i"
    and so: "sorted (map fp_Time (snd r))"
    using assms(1) r(1) unfolding day_results_def by blast+
  show "s \<noteq> []" using r by simp
  have "times s = map (\<lambda>p. fp_Time p div 1000000) (snd r)"
    using p by (auto simp: r(3) times_def to_sample_def ms_div)
  moreover have "sorted (map (\<lambda>p. fp_Time p div 1000000) (snd r))"
    using so unfolding sorted_map by (rule sorted_wrt_mono_rel [rotated]) (simp add: zdiv_mono1)
  ultimately show "sorted (times s)" by simp
  show "\<forall>x \<in> set (times s). \<exists>p. x = NanosecondsToMilliseconds p \<and> 0 \<le> p \<and> p < 2 ^ 63 \<and> truncate_day p = i64 i"
    using p by (auto simp: r(3) times_def to_sample_def)
qed

lemma day_results_before:
  assumes "day_results rs i" "day_results rs j" "i64 i < i64 j"
    and "a \<in> set (shards_of (rs i) ls)" "b \<in> set (shards_of (rs j) ls)"
  shows "\<forall>x \<in> set (times a). \<forall>y \<in> set (times b). x < y"
  using day_results_times(3) [OF assms(1,4)] day_results_times(3) [OF assms(2,5)] assms(3) ms_apart
  by metis

lemma shards_apart_days:
  assumes "distinct is" "inj_on i64 (set is)" "\<And>i. i \<in> set is \<Longrightarrow> day_results rs i"
  shows "shards_apart (shards_of (concat (map rs is)) ls)"
proof -
  let ?g = "\<lambda>i. shards_of (rs i) ls"
  have ss: "shards_of (concat (map rs is)) ls = concat (map ?g is)"
    by (simp add: shards_of_concat comp_def)
  have apart: "(\<forall>x \<in> set (times a). \<forall>y \<in> set (times b). x < y) \<or> (\<forall>x \<in> set (times a). \<forall>y \<in> set (times b). y < x)"
    if "i \<in> set is" "j \<in> set is" "i \<noteq> j" "a \<in> set (?g i)" "b \<in> set (?g j)" for i j a b
  proof -
    have "i64 i < i64 j \<or> i64 j < i64 i" using inj_onD [OF assms(2)] that(1-3) by (metis linorder_neqE)
    then show ?thesis using day_results_before assms(3) that by metis
  qed
  have "distinct (concat (map ?g is))"
  proof (rule distinct_concat_map [OF assms(1)])
    fix i assume i: "i \<in> set is"
    then have "distinct (map fst (rs i))" using assms(3) by (simp add: day_results_def)
    then show "distinct (?g i)" using shards_of_single [of "rs i" ls] by auto
  next
    fix i j assume ij: "i \<in> set is" "j \<in> set is" "i \<noteq> j"
    show "set (?g i) \<inter> set (?g j) = {}"
    proof (rule ccontr)
      assume "set (?g i) \<inter> set (?g j) \<noteq> {}"
      then obtain a where a: "a \<in> set (?g i)" "a \<in> set (?g j)" by blast
      then have "a \<noteq> []" using day_results_times(1) assms(3) ij(1) by blast
      then obtain x where "x \<in> set (times a)" by (cases a) (auto simp: times_def)
      then show False using apart [OF ij a] by blast
    qed
  qed
  moreover have "s \<noteq> [] \<and> sorted (times s)" if s: "s \<in> set (concat (map ?g is))" for s
  proof -
    obtain i where "i \<in> set is" "s \<in> set (?g i)" using s by auto
    then show ?thesis using day_results_times(1,2) assms(3) by blast
  qed
  moreover have "a = b \<or> (\<forall>x \<in> set (times a). \<forall>y \<in> set (times b). x < y) \<or> (\<forall>x \<in> set (times a). \<forall>y \<in> set (times b). y < x)"
    if ab: "a \<in> set (concat (map ?g is))" "b \<in> set (concat (map ?g is))" for a b
  proof -
    obtain i j where ij: "i \<in> set is" "a \<in> set (?g i)" "j \<in> set is" "b \<in> set (?g j)" using ab by auto
    show ?thesis
    proof (cases "i = j")
      case True
      then have "a = b"
        using shards_of_single [of "rs i" ls] assms(3) [OF ij(1)] ij by (auto simp: day_results_def)
      then show ?thesis ..
    qed (use apart ij in blast)
  qed
  ultimately show ?thesis unfolding ss shards_apart_def by blast
qed

lemma results_in_day:
  assumes inv: "adapter_inv content t" and r: "0 \<le> start" "end < 2 ^ 63 - day"
    and rs: "result_points (rs i) = matches lab sat (content (ad_influx t) i) name cond start end"
    and so: "distinct (map fst (rs i)) \<and> (\<forall>r \<in> set (rs i). sorted (map fp_Time (snd r)))"
  shows "day_results rs i"
proof -
  have "0 \<le> fp_Time p \<and> fp_Time p < 2 ^ 63 \<and> truncate_day (fp_Time p) = i64 i"
    if "x \<in> set (rs i)" "p \<in> set (snd x)" for x p
  proof -
    have "(fst x, fp_Time p, fp_Value p) \<in> result_points (rs i)"
      using that unfolding result_points_def by blast
    then obtain k f where k: "content (ad_influx t) i k = Some f" "key_time k = fp_Time p"
      "start \<le> fp_Time p" "fp_Time p \<le> end" unfolding rs by (auto simp: matches_def)
    have "ts_ok (fp_Time p)" "i = shard_of (fp_Time p)"
      using adapter_invD(3) [OF inv k(1)] unfolding k(2) by blast+
    then show ?thesis using r k(3,4) by (simp add: shard_of_start(2) day_def)
  qed
  then show ?thesis using so by (simp add: day_results_def)
qed

lemma shard_ids_inj:
  assumes "adapter_inv content t"
  shows "inj_on i64 (set (ad_shards t))"
proof (rule inj_onI)
  fix i j assume "i \<in> set (ad_shards t)" "j \<in> set (ad_shards t)" "i64 i = i64 j"
  then obtain a b where "ts_ok a" "i = shard_of a" "ts_ok b" "j = shard_of b"
    using adapter_invD(2) [OF assms] by blast
  then show "i = j" using \<open>i64 i = i64 j\<close> by (simp add: shard_of_eq_iff)
qed

text \<open>
  A successful read returns exactly the stored points of the range that match, grouped by
  label set, each series in time order.
\<close>

lemma get_points_ok:
  assumes rd: "reads_points db content lab sat" and inv: "adapter_inv content t"
    and r: "0 \<le> start" "end < 2 ^ 63 - day" "end mod day \<noteq> 0"
    and sched: "\<forall>es. mset (sched es) = mset es"
    and g: "GetPoints db rx hash sched name start end mts t = Inr b"
    and cond: "ToInfluxFilters rx mts = Inr cond"
    and inj: "inj_on hash (fst ` matches lab sat (stored content t) name cond start end)"
  shows "samples_of (SeriesSet b) = to_ms ` matches lab sat (stored content t) name cond start end"
    and "distinct (map cs_labels (css_series (SeriesSet b)))"
    and "s \<in> set (css_series (SeriesSet b)) \<Longrightarrow> sorted (times (cs_samples s))"
proof -
  let ?range = "forTimestampRange start end t"
  let ?ids = "store_Shards db ?range (ad_influx t)"
  let ?ms = "\<lambda>i. matches lab sat (content (ad_influx t) i) name cond start end"
  obtain adds rs where b: "b = build hash adds" and adds: "mset adds = mset (concat (map rs ?ids))"
    and rs: "\<And>i. i \<in> set ?ids \<Longrightarrow> result_points (rs i) = ?ms i"
      "\<And>i. i \<in> set ?ids \<Longrightarrow> distinct (map fst (rs i)) \<and> (\<forall>r \<in> set (rs i). sorted (map fp_Time (snd r)))"
    using GetPoints_results [OF rd sched g cond] by blast
  have "distinct ?range" using adapter_invD(1) [OF inv] by (simp add: forTimestampRange_def)
  then have "distinct ?ids \<and> set ?ids \<subseteq> set ?range" using rd unfolding reads_points_def by blast
  then have ids: "distinct ?ids" "set ?ids \<subseteq> set (ad_shards t)" by (auto simp: forTimestampRange_def)
  have "result_points adds = (\<Union>i \<in> set ?ids. result_points (rs i))"
    using mset_eq_setD [OF adds] by (simp add: result_points_def)
  then have rp: "result_points adds = matches lab sat (stored content t) name cond start end"
    using matches_shards [OF rd inv r(2,3)] rs(1) by simp
  let ?adds = "filter (\<lambda>a. snd a \<noteq> []) adds"
  have inj': "inj_on hash (fst ` set ?adds)" using inj by (simp only: result_labels rp)
  show "samples_of (SeriesSet b) = to_ms ` matches lab sat (stored content t) name cond start end"
    unfolding b build_nonempty [of hash adds] samples_of_build [OF inj'] result_points_nonempty rp ..
  show "distinct (map cs_labels (css_series (SeriesSet b)))"
    unfolding b build_nonempty [of hash adds] by (rule series_labels_distinct [OF inj'])
  have "day_results rs i" if "i \<in> set ?ids" for i
    by (rule results_in_day [where rs = rs and i = i, OF inv r(1,2) rs(1) [OF that] rs(2) [OF that]])
  moreover have "inj_on i64 (set ?ids)"
    using inj_on_subset [OF shard_ids_inj [OF inv] ids(2)] .
  ultimately have "shards_apart (shards_of (concat (map rs ?ids)) ls)" for ls
    using shards_apart_days [OF ids(1)] by blast
  moreover have "mset (shards_of ?adds ls) = mset (shards_of (concat (map rs ?ids)) ls)" for ls
  proof -
    have "shards_of ?adds ls = shards_of adds ls" by (simp add: shards_of_def conj_commute conj_left_commute)
    then show ?thesis using adds by (simp add: shards_of_def)
  qed
  ultimately have "sorted (times (join_shards (shards_of ?adds ls)))" for ls
    using shards_apart_perm join_shards_sorted by blast
  then show "sorted (times (cs_samples s))" if "s \<in> set (css_series (SeriesSet b))"
    using that unfolding b build_nonempty [of hash adds] series_of_build [OF inj'] by auto
qed

end
