(* ===== verification/Mem_Store.thy ===== *)
theory Mem_Store
  imports Shards
begin

text \<open>
  A database in memory that behaves as the adapter relies on: an association list from a
  shard and a key to fields. It shows that the assumptions \<open>stores_points\<close> and \<open>reads_points\<close>
  can hold, and it is what the concrete runs of the development use.
\<close>

type_synonym mem = "((int \<times> pkey) \<times> field_value gomap) list"

definition mem_content :: "mem \<Rightarrow> contents" where
  "mem_content s i k = map_option map_of (map_of s (i, k))"

definition mem_put :: "int \<Rightarrow> mem \<Rightarrow> influx_point \<Rightarrow> mem" where
  "mem_put i s p =
     AList.update (i, point_key p)
       (ip_fields p @ (case map_of s (i, point_key p) of None \<Rightarrow> [] | Some f \<Rightarrow> f)) s"

definition mem_lab :: "pkey \<Rightarrow> fieldmap \<Rightarrow> labels" where
  "mem_lab k f = (MetricName, fst k) # fst (snd k)"

text \<open>Conditions on tags; a regular expression stands for itself.\<close>

fun mem_eval :: "string iexpr \<Rightarrow> pkey \<Rightarrow> bool" where
  "mem_eval (BinaryExpr TAND a b) k = (mem_eval a k \<and> mem_eval b k)"
| "mem_eval (BinaryExpr TEQ (VarRef n) (StringLiteral v)) k =
     ((case map_of (fst (snd k)) n of None \<Rightarrow> [] | Some w \<Rightarrow> w) = v)"
| "mem_eval (BinaryExpr TNEQ (VarRef n) (StringLiteral v)) k =
     ((case map_of (fst (snd k)) n of None \<Rightarrow> [] | Some w \<Rightarrow> w) \<noteq> v)"
| "mem_eval _ k = False"

definition mem_sat :: "string iexpr option \<Rightarrow> pkey \<Rightarrow> fieldmap \<Rightarrow> bool" where
  "mem_sat c k f = (case c of None \<Rightarrow> True | Some e \<Rightarrow> mem_eval e k)"

definition mem_hits ::
    "int \<Rightarrow> string \<Rightarrow> string iteratorOptions \<Rightarrow> mem \<Rightarrow> (labels \<times> floatPoint) list" where
  "mem_hits i name opts s =
     List.map_filter
       (\<lambda>((j, k), f).
          if j = i \<and> map_of s (j, k) = Some f \<and> fst k = name \<and> mem_sat (io_Condition opts) k (map_of f)
             \<and> io_StartTime opts \<le> key_time k \<and> key_time k \<le> io_EndTime opts
          then (case map_of f ''value'' of
                  Some (FloatField v) \<Rightarrow> Some (mem_lab k (map_of f), \<lparr>fp_Time = key_time k, fp_Value = v\<rparr>)
                | _ \<Rightarrow> None)
          else None) s"

definition mem_iterators ::
    "int \<Rightarrow> string \<Rightarrow> string iteratorOptions \<Rightarrow> mem \<Rightarrow> string + labeledIterator list" where
  "mem_iterators i name opts s =
     (let hits = mem_hits i name opts s
      in Inr (map (\<lambda>l. (l, sort_key fp_Time (map snd (filter (\<lambda>h. fst h = l) hits)), None))
           (remdups (map fst hits))))"

definition mem_db :: "(mem, string) influxStore" where
  "mem_db =
     \<lparr>CreateShard = (\<lambda>i s. (Inr (), s)),
      DeleteShard = (\<lambda>i s. (Inr (), filter (\<lambda>e. fst (fst e) \<noteq> i) s)),
      WriteToShard = (\<lambda>i ps s. (Inr (), foldl (mem_put i) s ps)),
      store_ShardIDs = (\<lambda>s. remdups (map (\<lambda>e. fst (fst e)) s)),
      store_Shards = (\<lambda>ids s. ids),
      FieldDimensions = (\<lambda>ids name s. Inr ([''value''], [])),
      CreateIterators = mem_iterators,
      TagKeys = (\<lambda>ids s. map (\<lambda>e. map fst (fst (snd (snd (fst e))))) s),
      TagValues = (\<lambda>ids key s. map (\<lambda>e. map snd (filter (\<lambda>kv. fst kv = key) (fst (snd (snd (fst e)))))) s),
      Measurements = (\<lambda>ids s. remdups (map (\<lambda>e. fst (snd (fst e))) s))\<rparr>"

lemma mem_content_put:
  "mem_content (mem_put i s p) = (mem_content s)(i := put_point (mem_content s i) p)"
  by (rule ext, rule ext)
    (auto simp: mem_content_def mem_put_def put_point_def merge_fields_def update_conv' split: option.splits)

lemma mem_content_write:
  "mem_content (foldl (mem_put i) s ps) = (mem_content s)(i := foldl put_point (mem_content s i) ps)"
  by (induction ps arbitrary: s) (simp_all add: mem_content_put)

lemma mem_content_delete:
  "mem_content (filter (\<lambda>e. fst (fst e) \<noteq> i) s) = (mem_content s)(i := Map.empty)"
proof -
  have "map_of (filter (\<lambda>e. fst (fst e) \<noteq> i) s) (j, k) = (if j = i then None else map_of s (j, k))" for j k
    by (induction s) auto
  then show ?thesis by (auto simp: mem_content_def fun_eq_iff)
qed

lemma mem_stores: "stores_points mem_db mem_content"
  by (simp add: stores_points_def mem_db_def mem_content_write mem_content_delete)

lemma mem_deletes: "\<exists>s'. DeleteShard mem_db i s = (Inr (), s')"
  by (simp add: mem_db_def)

lemma mem_hits_match:
  "(\<lambda>h. (fst h, fp_Time (snd h), fp_Value (snd h))) ` set (mem_hits i name opts s) =
     matches mem_lab mem_sat (mem_content s i) name (io_Condition opts) (io_StartTime opts) (io_EndTime opts)"
  (is "?L = ?R")
proof
  show "?L \<subseteq> ?R"
    by (auto simp: mem_hits_def matches_def mem_content_def map_filter_def split: if_splits option.splits field_value.splits)
      (metis fst_conv snd_conv)
  show "?R \<subseteq> ?L"
  proof
    fix x assume "x \<in> ?R"
    then obtain k f v where x: "x = (mem_lab k f, key_time k, v)" "mem_content s i k = Some f" "fst k = name"
      "mem_sat (io_Condition opts) k f" "io_StartTime opts \<le> key_time k" "key_time k \<le> io_EndTime opts"
      "f ''value'' = Some (FloatField v)" by (auto simp: matches_def)
    then obtain m where m: "map_of s (i, k) = Some m" "f = map_of m" by (auto simp: mem_content_def)
    then have "((i, k), m) \<in> set s" by (auto dest: map_of_SomeD)
    then have "(mem_lab k f, \<lparr>fp_Time = key_time k, fp_Value = v\<rparr>) \<in> set (mem_hits i name opts s)"
      unfolding mem_hits_def map_filter_def set_map set_filter using x m
      by (intro image_eqI [where x = "((i, k), m)"]) auto
    then show "x \<in> ?L" using x(1) by force
  qed
qed

lemma mem_reads: "reads_points mem_db mem_content mem_lab mem_sat"
proof -
  have "iterators_ok its (matches mem_lab mem_sat (mem_content s i) name (io_Condition opts) (io_StartTime opts) (io_EndTime opts))"
    if "mem_iterators i name opts s = Inr its" for i name opts s its
  proof -
    let ?h = "mem_hits i name opts s"
    have its: "its = map (\<lambda>l. (l, sort_key fp_Time (map snd (filter (\<lambda>h. fst h = l) ?h)), None)) (remdups (map fst ?h))"
      using that by (simp add: mem_iterators_def Let_def)
    have "result_points (map iterator_result its) = (\<lambda>h. (fst h, fp_Time (snd h), fp_Value (snd h))) ` set ?h"
      by (auto simp: its result_points_def iterator_result_def image_iff) force+
    then show ?thesis
      unfolding mem_hits_match by (auto simp: iterators_ok_def its comp_def)
  qed
  then show ?thesis by (simp add: reads_points_def mem_db_def)
qed

end
