(* ===== verification/Persistence.thy ===== *)
theory Persistence
  imports Mem_Store
begin

text \<open>
  The store of one node on top of the adapter (\<open>pkg/persistence\<close>): the appender that collects
  samples and commits them (\<open>appender.go\<close>), the querier (\<open>querier.go\<close>) and the store with its
  retention rules (\<open>store.go\<close>). The clock is an argument \<open>now\<close> in nanoseconds.
\<close>

section \<open>The appender\<close>

datatype append_error = NotANumber | PanicNotImplemented

record appender =
  ap_points :: "point list"
  ap_labelTruncationLength :: nat

definition NewAppender :: "(appender \<Rightarrow> appender) list \<Rightarrow> appender" where
  "NewAppender opts =
     foldl (\<lambda>a opt. opt a) \<lparr>ap_points = [], ap_labelTruncationLength = 256\<rparr> opts"

definition WithLabelTruncationLength :: "nat \<Rightarrow> appender \<Rightarrow> appender" where
  "WithLabelTruncationLength len a = a\<lparr>ap_labelTruncationLength := len\<rparr>"

text \<open>\<open>labels.Labels.Get\<close> and \<open>labels.Labels.Map\<close>.\<close>

definition labels_Get :: "labels \<Rightarrow> string \<Rightarrow> string" where
  "labels_Get l name = (case map_of l name of None \<Rightarrow> [] | Some v \<Rightarrow> v)"

definition labels_Map :: "labels \<Rightarrow> string gomap" where
  "labels_Map l = foldl (\<lambda>m kv. gm_set m (fst kv) (snd kv)) [] l"

definition cleanLabels :: "nat \<Rightarrow> labels \<Rightarrow> string gomap" where
  "cleanLabels n l =
     gm_delete (map (\<lambda>kv. (fst kv, if length (snd kv) > n then take n (snd kv) else snd kv)) (labels_Map l))
       MetricName"

definition sample_point :: "nat \<Rightarrow> labels \<Rightarrow> int \<Rightarrow> float64 \<Rightarrow> point" where
  "sample_point n l time v =
     \<lparr>p_Name = labels_Get l MetricName, p_Timestamp = time, p_Value = v, p_Labels = cleanLabels n l\<rparr>"

definition Add :: "labels \<Rightarrow> int \<Rightarrow> float64 \<Rightarrow> appender \<Rightarrow> (append_error + int) \<times> appender" where
  "Add l time v a =
     (if \<not> IsValidFloat v then (Inl NotANumber, a)
      else (Inr 0, a\<lparr>ap_points := ap_points a @ [sample_point (ap_labelTruncationLength a) l time v]\<rparr>))"

text \<open>
  The adapter's \<open>WritePoints\<close> is an argument. Beside its state \<open>w\<close> the counter of written
  points is kept. \<open>AddFast\<close> drops the error of the write.
\<close>

definition AddFast ::
    "(point list \<Rightarrow> 'w \<Rightarrow> ('e + unit) \<times> 'w) \<Rightarrow> labels \<Rightarrow> int \<Rightarrow> float64 \<Rightarrow> appender \<Rightarrow> 'w \<times> int \<Rightarrow>
     (append_error + unit) \<times> 'w \<times> int" where
  "AddFast write l time v a wn =
     (if \<not> IsValidFloat v then (Inl NotANumber, wn)
      else (Inr (), snd (write [sample_point (ap_labelTruncationLength a) l time v] (fst wn)), snd wn + 1))"

definition Commit ::
    "(point list \<Rightarrow> 'w \<Rightarrow> ('e + unit) \<times> 'w) \<Rightarrow> appender \<Rightarrow> 'w \<times> int \<Rightarrow>
     ('e + unit) \<times> appender \<times> 'w \<times> int" where
  "Commit write a wn =
     (case write (ap_points a) (fst wn) of
        (Inl e, w) \<Rightarrow> (Inl e, a\<lparr>ap_points := []\<rparr>, w, snd wn)
      | (Inr _, w) \<Rightarrow> (Inr (), a\<lparr>ap_points := []\<rparr>, w, snd wn + int (length (ap_points a))))"

definition Rollback :: "appender \<Rightarrow> (append_error + unit) \<times> appender" where
  "Rollback a = (Inl PanicNotImplemented, a)"

section \<open>The querier\<close>

datatype query_error = StartAfterEnd int int | NameNotEqualMatcher | QueryError adapter_error

record selectParams =
  sp_Start :: int
  sp_End :: int

text \<open>
  The search for the matcher of the metric name. It is cut out of the slice in place, so the
  caller's array has the rest moved down and its last element twice (\<open>sliced\<close>).
\<close>

fun name_matcher :: "matcher list \<Rightarrow> matcher list \<Rightarrow> query_error + string \<times> matcher list" where
  "name_matcher seen [] = Inr ([], rev seen)"
| "name_matcher seen (m # ms) =
     (if m_Name m = MetricName
      then if m_Type m \<noteq> MatchEqual then Inl NameNotEqualMatcher
           else Inr (m_Value m, rev seen @ ms)
      else name_matcher (m # seen) ms)"

definition sliced :: "matcher list \<Rightarrow> matcher list" where
  "sliced ms =
     (case name_matcher [] ms of
        Inr (_, rest) \<Rightarrow> if length rest < length ms then rest @ [last ms] else ms
      | Inl _ \<Rightarrow> ms)"

definition Select ::
    "('s, 'r) influxStore \<Rightarrow> (string \<Rightarrow> 'r option) \<Rightarrow> (labels \<Rightarrow> int) \<Rightarrow>
     ((string + shard_result) list \<Rightarrow> (string + shard_result) list) \<Rightarrow> int \<Rightarrow>
     selectParams option \<Rightarrow> matcher list \<Rightarrow> 's influxAdapter \<Rightarrow> int \<Rightarrow> (query_error + concreteSeriesSet) \<times> int" where
  "Select db rx hash sched now params matchers t readErrors =
     (let nowMs = now sdiv 1000000;
          p = (case params of None \<Rightarrow> \<lparr>sp_Start = 0, sp_End = nowMs\<rparr> | Some p \<Rightarrow> p)
      in if sp_End p \<noteq> 0 \<and> sp_Start p > sp_End p then (Inl (StartAfterEnd (sp_Start p) (sp_End p)), readErrors)
         else let p = (if sp_End p = 0 then p\<lparr>sp_End := nowMs\<rparr> else p)
              in case name_matcher [] matchers of
                   Inl e \<Rightarrow> (Inl e, readErrors)
                 | Inr (name, matchers) \<Rightarrow>
                     (case GetPoints db rx hash sched name (MillisecondsToNanoseconds (sp_Start p))
                             (i64 (MillisecondsToNanoseconds (sp_End p) - 1)) matchers t of
                        Inl e \<Rightarrow> (Inl (QueryError e), readErrors + 1)
                      | Inr builder \<Rightarrow> (Inr (SeriesSet builder), readErrors)))"

definition LabelNames :: "('s, 'r) influxStore \<Rightarrow> 's influxAdapter \<Rightarrow> string list" where
  "LabelNames db t = sort (remdups (AllTagKeys db t) @ [MetricName])"

definition LabelValues :: "('s, 'r) influxStore \<Rightarrow> string \<Rightarrow> 's influxAdapter \<Rightarrow> string list" where
  "LabelValues db name t =
     (if name = MetricName then AllMeasurementNames db t else sort (remdups (AllTagValues db name t)))"

section \<open>The store\<close>

fun f64_less :: "float64 \<Rightarrow> float64 \<Rightarrow> bool" where
  "f64_less (Fin a) (Fin b) = (a < b)"
| "f64_less NegInf (Fin _) = True"
| "f64_less NegInf PosInf = True"
| "f64_less (Fin _) PosInf = True"
| "f64_less _ _ = False"

record retentionConfig =
  RetentionPeriod :: int
  ExpiryFrequency :: int
  DiskFreePercentTarget :: float64

record storeConfig =
  sc_labelTruncationLength :: nat
  sc_metricsEmitDuration :: int
  sc_expiryConfig :: retentionConfig

record 's store =
  st_adapter :: "'s influxAdapter"
  st_config :: storeConfig
  st_written :: int
  st_readErrors :: int
  st_expired :: nat
  st_pruned :: nat
  st_storageDays :: "int option"
  st_seriesCount :: "int option"
  st_measurementsCount :: "int option"

definition defaultConfig :: storeConfig where
  "defaultConfig =
     \<lparr>sc_labelTruncationLength = 256, sc_metricsEmitDuration = 600000000000,
      sc_expiryConfig = \<lparr>RetentionPeriod = 2 ^ 63 - 1, ExpiryFrequency = 2 ^ 63 - 1, DiskFreePercentTarget = Fin 0\<rparr>\<rparr>"

definition WithAppenderLabelTruncationLength :: "nat \<Rightarrow> storeConfig \<Rightarrow> storeConfig" where
  "WithAppenderLabelTruncationLength len c = c\<lparr>sc_labelTruncationLength := len\<rparr>"

definition WithMetricsEmitDuration :: "int \<Rightarrow> storeConfig \<Rightarrow> storeConfig" where
  "WithMetricsEmitDuration d c = c\<lparr>sc_metricsEmitDuration := d\<rparr>"

definition WithRetentionConfig :: "retentionConfig \<Rightarrow> storeConfig \<Rightarrow> storeConfig" where
  "WithRetentionConfig rc c = c\<lparr>sc_expiryConfig := rc\<rparr>"

text \<open>\<open>opened\<close> is what opening the database's files gives.\<close>

definition NewStore ::
    "('s, 'r) influxStore \<Rightarrow> string + 's \<Rightarrow> (storeConfig \<Rightarrow> storeConfig) list \<Rightarrow> adapter_error + 's store" where
  "NewStore db opened opts =
     (case opened of
        Inl e \<Rightarrow> Inl (StoreError e)
      | Inr s \<Rightarrow>
          map_sum id (\<lambda>a. \<lparr>st_adapter = a, st_config = foldl (\<lambda>c opt. opt c) defaultConfig opts,
                           st_written = 0, st_readErrors = 0, st_expired = 0, st_pruned = 0,
                           st_storageDays = None, st_seriesCount = None,
                           st_measurementsCount = None\<rparr>) (NewInfluxAdapter db s))"

definition store_Appender :: "'s store \<Rightarrow> appender" where
  "store_Appender st = NewAppender [WithLabelTruncationLength (sc_labelTruncationLength (st_config st))]"

definition store_deleteOlderThan :: "('s, 'r) influxStore \<Rightarrow> int \<Rightarrow> 's store \<Rightarrow> 's store" where
  "store_deleteOlderThan db cutoff st =
     (case DeleteOlderThan db cutoff (st_adapter st) of
        ((numShardsExpired, _), t) \<Rightarrow> st\<lparr>st_adapter := t, st_expired := st_expired st + numShardsExpired\<rparr>)"

definition store_deleteOldest :: "('s, 'r) influxStore \<Rightarrow> 's store \<Rightarrow> 's store" where
  "store_deleteOldest db st =
     st\<lparr>st_adapter := snd (DeleteOldest db (st_adapter st)), st_pruned := st_pruned st + 1\<rparr>"

definition deleteExpiredData ::
    "('s, 'r) influxStore \<Rightarrow> int \<times> (string + float64) \<Rightarrow> 's store \<Rightarrow> 's store" where
  "deleteExpiredData db tick st =
     (let rc = sc_expiryConfig (st_config st);
          st = (if RetentionPeriod rc > - 1
                then store_deleteOlderThan db (i64 (fst tick - RetentionPeriod rc)) st else st)
      in if f64_less (Fin (- 1)) (DiskFreePercentTarget rc)
         then (case snd tick of
                 Inl _ \<Rightarrow> st
               | Inr diskFree \<Rightarrow>
                   if f64_less diskFree (DiskFreePercentTarget rc) then store_deleteOldest db st else st)
         else st)"

text \<open>
  The expiry loop over the ticks seen so far: the time and what the disk reporter says at
  each. \<open>time.Tick\<close> of a frequency that is not positive never fires.
\<close>

definition periodicExpiry ::
    "('s, 'r) influxStore \<Rightarrow> (int \<times> (string + float64)) \<Rightarrow> (int \<times> (string + float64)) list \<Rightarrow> 's store \<Rightarrow> 's store" where
  "periodicExpiry db start ticks st =
     (let f = ExpiryFrequency (sc_expiryConfig (st_config st));
          st = deleteExpiredData db start st
      in if f > - 1 \<and> f > 0 then foldl (\<lambda>st tick. deleteExpiredData db tick st) st ticks else st)"

definition emitStorageDurationMetric :: "int \<Rightarrow> 's store \<Rightarrow> 's store" where
  "emitStorageDurationMetric now st =
     (case OldestContiguousShardID now (st_adapter st) of
        Inl _ \<Rightarrow> st
      | Inr oldest \<Rightarrow>
          let duration = max (- (2 ^ 63)) (min (2 ^ 63 - 1) (now - i64 oldest))
          in st\<lparr>st_storageDays := Some (duration div day)\<rparr>)"

definition periodicMetrics :: "int \<Rightarrow> int list \<Rightarrow> 's store \<Rightarrow> 's store" where
  "periodicMetrics start ticks st =
     (let d = sc_metricsEmitDuration (st_config st);
          st = emitStorageDurationMetric start st
      in if d > - 1 \<and> d > 0 then foldl (\<lambda>st now. emitStorageDurationMetric now st) st ticks else st)"

text \<open>One round of \<open>emitStorageMetrics\<close> over the statistics of the database.\<close>

definition emitStorageMetrics :: "(string \<Rightarrow> int option) list \<Rightarrow> 's store \<Rightarrow> 's store" where
  "emitStorageMetrics statistics st =
     foldl (\<lambda>st values.
       let st = (case values ''numSeries'' of None \<Rightarrow> st | Some n \<Rightarrow> st\<lparr>st_seriesCount := Some n\<rparr>)
       in case values ''numMeasurements'' of None \<Rightarrow> st | Some n \<Rightarrow> st\<lparr>st_measurementsCount := Some n\<rparr>)
       st statistics"

section \<open>Appending\<close>

definition add_samples :: "(labels \<times> int \<times> float64) list \<Rightarrow> appender \<Rightarrow> appender" where
  "add_samples ss a = foldl (\<lambda>a (l, time, v). snd (Add l time v a)) a ss"

definition sample_points :: "nat \<Rightarrow> (labels \<times> int \<times> float64) list \<Rightarrow> point list" where
  "sample_points n ss =
     map (\<lambda>(l, time, v). sample_point n l time v) (filter (\<lambda>(l, time, v). IsValidFloat v) ss)"

lemma add_samples_points:
  "ap_labelTruncationLength (add_samples ss a) = ap_labelTruncationLength a
   \<and> ap_points (add_samples ss a) = ap_points a @ sample_points (ap_labelTruncationLength a) ss"
  unfolding add_samples_def sample_points_def
  by (induction ss arbitrary: a) (auto simp: Add_def)

context point_sink
begin

lemma commit_ok:
  assumes inv: "sink_inv w" and ps: "\<forall>p \<in> set (ap_points a). pok p"
    and c: "Commit wr a (w, n) = (r, a', w', n')"
  shows "sink_inv w'" and "ap_points a' = []"
    and "r = Inr () \<Longrightarrow> view w' = foldl put (view w) (ap_points a) \<and> n' = n + int (length (ap_points a))"
    and "r \<noteq> Inr () \<Longrightarrow> n' = n"
proof -
  obtain r1 w1 where w1: "wr (ap_points a) w = (r1, w1)" by fastforce
  then have "w' = w1 \<and> ap_points a' = [] \<and>
      (case r1 of Inl e \<Rightarrow> r = Inl e \<and> n' = n | Inr _ \<Rightarrow> r = Inr () \<and> n' = n + int (length (ap_points a)))"
    using c by (cases r1) (auto simp: Commit_def)
  then show "sink_inv w'" and "ap_points a' = []"
    and "r = Inr () \<Longrightarrow> view w' = foldl put (view w) (ap_points a) \<and> n' = n + int (length (ap_points a))"
    and "r \<noteq> Inr () \<Longrightarrow> n' = n"
    using write_inv [OF inv ps w1] write_view [OF inv ps] w1 by (auto split: sum.splits)
qed

end

lemma sample_point_simps [simp]: "p_Timestamp (sample_point n l time v) = time"
  by (simp add: sample_point_def)

text \<open>
  C5: Samples added to an appender of the store and committed are stored: after a commit that
  succeeds the database represents the old contents with the point of every sample that is a
  number put in, in the order of the samples, whatever the order in which the buckets of the
  days are written; the counter grows by their number and the appender is empty. A commit
  that fails leaves the counter and empties the appender as well. No commit breaks the
  invariant that every point lies in the shard of its day.
\<close>

theorem append_commit_stored:
  assumes "stores_points db content" "\<forall>bs. mset (ord bs) = mset bs" "adapter_inv content (st_adapter st)"
    and "\<forall>s \<in> set ss. ts_ok (fst (snd s))"
    and "Commit (WritePoints db okp ord) (add_samples ss (store_Appender st)) (st_adapter st, st_written st)
      = (r, a', t', n')"
  shows "let pts = sample_points (sc_labelTruncationLength (st_config st)) ss in
    adapter_inv content t' \<and> ap_points a' = []
    \<and> (r = Inr () \<longrightarrow> stored content t' = foldl put_point (stored content (st_adapter st)) (map ToInfluxPoint pts)
         \<and> n' = st_written st + int (length pts))
    \<and> (r \<noteq> Inr () \<longrightarrow> n' = st_written st)"
proof -
  let ?a = "add_samples ss (store_Appender st)"
  have a: "ap_points ?a = sample_points (sc_labelTruncationLength (st_config st)) ss"
    using add_samples_points [of ss "store_Appender st"]
    by (simp add: store_Appender_def NewAppender_def WithLabelTruncationLength_def)
  then have "\<forall>p \<in> set (ap_points ?a). ts_ok (p_Timestamp p)"
    using assms(4) by (auto simp: sample_points_def)
  from adapter_sink.commit_ok [OF _ this assms(5)] assms(1-3) a show ?thesis
    by (auto simp: foldl_map)
qed

lemma labels_Map_ok: "gomap_ok (labels_Map l) \<and> map_of (labels_Map l) = map_of (rev l)"
proof -
  have "gomap_ok m \<Longrightarrow> gomap_ok (foldl (\<lambda>m kv. gm_set m (fst kv) (snd kv)) m l)" for m :: "string gomap"
    by (induction l arbitrary: m) (auto simp: distinct_update)
  then show ?thesis using foldl_gm_set [of id "[]" l] by (simp add: labels_Map_def)
qed

definition ex_store :: "mem store" where
  "ex_store = projr (NewStore mem_db (Inr []) [])"

definition ex_samples :: "(labels \<times> int \<times> float64) list" where
  "ex_samples =
     [([(''__name__'', ''m''), (''a'', ''b'')], 5000000, Fin 1), ([(''__name__'', ''m'')], 7000000, NaN),
      ([(''__name__'', ''m'')], 86400000000001, Fin 2)]"

lemma mem_write_ok: "fst (write_buckets mem_db bs t) = Inr ()"
  by (induction bs arbitrary: t)
    (auto simp: mem_db_def findOrCreateShardForTimestamp_def Let_def)

lemma ToInfluxPoints_all: "ToInfluxPoints (\<lambda>_. True) ps = Some (map ToInfluxPoint ps)"
  by (induction ps) auto

lemma ex_store_simps:
  "st_adapter ex_store = \<lparr>ad_influx = [], ad_shards = []\<rparr>" "st_written ex_store = 0"
  "sc_labelTruncationLength (st_config ex_store) = 256"
  by (simp_all add: ex_store_def NewStore_def NewInfluxAdapter_def mem_db_def defaultConfig_def)

theorem append_commit_stored_witness:
  "\<exists>a' t'. Commit (WritePoints mem_db (\<lambda>_. True) rev) (add_samples ex_samples (store_Appender ex_store))
       (st_adapter ex_store, st_written ex_store) = (Inr (), a', t', 2)
     \<and> stored mem_content t' =
         foldl put_point Map.empty (map ToInfluxPoint (sample_points 256 ex_samples))"
proof -
  let ?c = "Commit (WritePoints mem_db (\<lambda>_. True) rev) (add_samples ex_samples (store_Appender ex_store))
    (st_adapter ex_store, st_written ex_store)"
  obtain r a' t' n' where c: "?c = (r, a', t', n')" by (cases ?c)
  have "r = Inr ()"
    using c mem_write_ok by (auto simp: Commit_def WritePoints_def ToInfluxPoints_all split: prod.splits sum.splits)
      (metis fst_conv sum.distinct(1))
  moreover have "adapter_inv mem_content (st_adapter ex_store)"
    by (simp add: ex_store_simps adapter_inv_def mem_content_def)
  moreover have "\<forall>s \<in> set ex_samples. ts_ok (fst (snd s))"
    by (simp add: ex_samples_def ts_ok_def truncate_day_def day_def)
  moreover have "stored mem_content (st_adapter ex_store) = Map.empty"
    by (simp add: fun_eq_iff stored_def ex_store_simps mem_content_def)
  moreover have "length (sample_points 256 ex_samples) = 2"
    by (simp add: sample_points_def ex_samples_def IsValidFloat_def)
  ultimately show ?thesis
    using append_commit_stored [OF mem_stores _ _ _ c] c by (simp add: ex_store_simps Let_def)
qed

text \<open>
  A point that is stored carries no label \<open>__name__\<close>, its metric name is the one of the
  sample, every label value is cut to the configured length, and values within it are the
  sample's own.
\<close>

theorem clean_labels_bounds:
  "p_Name (sample_point n l time v) = labels_Get l MetricName
   \<and> gomap_ok (p_Labels (sample_point n l time v))
   \<and> (\<forall>k. map_of (p_Labels (sample_point n l time v)) k =
        (if k = MetricName then None else map_option (take n) (map_of (rev l) k)))
   \<and> (\<forall>x \<in> set (map snd (p_Labels (sample_point n l time v))). length x \<le> n)"
proof -
  have cut: "(\<lambda>kv. (fst kv, if length (snd kv) > n then take n (snd kv) else snd kv)) = (\<lambda>kv. (fst kv, take n (snd kv)))"
    by (auto simp: fun_eq_iff)
  have "gomap_ok (cleanLabels n l)"
    using labels_Map_ok [of l] unfolding cleanLabels_def cut by (intro distinct_delete) (simp add: comp_def)
  moreover have "map_of (cleanLabels n l) k = (if k = MetricName then None else map_option (take n) (map_of (rev l) k))" for k
    using labels_Map_ok [of l] unfolding cleanLabels_def cut by (simp add: delete_conv' map_of_map_snd)
  moreover have "\<forall>x \<in> set (map snd (cleanLabels n l)). length x \<le> n"
    unfolding cleanLabels_def cut AList.delete_eq by auto
  ultimately show ?thesis by (simp add: sample_point_def)
qed

theorem clean_labels_bounds_witness:
  "p_Labels (sample_point 2 [(''__name__'', ''m''), (''a'', ''long''), (''b'', ''x'')] 5 (Fin 1)) =
     [(''a'', ''lo''), (''b'', ''x'')]
   \<and> length ''lo'' \<le> 2"
proof -
  let ?p = "sample_point 2 [(''__name__'', ''m''), (''a'', ''long''), (''b'', ''x'')] 5 (Fin 1)"
  have p: "p_Labels ?p = [(''a'', ''lo''), (''b'', ''x'')]" by code_simp
  then have "''lo'' \<in> set (map snd (p_Labels ?p))" by simp
  then have "length ''lo'' \<le> 2"
    using clean_labels_bounds [of 2 "[(''__name__'', ''m''), (''a'', ''long''), (''b'', ''x'')]" 5 "Fin 1"] by blast
  with p show ?thesis by blast
qed

section \<open>Querying\<close>

lemma query_end_unaligned: "(e * 1000000 - 1) mod day \<noteq> 0"
proof
  assume "(e * 1000000 - 1) mod day = 0"
  then obtain q where "e * 1000000 - 1 = day * q" by (auto dest!: mod_0_imp_dvd elim!: dvdE)
  then have "1 = 1000000 * (e - 86400000 * q)" by (simp add: day_def)
  then show False by (metis dvd_triv_left zdvd1_eq one_eq_numeral_iff semiring_norm(85) abs_numeral)
qed

text \<open>
  C8: A query with a range of milliseconds \<open>[start, end)\<close> that succeeds returns exactly the
  points the database holds in it that have the metric's name and satisfy the condition of
  the other matchers: no point of a selected or of an unselected shard is missing, none is
  added, every label set has one series, and every series is in time order although the
  shards are read concurrently (\<open>sched\<close> is any order of their results). A success does not
  count as a read error.
\<close>

theorem select_returns_stored:
  assumes "reads_points db content lab sat" "adapter_inv content t" "\<forall>es. mset (sched es) = mset es"
    and p: "0 \<le> sp_Start p" "sp_Start p \<le> sp_End p" "0 < sp_End p" "sp_End p * 1000000 < 2 ^ 63 - day"
    and nm: "name_matcher [] mts = Inr (name, mts')" and cond: "ToInfluxFilters rx mts' = Inr cond"
    and inj: "inj_on hash (fst ` matches lab sat (stored content t) name cond (sp_Start p * 1000000) (sp_End p * 1000000 - 1))"
    and sel: "Select db rx hash sched now (Some p) mts t n = (Inr ss, n')"
  shows "samples_of ss =
      to_ms ` matches lab sat (stored content t) name cond (sp_Start p * 1000000) (sp_End p * 1000000 - 1)
    \<and> distinct (map cs_labels (css_series ss))
    \<and> (\<forall>s \<in> set (css_series ss). sorted (times (cs_samples s))) \<and> n' = n"
proof -
  have "MillisecondsToNanoseconds (sp_Start p) = sp_Start p * 1000000"
    "MillisecondsToNanoseconds (sp_End p) = sp_End p * 1000000"
    using p by (intro ms_ns_exact; simp add: day_def)+
  moreover have "i64 (sp_End p * 1000000 - 1) = sp_End p * 1000000 - 1"
    using p by (intro i64_id) (simp_all add: day_def)
  ultimately obtain b where b: "GetPoints db rx hash sched name (sp_Start p * 1000000) (sp_End p * 1000000 - 1) mts' t = Inr b"
    "ss = SeriesSet b" "n' = n"
    using sel nm p by (auto simp: Select_def Let_def split: sum.splits)
  have r: "0 \<le> sp_Start p * 1000000" "sp_End p * 1000000 - 1 < 2 ^ 63 - day" using p by simp_all
  show ?thesis
    using get_points_ok [OF assms(1,2) r query_end_unaligned assms(3) b(1) cond inj] b(2,3) by blast
qed

definition ex_adapter :: "mem influxAdapter" where
  "ex_adapter =
     \<lparr>ad_influx = [((86400000000000, (''m'', [(''a'', ''b'')], 86400005000000)), [(''value'', FloatField (Fin 2))]),
                   ((0, (''m'', [(''a'', ''b'')], 5000000)), [(''value'', FloatField (Fin 1))])],
      ad_shards = [86400000000000, 0]\<rparr>"

lemma ex_shards:
  "shard_of 86400005000000 = 86400000000000" "shard_of 5000000 = 0" "ts_ok 86400005000000" "ts_ok 5000000"
  by (simp_all add: shard_of_def getShardStartForTimestamp_def truncate_day_def day_def ts_ok_def i64_id u64_id)

lemma ex_adapter_inv: "adapter_inv mem_content ex_adapter"
proof -
  have "\<forall>i \<in> set (ad_shards ex_adapter). \<exists>ts. ts_ok ts \<and> i = shard_of ts"
    using ex_shards by (auto simp: ex_adapter_def)
  then show ?thesis
    using ex_shards unfolding adapter_inv_def
    by (auto simp: ex_adapter_def mem_content_def split: if_splits)
qed

lemma ex_adapter_stored:
  "stored mem_content ex_adapter k =
     (if k = (''m'', [(''a'', ''b'')], 86400005000000) then Some [''value'' \<mapsto> FloatField (Fin 2)]
      else if k = (''m'', [(''a'', ''b'')], 5000000) then Some [''value'' \<mapsto> FloatField (Fin 1)] else None)"
  using ex_shards by (auto simp: stored_def ex_adapter_def mem_content_def)

theorem select_returns_stored_witness:
  "\<exists>ss. Select mem_db (\<lambda>s. Some s) ex_hash rev 0 (Some \<lparr>sp_Start = 0, sp_End = 86400010\<rparr>)
       [\<lparr>m_Type = MatchEqual, m_Name = ''a'', m_Value = ''b''\<rparr>,
        \<lparr>m_Type = MatchEqual, m_Name = MetricName, m_Value = ''m''\<rparr>] ex_adapter 7 = (Inr ss, 7)
     \<and> samples_of ss = {([(MetricName, ''m''), (''a'', ''b'')], 86400005, Fin 2), ([(MetricName, ''m''), (''a'', ''b'')], 5, Fin 1)}"
proof -
  let ?ms = "[\<lparr>m_Type = MatchEqual, m_Name = ''a'', m_Value = ''b''\<rparr>,
    \<lparr>m_Type = MatchEqual, m_Name = MetricName, m_Value = ''m''\<rparr>]"
  let ?p = "\<lparr>sp_Start = 0, sp_End = 86400010\<rparr>"
  let ?sel = "Select mem_db (\<lambda>s. Some s) ex_hash rev 0 (Some ?p) ?ms ex_adapter 7"
  let ?cond = "Some (BinaryExpr TEQ (VarRef ''a'') (StringLiteral ''b'') :: string iexpr)"
  have "\<not> isl (fst ?sel)" by code_simp
  then obtain ss n' where s: "?sel = (Inr ss, n')" by (metis isl_def old.sum.exhaust prod.exhaust_sel)
  have nm: "name_matcher [] ?ms = Inr (''m'', [\<lparr>m_Type = MatchEqual, m_Name = ''a'', m_Value = ''b''\<rparr>])" by code_simp
  have c: "ToInfluxFilters (\<lambda>s. Some s) [\<lparr>m_Type = MatchEqual, m_Name = ''a'', m_Value = ''b''\<rparr>] = Inr ?cond"
    by (simp add: ToInfluxFilters_def ToInfluxFilter_def)
  have m: "matches mem_lab mem_sat (stored mem_content ex_adapter) ''m'' ?cond 0 86400009999999 =
      {([(MetricName, ''m''), (''a'', ''b'')], 86400005000000, Fin 2), ([(MetricName, ''m''), (''a'', ''b'')], 5000000, Fin 1)}"
    unfolding matches_def ex_adapter_stored 
    by (auto simp: mem_lab_def mem_sat_def split: if_splits)
      (rule exI [where x = "(''m'', [(''a'', ''b'')], 86400005000000)"], simp)
  show ?thesis
    using select_returns_stored [OF mem_reads ex_adapter_inv _ _ _ _ _ nm c _ s] s
    by (simp add: m day_def inj_on_def ex_hash_def ms_div)
qed

section \<open>Retention\<close>

lemma adjustedCutoff_bounds:
  assumes "- (2 ^ 63) + 2 * day \<le> cutoff" "cutoff < 2 ^ 63"
  shows "adjustedCutoff cutoff = truncate_day (cutoff - 60000000000)"
    and "adjustedCutoff cutoff \<le> cutoff - 60000000000" "cutoff - 60000000000 < adjustedCutoff cutoff + day"
proof -
  show eq: "adjustedCutoff cutoff = truncate_day (cutoff - 60000000000)"
    unfolding adjustedCutoff_def using truncate_day_bounds [of "cutoff - 60000000000"] assms
    by (intro i64_id) (auto simp: day_def)
  show "adjustedCutoff cutoff \<le> cutoff - 60000000000" "cutoff - 60000000000 < adjustedCutoff cutoff + day"
    unfolding eq by (rule truncate_day_bounds)+
qed

lemma truncate_day_le_iff: "c mod day = 0 \<Longrightarrow> truncate_day x \<le> c \<longleftrightarrow> x < c + day"
proof
  assume c: "c mod day = 0"
  show "x < c + day" if "truncate_day x \<le> c" using that truncate_day_bounds(2) [of x] by simp
  assume "x < c + day"
  then have "truncate_day x < c + day" using truncate_day_bounds(1) [of x] by simp
  then show "truncate_day x \<le> c"
    using c truncate_day_mod [of x] by (auto simp: day_def dest!: mod_0_imp_dvd elim!: dvdE)
qed

lemma takeWhile_sorted:
  "sorted xs \<Longrightarrow> set (takeWhile (\<lambda>i. i \<le> c) xs) = {i \<in> set xs. i \<le> (c :: int)}"
  by (induction xs) auto

text \<open>
  C12: Deleting what is older than \<open>cutoff\<close> removes exactly the shards whose day starts at or
  before the start of the day of \<open>cutoff\<close> less a minute, and reports their number. So every
  point up to a minute before \<open>cutoff\<close> is gone, every point a day or more after it is kept,
  and no other point changes; what lies between is removed with its day.
\<close>

theorem delete_older_than_exact:
  assumes db: "stores_points db content" and inv: "adapter_inv content t"
    and ids: "\<forall>i \<in> set (ad_shards t). i < 2 ^ 63"
    and c: "- (2 ^ 63) + 2 * day \<le> cutoff" "cutoff < 2 ^ 63"
    and d: "DeleteOlderThan db cutoff t = ((n, None), t')"
  shows "adapter_inv content t'
    \<and> set (ad_shards t') = {i \<in> set (ad_shards t). adjustedCutoff cutoff < i}
    \<and> n = card {i \<in> set (ad_shards t). i \<le> adjustedCutoff cutoff}
    \<and> (\<forall>k. stored content t' k = (if key_time k < adjustedCutoff cutoff + day then None else stored content t k))
    \<and> (\<forall>k. key_time k \<le> cutoff - 60000000000 \<longrightarrow> stored content t' k = None)
    \<and> (\<forall>k. cutoff + day \<le> key_time k \<longrightarrow> stored content t' k = stored content t k)"
proof -
  let ?c = "adjustedCutoff cutoff"
  let ?old = "takeWhile (\<lambda>i. i64 i \<le> ?c) (sort (ad_shards t))"
  have nonneg: "0 \<le> i \<and> i64 i = i" if "i \<in> set (ad_shards t)" for i
  proof -
    have "0 \<le> i" using adapter_invD(2) [OF inv that] u64_range by (auto simp: shard_of_def)
    then show ?thesis using ids that by (simp add: i64_id)
  qed
  have "?old = takeWhile (\<lambda>i. i \<le> ?c) (sort (ad_shards t))"
    by (rule takeWhile_cong) (use nonneg in auto)
  then have old: "set ?old = {i \<in> set (ad_shards t). i \<le> ?c}" "distinct ?old"
    using takeWhile_sorted [of "sort (ad_shards t)" ?c] adapter_invD(1) [OF inv] by (simp_all add: distinct_takeWhile)
  have r: "adapter_inv content t'" "n = length ?old" "ad_shards t' = filter (\<lambda>i. i \<notin> set ?old) (ad_shards t)"
    "\<And>k. stored content t' k = (if shard_of (key_time k) \<in> set ?old then None else stored content t k)"
    using delete_until_ok [OF db inv d [unfolded DeleteOlderThan_def ShardIDsOldestSort_def]] by auto
  have gone: "stored content t' k = (if key_time k < ?c + day then None else stored content t k)" for k
  proof (cases "stored content t k")
    case (Some f)
    then have k: "shard_of (key_time k) \<in> set (ad_shards t)" "ts_ok (key_time k)"
      using adapter_invD(3) [OF inv Some [unfolded stored_def]] by blast+
    then have "shard_of (key_time k) = truncate_day (key_time k)" using nonneg shard_of_start(2) by metis
    then have "shard_of (key_time k) \<in> set ?old \<longleftrightarrow> key_time k < ?c + day"
      using old(1) k(1) truncate_day_le_iff [of ?c] truncate_day_mod adjustedCutoff_bounds(1) [OF c] by simp
    then show ?thesis using r(4) by simp
  qed (use r(4) in simp)
  moreover have "n = card {i \<in> set (ad_shards t). i \<le> ?c}"
    using r(2) old distinct_card [of ?old] by simp
  ultimately show ?thesis
    using r(1,3) old(1) adjustedCutoff_bounds(2,3) [OF c] by (auto simp: not_le)
qed

theorem delete_older_than_exact_witness:
  "\<exists>t'. DeleteOlderThan mem_db 90000000000000 ex_adapter = ((2, None), t')
     \<and> set (ad_shards t') = {}
     \<and> DeleteOlderThan mem_db 86400000000000 ex_adapter = ((1, None), ex_adapter\<lparr>ad_shards := [86400000000000],
          ad_influx := [((86400000000000, (''m'', [(''a'', ''b'')], 86400005000000)), [(''value'', FloatField (Fin 2))])]\<rparr>)"
proof -
  have "fst (DeleteOlderThan mem_db 90000000000000 ex_adapter) = (2, None)" by code_simp
  then obtain t' where t': "DeleteOlderThan mem_db 90000000000000 ex_adapter = ((2, None), t')"
    by (metis prod.collapse)
  have "adjustedCutoff 90000000000000 = 86400000000000" by code_simp
  then have "set (ad_shards t') = {}"
    using delete_older_than_exact [OF mem_stores ex_adapter_inv _ _ _ t'] by (auto simp: ex_adapter_def day_def)
  moreover have "DeleteOlderThan mem_db 86400000000000 ex_adapter = ((1, None), ex_adapter\<lparr>ad_shards := [86400000000000],
      ad_influx := [((86400000000000, (''m'', [(''a'', ''b'')], 86400005000000)), [(''value'', FloatField (Fin 2))])]\<rparr>)"
    by (simp add: DeleteOlderThan_def ShardIDsOldestSort_def ex_adapter_def adjustedCutoff_def truncate_day_def day_def
        i64_id ad_Delete_def mem_db_def Let_def)
  ultimately show ?thesis using t' by blast
qed


definition failing_db :: "(mem, string) influxStore" where
  "failing_db = mem_db\<lparr>DeleteShard := (\<lambda>i s. (Inl ''EIO'', s))\<rparr>"


text \<open>The changes an adapter sees, in any order.\<close>

datatype ad_op = OpWrite "point list" | OpDeleteOlderThan int | OpDeleteOldest

fun ad_step ::
    "('s, 'r) influxStore \<Rightarrow> (influx_point \<Rightarrow> bool) \<Rightarrow> (buckets \<Rightarrow> buckets) \<Rightarrow> 's influxAdapter \<Rightarrow> ad_op \<Rightarrow> 's influxAdapter" where
  "ad_step db okp ord t (OpWrite ps) = snd (WritePoints db okp ord ps t)"
| "ad_step db okp ord t (OpDeleteOlderThan c) = snd (DeleteOlderThan db c t)"
| "ad_step db okp ord t OpDeleteOldest = snd (DeleteOldest db t)"

fun op_ok :: "ad_op \<Rightarrow> bool" where
  "op_ok (OpWrite ps) = (\<forall>p \<in> set ps. ts_ok (p_Timestamp p))"
| "op_ok _ = True"

lemma delete_until_succeeds:
  assumes "\<forall>i s. \<exists>s'. DeleteShard db i s = (Inr (), s')"
  shows "snd (fst (delete_until db c ids n t)) = None"
proof (induction ids arbitrary: n t)
  case (Cons i ids)
  obtain s' where "DeleteShard db i (ad_influx t) = (Inr (), s')" using assms by blast
  then show ?case using Cons by (simp add: ad_Delete_def Let_def)
qed simp

lemma ad_step_inv:
  assumes "stores_points db content" "\<forall>bs. mset (ord bs) = mset bs"
    and "\<forall>i s. \<exists>s'. DeleteShard db i s = (Inr (), s')" "op_ok opr" "adapter_inv content t"
  shows "adapter_inv content (ad_step db okp ord t opr)"
proof (cases opr)
  case (OpWrite ps)
  then show ?thesis using write_points_ok(1) [OF assms(1,5) _ assms(2)] assms(4) by (simp add: prod_eq_iff)
next
  case (OpDeleteOlderThan c)
  have "DeleteOlderThan db c t = ((fst (fst (DeleteOlderThan db c t)), None), snd (DeleteOlderThan db c t))"
    using delete_until_succeeds [OF assms(3)] by (simp add: DeleteOlderThan_def prod_eq_iff)
  then show ?thesis
    using delete_until_ok [OF assms(1,5)] OpDeleteOlderThan unfolding DeleteOlderThan_def by (metis ad_step.simps(2) DeleteOlderThan_def)
next
  case OpDeleteOldest
  then show ?thesis using delete_oldest_ok [OF assms(1,3,5)] by (simp add: prod_eq_iff)
qed



lemma contiguous_from_spec:
  assumes "sorted_wrt (>) (l # is)" "\<forall>i \<in> set (l # is). 0 \<le> i \<and> i < 2 ^ 63 \<and> i mod day = 0"
  shows "\<exists>m :: nat. l = contiguous_from l is + int m * day
    \<and> (\<forall>j \<le> m. contiguous_from l is + int j * day \<in> set (l # is))
    \<and> contiguous_from l is - day \<notin> set (l # is)"
  using assms
proof (induction l "is" rule: contiguous_from.induct)
  case (1 l)
  then show ?case by (intro exI [where x = 0]) (auto simp: day_def)
next
  case (2 l i "is")
  have u: "u64 (l - i) = l - i" using 2(2,3) by (intro u64_id) auto
  show ?case
  proof (cases "l - i = day")
    case True
    from 2(1) [unfolded u, OF True] 2(2,3) obtain m :: nat where m: "i = contiguous_from i is + int m * day"
      "\<forall>j \<le> m. contiguous_from i is + int j * day \<in> set (i # is)" "contiguous_from i is - day \<notin> set (i # is)" by auto
    have "contiguous_from l (i # is) + int j * day \<in> set (l # i # is)" if "j \<le> Suc m" for j
    proof (cases "j = Suc m")
      case True
      have "l = i + day" using \<open>l - i = day\<close> by simp
      also have "\<dots> = contiguous_from i is + int j * day" using m(1) True by (simp add: algebra_simps)
      finally show ?thesis using \<open>l - i = day\<close> u by simp
    qed (use that m(2) True u in auto)
    moreover have "contiguous_from i is \<le> i" using m(1) by (metis day_pos le_add_same_cancel1 less_le mult_nonneg_nonneg of_nat_0_le_iff)
    then have "contiguous_from i is - day \<noteq> l" using True day_pos by linarith
    ultimately show ?thesis
      using True u m by (intro exI [where x = "Suc m"]) (auto simp: algebra_simps)
  next
    case False
    have "l - day \<noteq> j" if j: "j \<in> set (i # is)" for j
    proof
      assume e: "l - day = j"
      have "i mod day = 0" "l mod day = 0" using 2(3) by auto
      moreover have "j \<le> i" "i < l" using 2(2) j by auto
      ultimately show False
        using e False day_pos by (auto dest!: mod_0_imp_dvd elim!: dvdE simp: day_def)
    qed
    then show ?thesis using False u by (intro exI [where x = 0]) (auto simp: day_def)
  qed
qed

lemma shard_ids_aligned:
  assumes inv: "adapter_inv content t" and "i \<in> set (ad_shards t)" "i < 2 ^ 63"
  shows "0 \<le> i \<and> i mod day = 0"
proof -
  obtain ts where ts: "ts_ok ts" "i = shard_of ts" using adapter_invD(2) [OF assms(1,2)] by blast
  then have "0 \<le> i" using u64_range by (simp add: shard_of_def)
  then have "i = i64 i" using assms(3) by (simp add: i64_id)
  then show ?thesis using ts truncate_day_mod \<open>0 \<le> i\<close> by (metis shard_of_start(2))
qed

text \<open>
  The oldest contiguous shard is the oldest day of the unbroken run of days that ends with
  the newest shard, shards more than a day in the future aside: every day from it to the
  newest has a shard and the day before it has none. There is no answer exactly when no such
  shard is known.
\<close>

theorem oldest_contiguous:
  assumes inv: "adapter_inv content t" and ids: "\<forall>i \<in> set (ad_shards t). i < 2 ^ 63"
    and now: "0 \<le> now" "now + day < 2 ^ 63"
  shows "let live = {i \<in> set (ad_shards t). i \<le> now + day} in
    case OldestContiguousShardID now t of
      Inl e \<Rightarrow> e = NoShardIDs \<and> live = {}
    | Inr r \<Rightarrow> (\<exists>m :: nat. r + int m * day = Max live \<and> (\<forall>j \<le> m. r + int j * day \<in> live) \<and> r - day \<notin> live)"
proof -
  let ?ids = "removeFutureShardIds now (ad_ShardIDs t)"
  have u: "u64 (now + day) = now + day" using now by (intro u64_id) (simp_all add: day_def)
  have set: "set ?ids = {i \<in> set (ad_shards t). i \<le> now + day}"
    by (auto simp: removeFutureShardIds_def ad_ShardIDs_def u)
  have "sorted_wrt (>) (ad_ShardIDs t)"
    using adapter_invD(1) [OF inv] sorted_sort [of "ad_shards t"]
    by (simp add: ad_ShardIDs_def sorted_wrt_rev strict_sorted_iff)
  then have so: "sorted_wrt (>) ?ids" by (simp add: removeFutureShardIds_def sorted_wrt_filter)
  show ?thesis
  proof (cases ?ids)
    case Nil
    then show ?thesis using set by (simp add: OldestContiguousShardID_def)
  next
    case (Cons l "is")
    have "\<forall>i \<in> set (l # is). 0 \<le> i \<and> i < 2 ^ 63 \<and> i mod day = 0"
      using set Cons ids shard_ids_aligned [OF inv] by (metis (no_types, lifting) mem_Collect_eq)
    from contiguous_from_spec [OF so [unfolded Cons] this] set Cons have
      "\<exists>m :: nat. contiguous_from l is + int m * day = l
        \<and> (\<forall>j \<le> m. contiguous_from l is + int j * day \<in> {i \<in> set (ad_shards t). i \<le> now + day})
        \<and> contiguous_from l is - day \<notin> {i \<in> set (ad_shards t). i \<le> now + day}" by metis
    moreover have "Max {i \<in> set (ad_shards t). i \<le> now + day} = l"
      using so Cons set by (intro Max_eqI) (auto simp flip: set)
    ultimately show ?thesis by (simp add: OldestContiguousShardID_def Cons Let_def)
  qed
qed

theorem oldest_contiguous_witness:
  "OldestContiguousShardID 90000000000000 ex_adapter = Inr 0
   \<and> (\<exists>m :: nat. 0 + int m * day = Max {i \<in> set (ad_shards ex_adapter). i \<le> 90000000000000 + day})"
proof -
  have "OldestContiguousShardID 90000000000000 ex_adapter = Inr 0" by code_simp
  then show ?thesis
    using oldest_contiguous [OF ex_adapter_inv, of 90000000000000] by (auto simp: ex_adapter_def day_def Let_def)
qed

end
