(* ===== verification/Routing.thy ===== *)
theory Routing
  imports Go_Prelude
begin

text \<open>
  Which nodes hold a metric (\<open>internal/routing\<close>): the routing table with its replicas, and
  the static lookup over equal ranges of the hash space. The hash functions (xxhash and the
  jump hash) are parameters; the AVL tree of the static lookup is a finite map of which the
  code uses \<open>Put\<close> and \<open>Floor\<close>.
\<close>

section \<open>The routing table\<close>

record hostRange =
  hr_hostIndex :: nat
  hr_start :: int
  hr_end :: int

record routingTable =
  rt_localNode :: nat
  rt_addresses :: "nat gomap"
  rt_replicationFactor :: nat
  rt_hosts :: nat
  rt_table :: "hostRange list"

datatype routing_error = ReplicationFactorZero | ReplicationFactorTooLarge

text \<open>\<open>rt_hosts\<close> is the number of hosts the jump hasher is created with.\<close>

definition NewRoutingTable :: "nat \<Rightarrow> string list \<Rightarrow> nat \<Rightarrow> routing_error + routingTable" where
  "NewRoutingTable localNode addrs replicationFactor =
     (if replicationFactor = 0 then Inl ReplicationFactorZero
      else if replicationFactor > length addrs then Inl ReplicationFactorTooLarge
      else Inr \<lparr>rt_localNode = localNode,
                rt_addresses = foldl (\<lambda>m (i, addr). gm_set m addr i) [] (enumerate 0 addrs),
                rt_replicationFactor = replicationFactor,
                rt_hosts = length addrs,
                rt_table = []\<rparr>)"

definition RoutingTable_Lookup ::
    "(string \<Rightarrow> int) \<Rightarrow> (nat \<Rightarrow> int \<Rightarrow> nat) \<Rightarrow> routingTable \<Rightarrow> string \<Rightarrow> nat list" where
  "RoutingTable_Lookup sum64 jump t item =
     (let hashValue = sum64 item; node = jump (rt_hosts t) hashValue
      in map (\<lambda>n. (node + n) mod length (rt_addresses t)) [0..<rt_replicationFactor t]
         @ map hr_hostIndex
             (filter (\<lambda>r. hashValue \<ge> hr_start r \<and> hashValue \<le> hr_end r) (rt_table t)))"

definition IsLocal ::
    "(string \<Rightarrow> int) \<Rightarrow> (nat \<Rightarrow> int \<Rightarrow> nat) \<Rightarrow> routingTable \<Rightarrow> string \<Rightarrow> bool" where
  "IsLocal sum64 jump t metricName \<longleftrightarrow>
     list_ex (\<lambda>clientIndex. clientIndex = rt_localNode t) (RoutingTable_Lookup sum64 jump t metricName)"

section \<open>The static lookup\<close>

record staticLookup =
  sl_tree :: "(int \<times> int) list"

definition tree_Floor :: "(int \<times> int) list \<Rightarrow> int \<Rightarrow> (int \<times> int) option" where
  "tree_Floor t h =
     foldl (\<lambda>best kv. if fst kv \<le> h \<and> (case best of None \<Rightarrow> True | Some b \<Rightarrow> fst b < fst kv)
                      then Some kv else best) None t"

text \<open>\<open>None\<close> is the panic for a number of routes that is not positive.\<close>

definition NewStaticLookup :: "int \<Rightarrow> staticLookup option" where
  "NewStaticLookup numOfRoutes =
     (if numOfRoutes \<le> 0 then None
      else let x = 18446744073709551615 div numOfRoutes
           in Some \<lparr>sl_tree = foldl (\<lambda>t i. AList.update (u64 (int i * x)) (int i) t) []
                                 [0..<nat numOfRoutes]\<rparr>)"

text \<open>The dereference of a nil node panics: \<open>None\<close>.\<close>

definition StaticLookup_Lookup :: "(string \<Rightarrow> int) \<Rightarrow> staticLookup \<Rightarrow> string \<Rightarrow> int option" where
  "StaticLookup_Lookup hash l sourceId =
     (case tree_Floor (sl_tree l) (hash sourceId) of None \<Rightarrow> None | Some n \<Rightarrow> Some (i64 (snd n)))"

section \<open>Replicas\<close>

lemma addresses_keys:
  "fst ` set (foldl (\<lambda>m (i, addr). gm_set m addr i) m xs) = fst ` set m \<union> snd ` set xs"
  "gomap_ok m \<Longrightarrow> gomap_ok (foldl (\<lambda>m (i, addr). gm_set m addr i) m xs)"
proof (induction xs arbitrary: m)
  case (Cons x xs)
  { case 1 then show ?case using Cons(1) by (cases x) (simp add: dom_update) }
  { case 2 then show ?case using Cons(2) by (cases x) (simp add: distinct_update) }
qed simp_all

lemma addresses_length:
  assumes "distinct addrs"
  shows "length (foldl (\<lambda>m (i, addr). gm_set m addr i) [] (enumerate 0 addrs)) = length addrs"
proof -
  let ?m = "foldl (\<lambda>m (i, addr). gm_set m addr i) [] (enumerate 0 addrs)"
  have "set (map fst ?m) = set addrs"
    using addresses_keys(1) [of "[]" "enumerate 0 addrs"]
    by (simp del: set_map add: set_map [symmetric])
  moreover have "distinct (map fst ?m)"
    by (rule addresses_keys(2)) simp
  ultimately show ?thesis using assms distinct_card [of "map fst ?m"] distinct_card [of addrs] by simp
qed

lemma mod_add_inj:
  assumes "(a + i) mod n = (a + j) mod n" "i < n" "j < n"
  shows "i = (j :: nat)"
proof -
  have "int (a + i) mod int n = int (a + j) mod int n" using assms(1) by (metis zmod_int)
  then have "int n dvd int i - int j" by (simp add: mod_eq_dvd_iff)
  moreover have "\<bar>int i - int j\<bar> < int n" using assms(2,3) by linarith
  ultimately show ?thesis using dvd_imp_le_int [of "int i - int j" "int n"] by auto
qed

text \<open>What the constructor's table looks a metric up in.\<close>

lemma routing_table_fields:
  assumes "distinct addrs" and "NewRoutingTable local addrs rf = Inr t"
  shows "0 < rf" "rf \<le> length addrs" "rt_localNode t = local"
    and "RoutingTable_Lookup sum64 jump t item =
      map (\<lambda>n. (jump (length addrs) (sum64 item) + n) mod length addrs) [0..<rf]"
  using assms(2) addresses_length [OF assms(1)]
  by (auto simp: NewRoutingTable_def RoutingTable_Lookup_def Let_def split: if_splits)

lemma lookup_distinct:
  assumes "distinct addrs" and "NewRoutingTable local addrs rf = Inr t"
  shows "distinct (RoutingTable_Lookup sum64 jump t item)"
proof -
  note t = routing_table_fields [OF assms]
  have "inj_on (\<lambda>n. (jump (length addrs) (sum64 item) + n) mod length addrs) {0..<rf}"
    by (rule inj_onI) (use mod_add_inj t(2) in \<open>meson atLeastLessThan_iff less_le_trans\<close>)
  then show ?thesis by (simp add: t(4) distinct_map)
qed

lemma lookup_valid:
  assumes "distinct addrs" and "NewRoutingTable local addrs rf = Inr t"
  shows "\<forall>n \<in> set (RoutingTable_Lookup sum64 jump t item). n < length addrs"
proof -
  note t = routing_table_fields [OF assms]
  show ?thesis
    unfolding t(4) set_map using mod_less_divisor [OF less_le_trans [OF t(1,2)]] by blast
qed



section \<open>The interface of the routing table\<close>

text \<open>
  What the replicated storage relies on (the interface \<open>Routing\<close> of
  \<open>internal/storage/routing.go\<close>): a lookup yields different nodes of the cluster, as many as
  there are replicas.
\<close>

locale node_lookup =
  fixes lookup :: "'t \<Rightarrow> string \<Rightarrow> nat list"
    and table_ok :: "'t \<Rightarrow> nat \<Rightarrow> nat \<Rightarrow> bool"
  assumes nodes_distinct: "table_ok t nodes replicas \<Longrightarrow> distinct (lookup t item)"
    and nodes_valid: "table_ok t nodes replicas \<Longrightarrow> i \<in> set (lookup t item) \<Longrightarrow> i < nodes"
    and nodes_count: "table_ok t nodes replicas \<Longrightarrow> length (lookup t item) = replicas"
begin

lemma replicas_card: "table_ok t nodes replicas \<Longrightarrow> card (set (lookup t item)) = replicas"
  by (metis distinct_card nodes_count nodes_distinct)

end

text \<open>A table the constructor made for different addresses.\<close>

definition made_table :: "routingTable \<Rightarrow> nat \<Rightarrow> nat \<Rightarrow> bool" where
  "made_table t n rf \<longleftrightarrow>
     (\<exists>local addrs. distinct addrs \<and> length addrs = n \<and> NewRoutingTable local addrs rf = Inr t)"

interpretation table: node_lookup "RoutingTable_Lookup sum64 jump" made_table
  for sum64 jump
proof
  fix t n rf item i
  assume "made_table t n rf"
  then obtain local addrs where a: "distinct addrs" "length addrs = n" "NewRoutingTable local addrs rf = Inr t"
    by (auto simp: made_table_def)
  show "distinct (RoutingTable_Lookup sum64 jump t item)" by (rule lookup_distinct [OF a(1,3)])
  show "i < n" if "i \<in> set (RoutingTable_Lookup sum64 jump t item)"
    using lookup_valid [OF a(1,3)] that a(2) by blast
  show "length (RoutingTable_Lookup sum64 jump t item) = rf"
    by (simp add: routing_table_fields(4) [OF a(1,3)])
qed

section \<open>Static routes\<close>

lemma le_div_iff: "0 < (x :: int) \<Longrightarrow> n * x \<le> h \<longleftrightarrow> n \<le> h div x"
proof
  assume "0 < x" "n * x \<le> h"
  then show "n \<le> h div x" using zdiv_mono1 [of "n * x" h x] by simp
next
  assume x: "0 < x" "n \<le> h div x"
  then have "n * x \<le> h div x * x" by (simp add: mult_right_mono)
  also have "\<dots> \<le> h" using x(1) by (simp add: minus_mod_eq_div_mult [symmetric])
  finally show "n * x \<le> h" .
qed

text \<open>\<open>Floor\<close> on the keys \<open>0, x, 2x, \<dots>\<close> returns the entry with the greatest key not above \<open>h\<close>.\<close>

lemma tree_Floor_upto:
  assumes "0 < x" "0 \<le> h"
  shows "tree_Floor (map (\<lambda>i. (int i * x, int i)) [0..<n]) h =
    (if n = 0 then None
     else Some (min (h div x) (int n - 1) * x, min (h div x) (int n - 1)))"
proof (induction n)
  case (Suc n)
  have "0 \<le> h div x" using assms by (simp add: pos_imp_zdiv_nonneg_iff)
  moreover have "(int n - 1) * x < int n * x" using assms(1) by simp
  moreover have "min (h div x) (int n - 1) * x < int n * x"
    using assms(1) by (intro mult_strict_right_mono) auto
  ultimately show ?case
    using Suc le_div_iff [OF assms(1), of "int n" h]
    by (auto simp: tree_Floor_def min_def)
qed (simp add: tree_Floor_def)

lemma update_new: "k \<notin> fst ` set al \<Longrightarrow> AList.update k v al = al @ [(k, v)]"
  by (induction al) auto

lemma static_tree:
  assumes "0 < x" "int n * x \<le> 18446744073709551615"
  shows "foldl (\<lambda>t i. AList.update (u64 (int i * x)) (int i) t) [] [0..<n] =
    map (\<lambda>i. (int i * x, int i)) [0..<n]"
  using assms(2)
proof (induction n)
  case (Suc n)
  have n: "int n * x \<le> 18446744073709551615" "0 \<le> int n * x"
    using Suc.prems assms(1) by (auto simp: algebra_simps)
  have "u64 (int n * x) = int n * x" using n by (intro u64_id) auto
  moreover have "int n * x \<notin> fst ` set (map (\<lambda>i. (int i * x, int i)) [0..<n])"
    using assms(1) by auto
  then have "AList.update (int n * x) (int n) (map (\<lambda>i. (int i * x, int i)) [0..<n]) =
      map (\<lambda>i. (int i * x, int i)) [0..<n] @ [(int n * x, int n)]"
    by (rule update_new)
  ultimately show ?case using Suc.IH n(1) by simp
qed simp

text \<open>
  The static lookup splits the hash space into \<open>numOfRoutes\<close> ranges of equal width, the
  last one taking the remainder: the route of a hash \<open>h\<close> is \<open>h\<close> divided by the width, at most
  the last route. It never panics on a hash of 64 bits, and the route is a valid index.
\<close>

theorem static_lookup_ranges:
  assumes "0 < n" "n < 2 ^ 63" and "NewStaticLookup n = Some l"
    and "0 \<le> hash s" "hash s < 2 ^ 64"
  shows "StaticLookup_Lookup hash l s = Some (min (hash s div (18446744073709551615 div n)) (n - 1))
    \<and> 0 \<le> min (hash s div (18446744073709551615 div n)) (n - 1)
    \<and> min (hash s div (18446744073709551615 div n)) (n - 1) < n"
proof -
  let ?x = "18446744073709551615 div n"
  have x: "0 < ?x" using assms(1,2) by (simp add: pos_imp_zdiv_pos_iff)
  have "n * ?x \<le> 18446744073709551615"
    using le_div_iff [of n ?x 18446744073709551615] assms(1) by (simp add: mult.commute)
  then have "sl_tree l = map (\<lambda>i. (int i * ?x, int i)) [0..<nat n]"
    using assms(1,3) static_tree [OF x, of "nat n"] by (auto simp: NewStaticLookup_def Let_def)
  moreover have "0 \<le> hash s div ?x" using assms(4) x by (simp add: pos_imp_zdiv_nonneg_iff)
  ultimately show ?thesis
    using tree_Floor_upto [OF x assms(4), of "nat n"] assms(1,2)
    by (auto simp: StaticLookup_Lookup_def i64_id)
qed

theorem static_lookup_ranges_witness:
  "StaticLookup_Lookup (\<lambda>s. 18446744073709551615) (the (NewStaticLookup 3)) ''id'' = Some 2"
  using static_lookup_ranges [of 3 "the (NewStaticLookup 3)" "\<lambda>s. 18446744073709551615" "''id''"]
  by (simp add: NewStaticLookup_def)

end
