(* ===== verification/Replication.thy ===== *)
theory Replication
  imports Persistence Routing
begin

text \<open>
  The storage of a cluster (\<open>internal/storage\<close>): a sample goes to the appenders of all nodes
  that hold its metric (\<open>replicated_appender.go\<close>, \<open>replicated_storage.go\<close>,
  \<open>remote_appender.go\<close>), a query is answered by the local store or by one of the nodes that
  hold the metric, with failover and retries (\<open>replicated_querier.go\<close>, \<open>remote_querier.go\<close>,
  \<open>exponential_ticker.go\<close>), and scraped samples come in milliseconds (\<open>scrape_appender.go\<close>).
  What a querier does depends on the state \<open>'w\<close> of the network and of the other nodes. A call
  returns, panics, or waits for ever.
\<close>

section \<open>Appending to the nodes\<close>

text \<open>
  \<open>ra_buffer\<close> is what has been set into the ring buffer that the batcher of the node reads, in
  order. The buffer has 16384 slots: of a batcher that falls behind by more, it overwrites points.
\<close>

record remoteAppender =
  ra_points :: "point list"
  ra_targetNodeIndex :: string
  ra_buffer :: "point list"

definition NewRemoteAppender :: "string \<Rightarrow> remoteAppender" where
  "NewRemoteAppender targetNodeIndex = \<lparr>ra_points = [], ra_targetNodeIndex = targetNodeIndex, ra_buffer = []\<rparr>"

definition remote_point :: "labels \<times> int \<times> float64 \<Rightarrow> point" where
  "remote_point s =
     \<lparr>p_Name = labels_Get (fst s) MetricName, p_Timestamp = fst (snd s), p_Value = snd (snd s),
      p_Labels = labels_Map (fst s)\<rparr>"

definition ra_Add :: "labels \<times> int \<times> float64 \<Rightarrow> remoteAppender \<Rightarrow> remoteAppender" where
  "ra_Add s a = a\<lparr>ra_points := ra_points a @ [remote_point s]\<rparr>"

definition ra_Commit :: "remoteAppender \<Rightarrow> remoteAppender" where
  "ra_Commit a =
     (let a = foldl (\<lambda>a p. a\<lparr>ra_buffer := ra_buffer a @ [p]\<rparr>) a (ra_points a) in a\<lparr>ra_points := []\<rparr>)"

datatype nodeAppender = LocalNode appender | RemoteNode remoteAppender

fun node_Add :: "labels \<times> int \<times> float64 \<Rightarrow> nodeAppender \<Rightarrow> nodeAppender" where
  "node_Add s (LocalNode a) = LocalNode (snd (Add (fst s) (fst (snd s)) (snd (snd s)) a))"
| "node_Add s (RemoteNode a) = RemoteNode (ra_Add s a)"

text \<open>A nil appender and an index out of range panic: \<open>None\<close>. Errors of the nodes are dropped.\<close>

fun add_nodes ::
    "nat list \<Rightarrow> labels \<times> int \<times> float64 \<Rightarrow> nodeAppender option list \<Rightarrow> nodeAppender option list option" where
  "add_nodes [] s apps = Some apps"
| "add_nodes (i # is) s apps =
     (if i < length apps
      then (case apps ! i of
              None \<Rightarrow> None
            | Some a \<Rightarrow> add_nodes is s (apps[i := Some (node_Add s a)]))
      else None)"

definition replicated_Add ::
    "(string \<Rightarrow> nat list) \<Rightarrow> labels \<times> int \<times> float64 \<Rightarrow> nodeAppender option list \<Rightarrow> nodeAppender option list option" where
  "replicated_Add lookup s apps = add_nodes (lookup (labels_Get (fst s) MetricName)) s apps"

text \<open>\<open>AddFast\<close> of a remote appender is not implemented and panics.\<close>

fun addFast_nodes ::
    "(point list \<Rightarrow> 'w \<Rightarrow> ('e + unit) \<times> 'w) \<Rightarrow> nat list \<Rightarrow> labels \<times> int \<times> float64 \<Rightarrow> nodeAppender option list \<Rightarrow>
     'w \<times> int \<Rightarrow> ('w \<times> int) option" where
  "addFast_nodes wr [] s apps wn = Some wn"
| "addFast_nodes wr (i # is) s apps wn =
     (if i < length apps
      then (case apps ! i of
              Some (LocalNode a) \<Rightarrow>
                addFast_nodes wr is s apps (snd (AddFast wr (fst s) (fst (snd s)) (snd (snd s)) a wn))
            | _ \<Rightarrow> None)
      else None)"

definition replicated_AddFast ::
    "(point list \<Rightarrow> 'w \<Rightarrow> ('e + unit) \<times> 'w) \<Rightarrow> (string \<Rightarrow> nat list) \<Rightarrow> labels \<times> int \<times> float64 \<Rightarrow>
     nodeAppender option list \<Rightarrow> 'w \<times> int \<Rightarrow> ('w \<times> int) option" where
  "replicated_AddFast wr lookup s apps wn = addFast_nodes wr (lookup (labels_Get (fst s) MetricName)) s apps wn"

fun replicated_Commit ::
    "(point list \<Rightarrow> 'w \<Rightarrow> ('e + unit) \<times> 'w) \<Rightarrow> nodeAppender option list \<Rightarrow> 'w \<times> int \<Rightarrow>
     (nodeAppender option list \<times> 'w \<times> int) option" where
  "replicated_Commit wr [] wn = Some ([], wn)"
| "replicated_Commit wr (None # apps) wn = None"
| "replicated_Commit wr (Some (LocalNode a) # apps) wn =
     (case Commit wr a wn of
        (_, a, wn) \<Rightarrow> map_option (\<lambda>(apps, wn). (Some (LocalNode a) # apps, wn)) (replicated_Commit wr apps wn))"
| "replicated_Commit wr (Some (RemoteNode a) # apps) wn =
     map_option (\<lambda>(apps, wn). (Some (RemoteNode (ra_Commit a)) # apps, wn)) (replicated_Commit wr apps wn)"

text \<open>The loop stops at an error of the local store, with the later appenders still nil.\<close>

fun create_from :: "nat \<Rightarrow> nat \<Rightarrow> string list \<Rightarrow> string + appender \<Rightarrow> nodeAppender option list \<times> string option" where
  "create_from localIndex i [] la = ([], None)"
| "create_from localIndex i (addr # addrs) la =
     (if i \<noteq> localIndex
      then (case create_from localIndex (Suc i) addrs la of
              (apps, e) \<Rightarrow> (Some (RemoteNode (NewRemoteAppender (format_uint i))) # apps, e))
      else (case la of
              Inl e \<Rightarrow> (replicate (Suc (length addrs)) None, Some e)
            | Inr a \<Rightarrow>
                (case create_from localIndex (Suc i) addrs la of (apps, e) \<Rightarrow> (Some (LocalNode a) # apps, e))))"

definition createAppenders :: "nat \<Rightarrow> string list \<Rightarrow> string + appender \<Rightarrow> nodeAppender option list \<times> string option" where
  "createAppenders localIndex internodeAddrs la = create_from localIndex 0 internodeAddrs la"

text \<open>
  Both errors of the constructor are dropped: without a routing table every later lookup
  panics.
\<close>

record replicatedStorage =
  rs_localIndex :: nat
  rs_nodeAddrs :: "string list"
  rs_appenders :: "nodeAppender option list"
  rs_routingTable :: "routingTable option"
  rs_replayerClosers :: "bool list"

definition NewReplicatedStorage ::
    "string + appender \<Rightarrow> nat \<Rightarrow> string list \<Rightarrow> string list \<Rightarrow> nat \<Rightarrow> replicatedStorage" where
  "NewReplicatedStorage la localIndex nodeAddrs internodeAddrs replicationFactor =
     \<lparr>rs_localIndex = localIndex, rs_nodeAddrs = nodeAddrs,
      rs_appenders = fst (createAppenders localIndex internodeAddrs la),
      rs_routingTable = (case NewRoutingTable localIndex nodeAddrs replicationFactor of
                           Inl _ \<Rightarrow> None | Inr t \<Rightarrow> Some t),
      rs_replayerClosers = map (\<lambda>_. False) (filter (\<lambda>i. i \<noteq> localIndex) [0..<length internodeAddrs])\<rparr>"

text \<open>
  \<open>Close\<close> closes the channels of the replayers, which panics the second time, and the
  connections; \<open>conns\<close> tells which of them fail to close. It reports the number of failures.
\<close>

definition storage_Close :: "bool list \<Rightarrow> replicatedStorage \<Rightarrow> (nat option \<times> replicatedStorage) outcome" where
  "storage_Close conns r =
     (if list_ex id (rs_replayerClosers r) then Panics
      else let failed = length (filter id conns)
           in Returns (if failed > 0 then Some failed else None,
                r\<lparr>rs_replayerClosers := map (\<lambda>_. True) (rs_replayerClosers r)\<rparr>))"

section \<open>Scraped samples\<close>

definition scrape_sample :: "labels \<times> int \<times> float64 \<Rightarrow> labels \<times> int \<times> float64" where
  "scrape_sample s = (fst s, MillisecondsToNanoseconds (fst (snd s)), snd (snd s))"

definition ScrapeAppender_Add ::
    "(string \<Rightarrow> nat list) \<Rightarrow> labels \<times> int \<times> float64 \<Rightarrow> nodeAppender option list \<Rightarrow> nodeAppender option list option" where
  "ScrapeAppender_Add lookup s apps = replicated_Add lookup (scrape_sample s) apps"

definition ScrapeAppender_AddFast ::
    "(point list \<Rightarrow> 'w \<Rightarrow> ('e + unit) \<times> 'w) \<Rightarrow> (string \<Rightarrow> nat list) \<Rightarrow> labels \<times> int \<times> float64 \<Rightarrow>
     nodeAppender option list \<Rightarrow> 'w \<times> int \<Rightarrow> ('w \<times> int) option" where
  "ScrapeAppender_AddFast wr lookup s apps wn = replicated_AddFast wr lookup (scrape_sample s) apps wn"

section \<open>Connection errors\<close>

text \<open>
  An error is a \<open>*net.OpError\<close>, one with a \<open>Cause\<close> method (of \<open>pkg/errors\<close>; the cause may be
  nil), one that wraps another (\<open>Unwrap\<close>), or any other.
\<close>

datatype goerr = OpError string | Causing "goerr option" | Wrapping string goerr | PlainError string

fun strip_cause :: "goerr \<Rightarrow> goerr option" where
  "strip_cause (Causing None) = None"
| "strip_cause (Causing (Some e)) = strip_cause e"
| "strip_cause e = Some e"

fun as_OpError :: "goerr \<Rightarrow> bool" where
  "as_OpError (OpError _) = True"
| "as_OpError (Wrapping _ e) = as_OpError e"
| "as_OpError _ = False"

definition isConnectionError :: "goerr option \<Rightarrow> bool" where
  "isConnectionError err =
     (case err of
        None \<Rightarrow> False
      | Some e \<Rightarrow> (case strip_cause e of None \<Rightarrow> False | Some e \<Rightarrow> as_OpError e))"

section \<open>Queriers\<close>

type_synonym 'ss ret = "'ss option \<times> string list \<times> goerr option"

abbreviation ret_err :: "'ss ret \<Rightarrow> goerr option" where
  "ret_err r \<equiv> snd (snd r)"

record ('w, 'ss) querier =
  q_Select :: "selectParams option \<Rightarrow> matcher list \<Rightarrow> 'w \<Rightarrow> 'ss ret \<times> 'w"
  q_LabelNames :: "'w \<Rightarrow> string list \<times> goerr option"
  q_LabelValues :: "string \<Rightarrow> 'w \<Rightarrow> string list \<times> goerr option"

text \<open>
  The remote querier translates the query, reads over HTTP and translates the answer; the
  client and the two translations (of Prometheus) are parameters.
\<close>

definition RemoteQuerier_Select ::
    "(selectParams option \<Rightarrow> matcher list \<Rightarrow> goerr + 'q) \<Rightarrow> ('q \<Rightarrow> 'w \<Rightarrow> (goerr + 'r) \<times> 'w) \<Rightarrow> ('r \<Rightarrow> 'ss) \<Rightarrow>
     selectParams option \<Rightarrow> matcher list \<Rightarrow> 'w \<Rightarrow> 'ss ret \<times> 'w" where
  "RemoteQuerier_Select toQuery read fromResult params matchers w =
     (case toQuery params matchers of
        Inl e \<Rightarrow> ((None, [], Some e), w)
      | Inr query \<Rightarrow>
          (case read query w of
             (Inl e, w) \<Rightarrow> ((None, [], Some e), w)
           | (Inr res, w) \<Rightarrow> ((Some (fromResult res), [], None), w)))"

definition RemoteQuerier_LabelValues ::
    "(string \<Rightarrow> 'w \<Rightarrow> goerr + string list) \<Rightarrow> string \<Rightarrow> 'w \<Rightarrow> string list \<times> goerr option" where
  "RemoteQuerier_LabelValues api name w =
     (case api name w of Inl e \<Rightarrow> ([], Some e) | Inr vs \<Rightarrow> (foldl (\<lambda>rs v. rs @ [v]) [] vs, None))"

text \<open>The constructor fails with the first of its three parts that does.\<close>

definition NewRemoteQuerier ::
    "goerr + 'c \<Rightarrow> goerr + 't \<Rightarrow> ('t \<Rightarrow> goerr + 'h) \<Rightarrow> ('c \<Rightarrow> 'h \<Rightarrow> ('w, 'ss) querier) \<Rightarrow> goerr + ('w, 'ss) querier" where
  "NewRemoteQuerier publicClient privateTLSConfig privateClient mk =
     (case publicClient of
        Inl e \<Rightarrow> Inl e
      | Inr c \<Rightarrow>
          (case privateTLSConfig of
             Inl e \<Rightarrow> Inl e
           | Inr t \<Rightarrow> (case privateClient t of Inl e \<Rightarrow> Inl e | Inr h \<Rightarrow> Inr (mk c h))))"

record ('w, 'ss) querierFactory =
  qf_localIndex :: nat
  qf_nodeAddrs :: "string list"
  qf_local :: "goerr + ('w, 'ss) querier"
  qf_remote :: "nat \<Rightarrow> string \<Rightarrow> goerr + ('w, 'ss) querier"

definition listIndexes :: "string list \<Rightarrow> nat list" where
  "listIndexes nodeAddrs = foldl (\<lambda>is i. is @ [i]) [] [0..<length nodeAddrs]"

text \<open>An address index out of range panics: \<open>None\<close>.\<close>

definition createQuerier :: "('w, 'ss) querierFactory \<Rightarrow> nat \<Rightarrow> (goerr + ('w, 'ss) querier) option" where
  "createQuerier f i =
     (if i = qf_localIndex f then Some (qf_local f)
      else if i < length (qf_nodeAddrs f) then Some (qf_remote f i (qf_nodeAddrs f ! i)) else None)"

fun build_queriers :: "('w, 'ss) querierFactory \<Rightarrow> nat list \<Rightarrow> ('w, 'ss) querier list option" where
  "build_queriers f [] = Some []"
| "build_queriers f (i # is) =
     (case createQuerier f i of
        None \<Rightarrow> None
      | Some (Inl _) \<Rightarrow> build_queriers f is
      | Some (Inr q) \<Rightarrow> map_option ((#) q) (build_queriers f is))"

definition factory_Build :: "('w, 'ss) querierFactory \<Rightarrow> nat list option \<Rightarrow> ('w, 'ss) querier list option" where
  "factory_Build f nodeIndexes =
     build_queriers f (case nodeIndexes of None \<Rightarrow> listIndexes (qf_nodeAddrs f) | Some is \<Rightarrow> is)"

definition extractMetricName :: "matcher list \<Rightarrow> goerr + string" where
  "extractMetricName matchers =
     (case find (\<lambda>m. m_Name m = MetricName) matchers of
        None \<Rightarrow> Inl (PlainError ''no metric name present'')
      | Some m \<Rightarrow>
          if m_Type m \<noteq> MatchEqual
          then Inl (PlainError ''only strict equality is supported for metric names'') else Inr (m_Value m))"

text \<open>The loop over the queriers; \<open>err\<close> is the error of the last one.\<close>

fun try_queriers ::
    "('w, 'ss) querier list \<Rightarrow> selectParams option \<Rightarrow> matcher list \<Rightarrow> goerr option \<Rightarrow> 'w \<Rightarrow> 'ss ret \<times> 'w" where
  "try_queriers [] params matchers err w =
     ((None, [], Some (case err of None \<Rightarrow> PlainError ''metric does not exist on available nodes'' | Some e \<Rightarrow> e)), w)"
| "try_queriers (q # qs) params matchers err w =
     (case q_Select q params matchers w of
        (r, w) \<Rightarrow> if \<not> isConnectionError (ret_err r) then (r, w) else try_queriers qs params matchers (ret_err r) w)"

definition queryWithNodeFailover ::
    "('w, 'ss) querierFactory \<Rightarrow> ('w \<Rightarrow> nat list \<Rightarrow> nat list) \<Rightarrow> nat list \<Rightarrow> selectParams option \<Rightarrow> matcher list \<Rightarrow> 'w \<Rightarrow>
     ('ss ret \<times> 'w) outcome" where
  "queryWithNodeFailover f shuffle nodes params matchers w =
     (case factory_Build f (Some (shuffle w nodes)) of
        None \<Rightarrow> Panics
      | Some queriers \<Rightarrow> Returns (try_queriers queriers params matchers None w))"

text \<open>
  The retry loop. \<open>ticks\<close> has, for every tick the ticker delivers, what happens to the
  network while waiting for it; after the last one the loop waits for ever.
\<close>

fun retryQueryWithBackoff ::
    "('w, 'ss) querierFactory \<Rightarrow> ('w \<Rightarrow> nat list \<Rightarrow> nat list) \<Rightarrow> ('w \<Rightarrow> 'w) list \<Rightarrow> nat list \<Rightarrow> selectParams option \<Rightarrow>
     matcher list \<Rightarrow> 'w \<Rightarrow> ('ss ret \<times> 'w) outcome" where
  "retryQueryWithBackoff f shuffle [] nodes params matchers w = Blocks"
| "retryQueryWithBackoff f shuffle (wait # ticks) nodes params matchers w =
     (case queryWithNodeFailover f shuffle nodes params matchers (wait w) of
        Returns ((result, warnings, err), w) \<Rightarrow>
          if err = None then Returns ((result, warnings, None), w)
          else if \<not> isConnectionError err then Returns ((None, warnings, err), w)
          else retryQueryWithBackoff f shuffle ticks nodes params matchers w
      | Panics \<Rightarrow> Panics
      | Blocks \<Rightarrow> Blocks)"

definition queryWithRetries ::
    "('w, 'ss) querierFactory \<Rightarrow> ('w \<Rightarrow> nat list \<Rightarrow> nat list) \<Rightarrow> ('w \<Rightarrow> 'w) list \<Rightarrow> nat list \<Rightarrow> selectParams option \<Rightarrow>
     matcher list \<Rightarrow> 'w \<Rightarrow> ('ss ret \<times> 'w) outcome" where
  "queryWithRetries f shuffle ticks nodes params matchers w =
     (case queryWithNodeFailover f shuffle nodes params matchers w of
        Returns (r, w) \<Rightarrow>
          if isConnectionError (ret_err r) then retryQueryWithBackoff f shuffle ticks nodes params matchers w
          else Returns (r, w)
      | Panics \<Rightarrow> Panics
      | Blocks \<Rightarrow> Blocks)"

definition replicated_Select ::
    "('w, 'ss) querierFactory \<Rightarrow> (string \<Rightarrow> nat list) \<Rightarrow> (string \<Rightarrow> bool) \<Rightarrow> ('w \<Rightarrow> nat list \<Rightarrow> nat list) \<Rightarrow> ('w \<Rightarrow> 'w) list \<Rightarrow>
     selectParams option \<Rightarrow> matcher list \<Rightarrow> 'w \<Rightarrow> ('ss ret \<times> 'w) outcome" where
  "replicated_Select f lookup isLocal shuffle ticks params matchers w =
     (case extractMetricName matchers of
        Inl e \<Rightarrow> Returns ((None, [], Some e), w)
      | Inr metricName \<Rightarrow>
          if isLocal metricName
          then (case qf_local f of
                  Inl e \<Rightarrow> Returns ((None, [], Some e), w)
                | Inr q \<Rightarrow> Returns (q_Select q params matchers w))
          else queryWithRetries f shuffle ticks (lookup metricName) params matchers w)"

section \<open>Label names and values\<close>

definition replicated_LabelNames :: "('w, 'ss) querierFactory \<Rightarrow> 'w \<Rightarrow> string list option" where
  "replicated_LabelNames f w =
     map_option (\<lambda>qs. sort (remdups (concat (map (\<lambda>q. fst (q_LabelNames q w)) qs)))) (factory_Build f None)"

fun mergeTwoStringSlices :: "string list \<Rightarrow> string list \<Rightarrow> string list" where
  "mergeTwoStringSlices [] b = b"
| "mergeTwoStringSlices a [] = a"
| "mergeTwoStringSlices (x # a) (y # b) =
     (if x = y then x # mergeTwoStringSlices a b
      else if x < y then x # mergeTwoStringSlices a (y # b)
      else y # mergeTwoStringSlices (x # a) b)"

lemma second_half_shorter: "ss \<noteq> [] \<Longrightarrow> length ss \<noteq> Suc 0 \<Longrightarrow> length ss - length ss div 2 < length ss"
  by (rule diff_less) (cases ss; auto simp: div_greater_zero_iff Suc_le_eq)+

function mergeStringSlices :: "string list list \<Rightarrow> string list" where
  "mergeStringSlices ss =
     (if length ss = 0 then []
      else if length ss = 1 then ss ! 0
      else if length ss = 2 then mergeTwoStringSlices (ss ! 0) (ss ! 1)
      else mergeTwoStringSlices (mergeStringSlices (take (length ss div 2) ss))
             (mergeStringSlices (drop (length ss div 2) ss)))"
  by pat_completeness auto
termination
  by (relation "measure length") (auto intro: second_half_shorter)

declare mergeStringSlices.simps [simp del]

definition replicated_LabelValues :: "('w, 'ss) querierFactory \<Rightarrow> string \<Rightarrow> 'w \<Rightarrow> string list option" where
  "replicated_LabelValues f name w =
     map_option (\<lambda>qs. mergeStringSlices (map (\<lambda>q. fst (q_LabelValues q name w)) qs)) (factory_Build f None)"

section \<open>The ticker\<close>

text \<open>Durations are nanoseconds. A delay of 0 means the default, and a limit of 0 none.\<close>

record tickerConfig =
  tc_BaseDelay :: int
  tc_Multiplier :: real
  tc_MaxDelay :: int

definition validateConfig :: "tickerConfig \<Rightarrow> tickerConfig option" where
  "validateConfig cfg =
     (if tc_BaseDelay cfg < 0 then None
      else let cfg = (if tc_BaseDelay cfg = 0 then cfg\<lparr>tc_BaseDelay := 100000000\<rparr> else cfg)
           in if tc_Multiplier cfg < 0 then None
              else let cfg = (if tc_Multiplier cfg = 0 then cfg\<lparr>tc_Multiplier := 2\<rparr> else cfg)
                   in if tc_MaxDelay cfg < 0 then None else Some cfg)"

definition next_delay :: "tickerConfig \<Rightarrow> int \<Rightarrow> int" where
  "next_delay cfg delay =
     (let n = of_int delay * tc_Multiplier cfg
      in \<lfloor>if tc_MaxDelay cfg \<noteq> 0 then min n (of_int (tc_MaxDelay cfg)) else n\<rfloor>)"

text \<open>
  The times of the ticks. \<open>deadline\<close> is when the context ends, which the loop looks at before
  every sleep; \<open>busy\<close> has, for every tick, how long it waits until the receiver takes it.
\<close>

fun tick_times :: "tickerConfig \<Rightarrow> int \<Rightarrow> int list \<Rightarrow> int \<Rightarrow> int \<Rightarrow> int list" where
  "tick_times cfg deadline [] t delay = []"
| "tick_times cfg deadline (b # busy) t delay =
     (if deadline \<le> t then []
      else (t + delay + b) # tick_times cfg deadline busy (t + delay + b) (next_delay cfg delay))"

text \<open>The ticker of the retry loop of a query.\<close>

definition retry_config :: tickerConfig where
  "retry_config = \<lparr>tc_BaseDelay = 0, tc_Multiplier = 0, tc_MaxDelay = 30 * 1000000000\<rparr>"

section \<open>Merged label values\<close>

lemma mergeTwo_sorted:
  assumes "sorted_wrt (<) a" "sorted_wrt (<) b"
  shows "sorted_wrt (<) (mergeTwoStringSlices a b) \<and> set (mergeTwoStringSlices a b) = set a \<union> set b"
  using assms
  by (induction a b rule: mergeTwoStringSlices.induct) (auto simp: not_less intro: less_trans)

lemma mergeStringSlices_sorted:
  assumes "\<forall>s \<in> set ss. sorted_wrt (<) s"
  shows "sorted_wrt (<) (mergeStringSlices ss) \<and> set (mergeStringSlices ss) = \<Union> (set ` set ss)"
  using assms
proof (induction ss rule: mergeStringSlices.induct)
  case (1 ss)
  consider "ss = []" | a where "ss = [a]" | a b where "ss = [a, b]" | "2 < length ss"
    by (metis One_nat_def Suc_1 length_0_conv length_Suc_conv less_2_cases linorder_neqE_nat)
  then show ?case
  proof cases
    case 4
    let ?h = "length ss div 2"
    have "set ss = set (take ?h ss) \<union> set (drop ?h ss)"
      by (metis append_take_drop_id set_append)
    moreover have "mergeStringSlices ss =
        mergeTwoStringSlices (mergeStringSlices (take ?h ss)) (mergeStringSlices (drop ?h ss))"
      using 4 by (subst mergeStringSlices.simps) auto
    moreover have "\<forall>s \<in> set (take ?h ss). sorted_wrt (<) s" "\<forall>s \<in> set (drop ?h ss). sorted_wrt (<) s"
      using 1(3) by (auto dest: in_set_takeD in_set_dropD)
    then have "sorted_wrt (<) (mergeStringSlices (take ?h ss))" "sorted_wrt (<) (mergeStringSlices (drop ?h ss))"
      "set (mergeStringSlices (take ?h ss)) = \<Union> (set ` set (take ?h ss))"
      "set (mergeStringSlices (drop ?h ss)) = \<Union> (set ` set (drop ?h ss))"
      using 1(1,2) 4 by (cases "ss = []"; simp)+
    ultimately show ?thesis using mergeTwo_sorted by (simp only: Union_Un_distrib image_Un)
  qed (use 1 mergeTwo_sorted in \<open>auto simp: mergeStringSlices.simps\<close>)
qed

text \<open>
  C34: The merge of sorted lists by halves is the sorted list of their union: when every node
  answers with its label values in order and without repetition, the cluster answers with
  every value of some node once, in order.
\<close>

theorem label_values_union:
  assumes "factory_Build f None = Some qs"
    and "\<forall>q \<in> set qs. sorted_wrt (<) (fst (q_LabelValues q name w))"
  shows "replicated_LabelValues f name w = Some (sorted_list_of_set (\<Union>q \<in> set qs. set (fst (q_LabelValues q name w))))"
proof -
  let ?ss = "map (\<lambda>q. fst (q_LabelValues q name w)) qs"
  have "sorted_wrt (<) (mergeStringSlices ?ss)" "set (mergeStringSlices ?ss) = \<Union> (set ` set ?ss)"
    using mergeStringSlices_sorted [of ?ss] assms(2) by auto
  then have "mergeStringSlices ?ss = sorted_list_of_set (\<Union> (set ` set ?ss))"
    by (metis sorted_list_of_set.idem_if_sorted_distinct strict_sorted_iff)
  then show ?thesis using assms(1) by (simp add: replicated_LabelValues_def)
qed

definition ex_querier :: "string list \<Rightarrow> goerr option \<Rightarrow> (nat, nat) querier" where
  "ex_querier vs e =
     \<lparr>q_Select = (\<lambda>params ms w. ((if e = None then Some w else None, [], e), Suc w)),
      q_LabelNames = (\<lambda>w. (vs, e)), q_LabelValues = (\<lambda>name w. (vs, e))\<rparr>"

definition ex_factory :: "goerr option \<Rightarrow> (nat, nat) querierFactory" where
  "ex_factory e =
     \<lparr>qf_localIndex = 0, qf_nodeAddrs = [''a'', ''b'', ''c''], qf_local = Inr (ex_querier [''x'', ''y''] None),
      qf_remote = (\<lambda>i addr. if i = 1 then Inr (ex_querier [''w'', ''y''] (Some (OpError ''dial'')))
                            else Inr (ex_querier [''w'', ''z''] e))\<rparr>"

theorem label_values_union_witness:
  "replicated_LabelValues (ex_factory None) ''l'' 0 = Some [''w'', ''x'', ''y'', ''z'']"
proof -
  have b: "factory_Build (ex_factory None) None =
      Some [ex_querier [''x'', ''y''] None, ex_querier [''w'', ''y''] (Some (OpError ''dial'')), ex_querier [''w'', ''z''] None]"
    by (simp add: factory_Build_def ex_factory_def listIndexes_def createQuerier_def upt_rec)
  have "replicated_LabelValues (ex_factory None) ''l'' 0 =
      Some (sorted_list_of_set (set [''x'', ''y''] \<union> set [''w'', ''y''] \<union> set [''w'', ''z'']))"
    using label_values_union [OF b, of "''l''" 0] by (simp add: ex_querier_def insert_commute)
  moreover have "sorted_list_of_set (set [''x'', ''y''] \<union> set [''w'', ''y''] \<union> set [''w'', ''z'']) = [''w'', ''x'', ''y'', ''z'']"
  proof -
    have "set [''x'', ''y''] \<union> set [''w'', ''y''] \<union> set [''w'', ''z''] = set [''w'', ''x'', ''y'', ''z'']" by auto
    moreover have "sorted [''w'', ''x'', ''y'', ''z'']" "distinct [''w'', ''x'', ''y'', ''z'']" by code_simp+
    ultimately show ?thesis by (metis sorted_list_of_set.idem_if_sorted_distinct)
  qed
  ultimately show ?thesis by simp
qed

section \<open>Retries\<close>

lemma next_delay_bounds:
  assumes "1 \<le> tc_Multiplier cfg" "0 < base" "base \<le> d"
    and "tc_MaxDelay cfg \<noteq> 0 \<longrightarrow> base \<le> tc_MaxDelay cfg"
  shows "base \<le> next_delay cfg d" and "tc_MaxDelay cfg \<noteq> 0 \<Longrightarrow> next_delay cfg d \<le> tc_MaxDelay cfg"
proof -
  have "real_of_int base \<le> of_int d * tc_Multiplier cfg"
    using assms(1-3) mult_mono [of "real_of_int base" "of_int d" 1 "tc_Multiplier cfg"] by simp
  then show "base \<le> next_delay cfg d"
    using assms(4) by (auto simp: next_delay_def le_floor_iff Let_def)
  show "next_delay cfg d \<le> tc_MaxDelay cfg" if "tc_MaxDelay cfg \<noteq> 0"
    using that by (simp add: next_delay_def floor_le_iff Let_def)
qed

lemma tick_times_length:
  assumes "1 \<le> tc_Multiplier cfg" "0 < base" "tc_MaxDelay cfg \<noteq> 0 \<longrightarrow> base \<le> tc_MaxDelay cfg"
    and "\<forall>b \<in> set busy. 0 \<le> b" "base \<le> d"
  shows "int (length (tick_times cfg deadline busy t d)) \<le> max 0 ((deadline - t + base - 1) div base)"
  using assms(4,5)
proof (induction busy arbitrary: t d)
  case (Cons b busy)
  show ?case
  proof (cases "deadline \<le> t")
    case False
    let ?t = "t + d + b"
    have b: "0 \<le> b" "\<forall>b \<in> set busy. 0 \<le> b" using Cons.prems(1) by auto
    have "int (length (tick_times cfg deadline busy ?t (next_delay cfg d))) \<le> max 0 ((deadline - ?t + base - 1) div base)"
      using Cons.IH [OF b(2)] next_delay_bounds(1) [OF assms(1,2) Cons.prems(2) assms(3)] by blast
    also have "(deadline - ?t + base - 1) div base \<le> (deadline - t - 1) div base"
      using b(1) Cons.prems(2) assms(2) by (intro zdiv_mono1) auto
    also have "\<dots> = (deadline - t + base - 1) div base - 1"
    proof -
      have "deadline - t + base - 1 = (deadline - t - 1) + base" by simp
      then show ?thesis using div_add_self2 [of base "deadline - t - 1"] assms(2) by (simp only:)
    qed
    finally have "int (length (tick_times cfg deadline busy ?t (next_delay cfg d))) \<le> max 0 ((deadline - t + base - 1) div base - 1)"
      by simp
    moreover have "1 \<le> (deadline - t + base - 1) div base"
      using zdiv_mono1 [of base "deadline - t + base - 1" base] False assms(2) by simp
    ultimately show ?thesis using False by simp
  qed simp
qed simp

lemma retry_delays:
  assumes "cfg = \<lparr>tc_BaseDelay = base, tc_Multiplier = 2, tc_MaxDelay = mx\<rparr>" "0 < base" "base \<le> mx"
  shows "(next_delay cfg ^^ n) base = min (base * 2 ^ n) mx"
proof (induction n)
  case 0
  then show ?case using assms by simp
next
  case (Suc n)
  have "next_delay cfg d = min (d * 2) mx" if "0 < d" for d
  proof -
    have "next_delay cfg d = \<lfloor>min (real_of_int (d * 2)) (real_of_int mx)\<rfloor>"
      using assms by (simp add: next_delay_def)
    also have "\<dots> = min (d * 2) mx" by (metis floor_of_int of_int_min)
    finally show ?thesis .
  qed
  moreover have "0 < min (base * 2 ^ n) mx" using assms by simp
  ultimately show ?case using Suc assms by (auto simp: min_def mult.commute mult.left_commute)
qed

text \<open>
  The retries of a query wait 100 milliseconds before the first attempt and twice as long
  before each next one, up to 30 seconds; and however long the attempts take, there are at
  most as many as intervals of 100 milliseconds fit until the query's context ends.
\<close>

theorem retry_backoff:
  assumes "validateConfig retry_config = Some cfg" and "\<forall>b \<in> set busy. 0 \<le> b"
  shows "(next_delay cfg ^^ n) (tc_BaseDelay cfg) = min (100000000 * 2 ^ n) 30000000000
    \<and> int (length (tick_times cfg deadline busy t (tc_BaseDelay cfg))) \<le>
        max 0 ((deadline - t + 99999999) div 100000000)"
proof -
  have cfg: "cfg = \<lparr>tc_BaseDelay = 100000000, tc_Multiplier = 2, tc_MaxDelay = 30000000000\<rparr>"
    using assms(1) by (simp add: validateConfig_def retry_config_def)
  then show ?thesis
    using retry_delays [OF cfg, of n] tick_times_length [of cfg 100000000 busy 100000000 deadline t] assms(2) by simp
qed

theorem retry_backoff_witness:
  "\<exists>cfg. validateConfig retry_config = Some cfg
     \<and> (next_delay cfg ^^ 9) (tc_BaseDelay cfg) = 30000000000
     \<and> int (length (tick_times cfg 1000000000 [0, 5, 0, 0, 0, 0, 0, 0, 0, 0, 0, 0] 0 (tc_BaseDelay cfg))) \<le> 10"
proof -
  obtain cfg where cfg: "validateConfig retry_config = Some cfg"
    by (simp add: validateConfig_def retry_config_def)
  then show ?thesis
    using retry_backoff [OF cfg, of "[0, 5, 0, 0, 0, 0, 0, 0, 0, 0, 0, 0]" 9 1000000000 0] by auto
qed

section \<open>Failover\<close>

lemma build_queriers_some:
  assumes "\<forall>i \<in> set is. i < length (qf_nodeAddrs f)" "qf_localIndex f \<notin> set is"
  shows "\<exists>qs. build_queriers f is = Some qs \<and> set qs = {q. \<exists>i \<in> set is. qf_remote f i (qf_nodeAddrs f ! i) = Inr q}"
  using assms
proof (induction "is")
  case (Cons i js)
  then obtain qs where "build_queriers f js = Some qs"
    "set qs = {q. \<exists>i \<in> set js. qf_remote f i (qf_nodeAddrs f ! i) = Inr q}" by auto
  then show ?case
    using Cons.prems by (cases "qf_remote f i (qf_nodeAddrs f ! i)") (auto simp: createQuerier_def)
qed simp

lemma try_queriers_answer:
  assumes "q \<in> set qs" "\<And>w. \<not> isConnectionError (ret_err (fst (q_Select q params matchers w)))"
  shows "\<exists>q' \<in> set qs. \<exists>w0. try_queriers qs params matchers err w = q_Select q' params matchers w0
    \<and> \<not> isConnectionError (ret_err (fst (q_Select q' params matchers w0)))"
  using assms(1)
proof (induction qs arbitrary: err w)
  case (Cons q1 qs)
  obtain r w1 where r: "q_Select q1 params matchers w = (r, w1)" by fastforce
  show ?case
  proof (cases "isConnectionError (ret_err r)")
    case True
    then have "q \<noteq> q1" using assms(2) [of w] r by auto
    then have "q \<in> set qs" using Cons.prems by simp
    from Cons.IH [OF this, of "ret_err r" w1] show ?thesis using r True by auto
  next
    case False
    then have "try_queriers (q1 # qs) params matchers err w = q_Select q1 params matchers w"
      "\<not> isConnectionError (ret_err (fst (q_Select q1 params matchers w)))" using r by simp_all
    then show ?thesis by (meson list.set_intros(1))
  qed
qed simp

lemma try_queriers_fail:
  assumes "qs \<noteq> []" "\<And>q w. q \<in> set qs \<Longrightarrow> isConnectionError (ret_err (fst (q_Select q params matchers w)))"
  shows "isConnectionError (ret_err (fst (try_queriers qs params matchers err w)))"
  using assms
proof (induction qs arbitrary: err w)
  case (Cons q1 qs)
  obtain r w1 where r: "q_Select q1 params matchers w = (r, w1)" by fastforce
  then have c: "isConnectionError (ret_err r)" using Cons.prems(2) [of q1 w] by simp
  show ?case
  proof (cases qs)
    case Nil
    then show ?thesis using r c by (auto simp: isConnectionError_def split: option.splits)
  next
    case (Cons q2 rest)
    then show ?thesis using Cons.IH [of "ret_err r" w1] Cons.prems r c by simp
  qed
qed simp

text \<open>The replicas of a metric that is not local, as the querier sees them.\<close>

definition remote_replicas :: "('w, 'ss) querierFactory \<Rightarrow> nat list \<Rightarrow> bool" where
  "remote_replicas f nodes \<longleftrightarrow> (\<forall>i \<in> set nodes. i < length (qf_nodeAddrs f)) \<and> qf_localIndex f \<notin> set nodes"

lemma failover_queriers:
  assumes "remote_replicas f nodes" "\<forall>w ns. mset (shuffle w ns) = mset ns"
  obtains qs where "\<And>params matchers. queryWithNodeFailover f shuffle nodes params matchers w =
      Returns (try_queriers qs params matchers None w)"
    "set qs = {q. \<exists>i \<in> set nodes. qf_remote f i (qf_nodeAddrs f ! i) = Inr q}"
proof -
  have "set (shuffle w nodes) = set nodes" using assms(2) by (metis mset_eq_setD)
  then obtain qs where "build_queriers f (shuffle w nodes) = Some qs"
    "set qs = {q. \<exists>i \<in> set nodes. qf_remote f i (qf_nodeAddrs f ! i) = Inr q}"
    using build_queriers_some [of "shuffle w nodes" f] assms(1) by (auto simp: remote_replicas_def)
  then show ?thesis using that by (simp add: queryWithNodeFailover_def factory_Build_def)
qed

text \<open>
  C14: A query for a metric of other nodes is answered as soon as one of its replicas can be
  reached: the call returns, without a retry, the answer of one of the replicas to this very
  query, and that answer is not a connection error, whatever the other replicas do and in
  whatever order they are asked.
\<close>

theorem reachable_replica_answers:
  assumes "extractMetricName matchers = Inr name" "\<not> isLocal name"
    and "remote_replicas f (lookup name)" "\<forall>w ns. mset (shuffle w ns) = mset ns"
    and "i \<in> set (lookup name)" "qf_remote f i (qf_nodeAddrs f ! i) = Inr q"
    and "\<forall>w. \<not> isConnectionError (ret_err (fst (q_Select q params matchers w)))"
  shows "\<exists>j \<in> set (lookup name). \<exists>q' w0. qf_remote f j (qf_nodeAddrs f ! j) = Inr q'
    \<and> replicated_Select f lookup isLocal shuffle ticks params matchers w = Returns (q_Select q' params matchers w0)
    \<and> \<not> isConnectionError (ret_err (fst (q_Select q' params matchers w0)))"
proof -
  obtain qs where qs: "\<And>params matchers. queryWithNodeFailover f shuffle (lookup name) params matchers w =
      Returns (try_queriers qs params matchers None w)"
    "set qs = {q. \<exists>i \<in> set (lookup name). qf_remote f i (qf_nodeAddrs f ! i) = Inr q}"
    using failover_queriers [OF assms(3,4)] by blast
  have "q \<in> set qs" using assms(5,6) qs(2) by blast
  from try_queriers_answer [OF this] assms(7) obtain q' w0 where q': "q' \<in> set qs"
    "try_queriers qs params matchers None w = q_Select q' params matchers w0"
    "\<not> isConnectionError (ret_err (fst (q_Select q' params matchers w0)))" by blast
  moreover obtain r w1 where "q_Select q' params matchers w0 = (r, w1)" by fastforce
  ultimately have "replicated_Select f lookup isLocal shuffle ticks params matchers w = Returns (q_Select q' params matchers w0)"
    using assms(1,2) qs(1) [of params matchers] by (simp add: replicated_Select_def queryWithRetries_def)
  then show ?thesis using q' qs(2) by blast
qed

definition name_is :: "string \<Rightarrow> matcher list" where
  "name_is n = [\<lparr>m_Type = MatchEqual, m_Name = MetricName, m_Value = n\<rparr>]"

lemma ex_remotes:
  "qf_remote (ex_factory e) (Suc 0) (qf_nodeAddrs (ex_factory e) ! Suc 0) = Inr (ex_querier [''w'', ''y''] (Some (OpError ''dial'')))"
  "qf_remote (ex_factory e) 2 (qf_nodeAddrs (ex_factory e) ! 2) = Inr (ex_querier [''w'', ''z''] e)"
  by (simp_all add: ex_factory_def)

theorem reachable_replica_answers_witness:
  "\<exists>w0. replicated_Select (ex_factory None) (\<lambda>_. [1, 2]) (\<lambda>_. False) (\<lambda>w. id) [] None (name_is ''m'') 0 =
     Returns ((Some w0, [], None), Suc w0)"
proof -
  have "extractMetricName (name_is ''m'') = Inr ''m''" by code_simp
  moreover have "remote_replicas (ex_factory None) [1, 2]" by (simp add: remote_replicas_def ex_factory_def)
  ultimately have "\<exists>j \<in> set [1, 2]. \<exists>q' w0. qf_remote (ex_factory None) j (qf_nodeAddrs (ex_factory None) ! j) = Inr q'
      \<and> replicated_Select (ex_factory None) (\<lambda>_. [1, 2]) (\<lambda>_. False) (\<lambda>w. id) [] None (name_is ''m'') 0 =
          Returns (q_Select q' None (name_is ''m'') w0)
      \<and> \<not> isConnectionError (ret_err (fst (q_Select q' None (name_is ''m'') w0)))"
    by (intro reachable_replica_answers [where i = 2 and q = "ex_querier [''w'', ''z''] None" and isLocal = "\<lambda>_. False"])
      (simp_all add: ex_remotes ex_querier_def isConnectionError_def)
  then show ?thesis by (auto simp: ex_remotes ex_querier_def isConnectionError_def)
qed



section \<open>Replicated writes\<close>

type_synonym sample = "labels \<times> int \<times> float64"

fun add_all :: "(string \<Rightarrow> nat list) \<Rightarrow> sample list \<Rightarrow> nodeAppender option list \<Rightarrow> nodeAppender option list option" where
  "add_all lookup [] apps = Some apps"
| "add_all lookup (s # ss) apps =
     (case replicated_Add lookup s apps of None \<Rightarrow> None | Some apps \<Rightarrow> add_all lookup ss apps)"

definition routed :: "(string \<Rightarrow> nat list) \<Rightarrow> nat \<Rightarrow> sample list \<Rightarrow> sample list" where
  "routed lookup i ss = filter (\<lambda>s. i \<in> set (lookup (labels_Get (fst s) MetricName))) ss"

fun node_adds :: "sample list \<Rightarrow> nodeAppender \<Rightarrow> nodeAppender" where
  "node_adds [] a = a"
| "node_adds (s # ss) a = node_adds ss (node_Add s a)"

lemma add_nodes_ok:
  assumes "distinct is" "\<forall>i \<in> set is. i < length apps" "None \<notin> set apps"
  shows "\<exists>apps'. add_nodes is s apps = Some apps' \<and> length apps' = length apps \<and> None \<notin> set apps'
    \<and> (\<forall>j < length apps. the (apps' ! j) = (if j \<in> set is then node_Add s (the (apps ! j)) else the (apps ! j)))"
  using assms
proof (induction "is" arbitrary: apps)
  case (Cons i js)
  obtain a where a: "apps ! i = Some a"
    using Cons.prems(2,3) by (metis list.set_intros(1) not_Some_eq nth_mem)
  let ?apps = "apps[i := Some (node_Add s a)]"
  have "None \<notin> set ?apps" using Cons.prems(3) set_update_subset_insert [of apps i] by auto
  then obtain apps' where "add_nodes js s ?apps = Some apps'" "length apps' = length apps" "None \<notin> set apps'"
    "\<forall>j < length apps. the (apps' ! j) = (if j \<in> set js then node_Add s (the (?apps ! j)) else the (?apps ! j))"
    using Cons.IH [of ?apps] Cons.prems by auto
  then show ?case using Cons.prems a by (auto simp: nth_list_update)
qed simp

context node_lookup
begin

text \<open>Every node gets the samples that are looked up to it, in order.\<close>

lemma add_all_routed:
  assumes "table_ok t (length apps) rf" "None \<notin> set apps"
  shows "\<exists>apps'. add_all (lookup t) ss apps = Some apps' \<and> length apps' = length apps \<and> None \<notin> set apps'
    \<and> (\<forall>i < length apps. the (apps' ! i) = node_adds (routed (lookup t) i ss) (the (apps ! i)))"
  using assms
proof (induction ss arbitrary: apps)
  case (Cons s ss)
  let ?is = "lookup t (labels_Get (fst s) MetricName)"
  have "distinct ?is" "\<forall>i \<in> set ?is. i < length apps"
    using nodes_distinct [OF Cons.prems(1)] nodes_valid [OF Cons.prems(1)] by blast+
  then obtain a1 where a1: "add_nodes ?is s apps = Some a1" "length a1 = length apps" "None \<notin> set a1"
    "\<forall>j < length apps. the (a1 ! j) = (if j \<in> set ?is then node_Add s (the (apps ! j)) else the (apps ! j))"
    using add_nodes_ok [OF _ _ Cons.prems(2)] by blast
  obtain a2 where a2: "add_all (lookup t) ss a1 = Some a2" "length a2 = length apps" "None \<notin> set a2"
    "\<forall>i < length apps. the (a2 ! i) = node_adds (routed (lookup t) i ss) (the (a1 ! i))"
    using Cons.IH [of a1] Cons.prems(1) a1(2,3) by auto
  have "the (a2 ! i) = node_adds (routed (lookup t) i (s # ss)) (the (apps ! i))" if "i < length apps" for i
    using that a1(4) a2(4) by (simp add: routed_def)
  then show ?case using a1(1) a2(1-3) by (simp add: replicated_Add_def)
qed (simp add: routed_def)

end

lemma node_adds_remote: "node_adds ss (RemoteNode a) = RemoteNode (a\<lparr>ra_points := ra_points a @ map remote_point ss\<rparr>)"
  by (induction ss arbitrary: a) (simp_all add: ra_Add_def)

lemma node_adds_local: "node_adds ss (LocalNode a) = LocalNode (add_samples ss a)"
  by (induction ss arbitrary: a) (auto simp: add_samples_def)

lemma ra_Commit_eq: "ra_Commit a = a\<lparr>ra_buffer := ra_buffer a @ ra_points a, ra_points := []\<rparr>"
proof -
  have "foldl (\<lambda>a p. a\<lparr>ra_buffer := ra_buffer a @ [p]\<rparr>) a ps = a\<lparr>ra_buffer := ra_buffer a @ ps\<rparr>" for a :: remoteAppender and ps
    by (induction ps arbitrary: a) simp_all
  then show ?thesis by (simp add: ra_Commit_def)
qed

text \<open>The appenders of a cluster: the local one at its index, remote ones elsewhere.\<close>

lemma create_from_nth:
  assumes "i < length addrs"
  shows "length (fst (create_from li k addrs (Inr a))) = length addrs"
    and "fst (create_from li k addrs (Inr a)) ! i =
      Some (if k + i = li then LocalNode a else RemoteNode (NewRemoteAppender (format_uint (k + i))))"
    and "snd (create_from li k addrs (Inr a)) = None"
proof -
  have "length (fst (create_from li k addrs (Inr a))) = length addrs \<and> snd (create_from li k addrs (Inr a)) = None
      \<and> (\<forall>i < length addrs. fst (create_from li k addrs (Inr a)) ! i =
        Some (if k + i = li then LocalNode a else RemoteNode (NewRemoteAppender (format_uint (k + i)))))"
  proof (induction addrs arbitrary: k)
    case (Cons addr addrs)
    obtain xs e where xs: "create_from li (Suc k) addrs (Inr a) = (xs, e)" by fastforce
    then have IH: "length xs = length addrs" "e = None" "\<And>i. i < length addrs \<Longrightarrow>
        xs ! i = Some (if Suc k + i = li then LocalNode a else RemoteNode (NewRemoteAppender (format_uint (Suc k + i))))"
      using Cons [of "Suc k"] by auto
    then show ?case using xs by (auto simp: less_Suc_eq_0_disj)
  qed simp
  then show "length (fst (create_from li k addrs (Inr a))) = length addrs"
    and "fst (create_from li k addrs (Inr a)) ! i =
      Some (if k + i = li then LocalNode a else RemoteNode (NewRemoteAppender (format_uint (k + i))))"
    and "snd (create_from li k addrs (Inr a)) = None" using assms by blast+
qed

definition local_appenders :: "nodeAppender option list \<Rightarrow> appender list" where
  "local_appenders apps = List.map_filter (\<lambda>x. case x of Some (LocalNode a) \<Rightarrow> Some a | _ \<Rightarrow> None) apps"

fun committed :: "nodeAppender \<Rightarrow> nodeAppender" where
  "committed (LocalNode a) = LocalNode (a\<lparr>ap_points := []\<rparr>)"
| "committed (RemoteNode a) = RemoteNode (ra_Commit a)"

lemma replicated_Commit_ok:
  assumes "None \<notin> set apps"
  shows "replicated_Commit wr apps wn =
    Some (map (map_option committed) apps, foldl (\<lambda>wn a. snd (snd (Commit wr a wn))) wn (local_appenders apps))"
  using assms
proof (induction wr apps wn rule: replicated_Commit.induct)
  case (3 wr a apps wn)
  obtain r a' wn' where c: "Commit wr a wn = (r, a', wn')" by (cases "Commit wr a wn")
  then have "a' = a\<lparr>ap_points := []\<rparr>" by (auto simp: Commit_def split: prod.splits sum.splits)
  then show ?case using 3 c by (simp add: local_appenders_def List.map_filter_simps)
qed (auto simp: local_appenders_def List.map_filter_simps)

lemma local_appenders_single:
  assumes "li < length apps" "apps ! li = Some (LocalNode a)"
    and "\<forall>i < length apps. i \<noteq> li \<longrightarrow> (\<exists>r. apps ! i = Some (RemoteNode r))"
  shows "local_appenders apps = [a]"
proof -
  let ?f = "\<lambda>x. case x of Some (LocalNode a) \<Rightarrow> Some a | _ \<Rightarrow> None"
  have remote: "List.map_filter ?f xs = []" if "\<forall>x \<in> set xs. \<exists>r. x = Some (RemoteNode r)" for xs
    using that by (induction xs) (auto simp: List.map_filter_simps)
  have "\<forall>x \<in> set (take li apps). \<exists>r. x = Some (RemoteNode r)" "\<forall>x \<in> set (drop (Suc li) apps). \<exists>r. x = Some (RemoteNode r)"
    using assms(3) by (auto simp: in_set_conv_nth)
  then have "List.map_filter ?f (take li apps @ apps ! li # drop (Suc li) apps) = [a]"
    using assms(2) remote by (simp add: List.map_filter_def)
  then show ?thesis unfolding local_appenders_def using assms(1) id_take_nth_drop by metis
qed

lemma cluster_write:
  assumes table: "made_table rt (length addrs) rf" and li: "li < length addrs" and a: "ap_points a = []"
    and apps: "createAppenders li addrs (Inr a) = (apps, e)"
  shows "\<exists>apps1 apps2. add_all (RoutingTable_Lookup sum64 jump rt) ss apps = Some apps1
    \<and> replicated_Commit wr apps1 wn =
        Some (apps2, snd (snd (Commit wr (add_samples (routed (RoutingTable_Lookup sum64 jump rt) li ss) a) wn)))
    \<and> (\<forall>i < length addrs. i \<noteq> li \<longrightarrow> (\<exists>r. apps2 ! i = Some (RemoteNode r) \<and> ra_points r = []
         \<and> ra_buffer r = map remote_point (routed (RoutingTable_Lookup sum64 jump rt) i ss)))
    \<and> (\<forall>s. card {i. i < length addrs \<and> s \<in> set (routed (RoutingTable_Lookup sum64 jump rt) i [s])} = rf)"
proof -
  let ?lk = "RoutingTable_Lookup sum64 jump rt"
  have n: "length apps = length addrs"
    and nth: "\<And>i. i < length addrs \<Longrightarrow> apps ! i = Some (if i = li then LocalNode a else RemoteNode (NewRemoteAppender (format_uint i)))"
    using create_from_nth [of _ addrs li 0 a] li apps by (force simp: createAppenders_def)+
  have "None \<notin> set apps" using nth n by (auto simp: in_set_conv_nth)
  then obtain a1 where a1: "add_all ?lk ss apps = Some a1" "length a1 = length addrs" "None \<notin> set a1"
    "\<forall>i < length addrs. the (a1 ! i) = node_adds (routed ?lk i ss) (the (apps ! i))"
    using table.add_all_routed [of rt apps rf sum64 jump ss] table n by auto
  have a1nth: "a1 ! i = Some (node_adds (routed ?lk i ss) (the (apps ! i)))" if "i < length addrs" for i
    using a1(2,3,4) that by (metis nth_mem option.collapse)
  have loc: "local_appenders a1 = [add_samples (routed ?lk li ss) a]"
    using a1nth nth li a1(2) by (intro local_appenders_single [of li]) (simp_all add: node_adds_local node_adds_remote)
  have "(map (map_option committed) a1) ! i = Some (RemoteNode (ra_Commit
      ((NewRemoteAppender (format_uint i))\<lparr>ra_points := map remote_point (routed ?lk i ss)\<rparr>)))"
    if "i < length addrs" "i \<noteq> li" for i
    using that a1nth nth a1(2) by (simp add: node_adds_remote NewRemoteAppender_def)
  then have "\<forall>i < length addrs. i \<noteq> li \<longrightarrow> (\<exists>r. (map (map_option committed) a1) ! i = Some (RemoteNode r) \<and> ra_points r = []
      \<and> ra_buffer r = map remote_point (routed ?lk i ss))"
    by (simp add: ra_Commit_eq NewRemoteAppender_def)
  moreover have "card {i. i < length addrs \<and> s \<in> set (routed ?lk i [s])} = rf" for s
  proof -
    have "{i. i < length addrs \<and> s \<in> set (routed ?lk i [s])} = set (?lk (labels_Get (fst s) MetricName))"
      using table.nodes_valid [OF table] by (auto simp: routed_def split: if_splits)
    then show ?thesis using table.replicas_card [OF table] by simp
  qed
  ultimately show ?thesis
    using a1(1) replicated_Commit_ok [OF a1(3), of wr wn] loc by simp
qed



end
