(* ===== verification/Lean_Streams.thy ===== *)
theory Lean_Streams
  imports Go_Prelude
begin

text \<open>
  Messages over TCP (\<open>pkg/leanstreams\<close>): a client puts an eight byte header with the length in
  front of every message (\<open>util.go\<close>, \<open>tcpclient.go\<close>), the server reads headers and messages
  from whatever pieces the socket returns (\<open>tcpserver.go\<close>) and a listener calls back for every
  message (\<open>tcplistener.go\<close>). \<open>connection.go\<close> dials until the other node listens, and
  \<open>pkg/ingressclient\<close> sends batches of points to the ingress port.

  The network is a state with the bytes each dialled connection has taken so far, and with what
  the coming writes and dials will do.
\<close>

unbundle bit_operations_syntax

section \<open>Headers\<close>

text \<open>\<open>PutUvarint\<close>, \<open>PutVarint\<close>, \<open>Uvarint\<close> and \<open>Varint\<close> of \<open>encoding/binary\<close>.\<close>

function put_uvarint :: "int \<Rightarrow> byte list" where
  "put_uvarint x = (if 128 \<le> x then (word_of_int x OR 128) # put_uvarint (drop_bit 7 x) else [word_of_int x])"
  by pat_completeness auto
termination
  by (relation "measure nat") (auto simp: drop_bit_eq_div)

declare put_uvarint.simps [simp del]

definition PutVarint :: "nat \<Rightarrow> int \<Rightarrow> byte list option" where
  "PutVarint sz x =
     (let ux = u64 (push_bit 1 x);
          bs = put_uvarint (if x < 0 then u64 (NOT ux) else ux)
      in if length bs \<le> sz then Some (bs @ replicate (sz - length bs) 0) else None)"

fun Uvarint :: "nat \<Rightarrow> nat \<Rightarrow> int \<Rightarrow> byte list \<Rightarrow> int \<times> int" where
  "Uvarint i s x [] = (0, 0)"
| "Uvarint i s x (b # bs) =
     (if uint b < 128
      then if 9 < i \<or> i = 9 \<and> 1 < uint b then (0, - (int i + 1))
           else (x OR u64 (push_bit s (uint b)), int i + 1)
      else Uvarint (i + 1) (s + 7) (x OR u64 (push_bit s (uint (b AND 127)))) bs)"

definition Varint :: "byte list \<Rightarrow> int \<times> int" where
  "Varint bs =
     (case Uvarint 0 0 0 bs of (ux, n) \<Rightarrow>
        (let x = drop_bit 1 ux in (if odd ux then NOT x else x, n)))"

definition byteArrayToInt64 :: "byte list \<Rightarrow> int \<times> int" where
  "byteArrayToInt64 bytes = Varint bytes"

text \<open>A value that does not fit the buffer panics: \<open>None\<close>.\<close>

definition int64ToByteArray :: "int \<Rightarrow> nat \<Rightarrow> byte list option" where
  "int64ToByteArray v bufferSize = PutVarint bufferSize v"

definition headerByteSize :: nat where
  "headerByteSize = 8"

definition DefaultMaxMessageSize :: nat where
  "DefaultMaxMessageSize = 4096"

section \<open>The server side of a connection\<close>

datatype sockerr = SockEOF | SockReset

text \<open>
  The bytes of a connection in the pieces the socket returns them, and how it ends: by the end
  of the stream, or by an error or the listener closing it.
\<close>

record conn =
  cn_chunks :: "byte list list"
  cn_end :: sockerr

definition sock_Read :: "nat \<Rightarrow> conn \<Rightarrow> byte list \<times> sockerr option \<times> conn" where
  "sock_Read n c =
     (if n = 0 then ([], None, c)
      else (case cn_chunks c of
              [] \<Rightarrow> ([], Some (cn_end c), c)
            | b # bs \<Rightarrow> (take n b, None, c\<lparr>cn_chunks := (if length b \<le> n then bs else drop n b # bs)\<rparr>)))"

function fill_buffer :: "nat \<Rightarrow> byte list \<Rightarrow> sockerr option \<Rightarrow> conn \<Rightarrow> byte list \<times> sockerr option \<times> conn" where
  "fill_buffer toRead buf err c =
     (if length buf < toRead \<and> err = None
      then (case sock_Read (toRead - length buf) c of (bs, e, c') \<Rightarrow> fill_buffer toRead (buf @ bs) e c')
      else (buf, err, c))"
  by pat_completeness auto
termination
  by (relation "measure (\<lambda>(n, buf, err, c). (if err = None then 1 else 0) + length (cn_chunks c) + (n - length buf))")
     (auto simp: sock_Read_def split: if_splits list.splits)

declare fill_buffer.simps [simp del]

definition lowLevelRead :: "nat \<Rightarrow> conn \<Rightarrow> byte list \<times> sockerr option \<times> conn" where
  "lowLevelRead toRead c = (case sock_Read toRead c of (bs, e, c') \<Rightarrow> fill_buffer toRead bs e c')"

datatype readerr =
    ReadFailed sockerr | ErrZeroBytesReadHeader | ErrLessThanZeroBytesReadHeader
  | InvalidLength int | TooLong int

definition header_length :: "nat \<Rightarrow> byte list \<Rightarrow> readerr + nat" where
  "header_length sz h =
     (case byteArrayToInt64 h of (msgLength, bytesParsed) \<Rightarrow>
        (if bytesParsed = 0 then Inl ErrZeroBytesReadHeader
         else if bytesParsed < 0 then Inl ErrLessThanZeroBytesReadHeader
         else if msgLength < 0 then Inl (InvalidLength msgLength)
         else if int sz < msgLength then Inl (TooLong msgLength)
         else Inr (nat msgLength)))"

definition TCPServer_Read :: "nat \<Rightarrow> conn \<Rightarrow> (readerr + byte list) \<times> conn" where
  "TCPServer_Read sz c =
     (case lowLevelRead headerByteSize c of
        (_, Some e, c') \<Rightarrow> (Inl (ReadFailed e), c')
      | (h, None, c') \<Rightarrow>
          (case header_length sz h of
             Inl e \<Rightarrow> (Inl e, c')
           | Inr n \<Rightarrow>
               (case lowLevelRead n c' of
                  (_, Some e, c'') \<Rightarrow> (Inl (ReadFailed e), c'')
                | (b, None, c'') \<Rightarrow> (Inr b, c''))))"

abbreviation pending :: "conn \<Rightarrow> byte list" where
  "pending c \<equiv> concat (cn_chunks c)"

lemma fill_buffer_spec:
  "length buf \<le> n \<Longrightarrow> \<exists>c'. fill_buffer n buf None c =
     (buf @ take (n - length buf) (pending c),
      if n - length buf \<le> length (pending c) then None else Some (cn_end c), c')
    \<and> pending c' = drop (n - length buf) (pending c) \<and> cn_end c' = cn_end c"
proof (induction n buf "None :: sockerr option" c rule: fill_buffer.induct)
  case (1 n buf c)
  show ?case
  proof (cases "length buf < n")
    case True
    show ?thesis
    proof (cases "cn_chunks c")
      case Nil
      have "fill_buffer n buf (Some (cn_end c)) c = (buf, Some (cn_end c), c)" by (simp add: fill_buffer.simps)
      with Nil True show ?thesis
        by (intro exI [where x = c]) (simp add: fill_buffer.simps [of n buf None] sock_Read_def)
    next
      case (Cons b bs)
      let ?k = "n - length buf"
      let ?c = "c\<lparr>cn_chunks := (if length b \<le> ?k then bs else drop ?k b # bs)\<rparr>"
      have sr: "sock_Read ?k c = (take ?k b, None, ?c)" using True Cons by (simp add: sock_Read_def)
      have st: "fill_buffer n buf None c = fill_buffer n (buf @ take ?k b) None ?c"
        using True sr by (simp add: fill_buffer.simps [of n buf None])
      have "\<exists>c'. fill_buffer n (buf @ take ?k b) None ?c =
          ((buf @ take ?k b) @ take (n - length (buf @ take ?k b)) (pending ?c),
           if n - length (buf @ take ?k b) \<le> length (pending ?c) then None else Some (cn_end ?c), c')
        \<and> pending c' = drop (n - length (buf @ take ?k b)) (pending ?c) \<and> cn_end c' = cn_end ?c"
        using True by (intro "1.hyps" [OF conjI [OF True refl] sr [symmetric] refl]) simp
      then show ?thesis unfolding st using Cons True
        by (cases "length b \<le> ?k") auto
    qed
  next
    case False
    with 1 show ?thesis by (simp add: fill_buffer.simps)
  qed
qed

lemma lowLevelRead_spec:
  "\<exists>c'. lowLevelRead n c =
     (take n (pending c), if n \<le> length (pending c) then None else Some (cn_end c), c')
    \<and> pending c' = drop n (pending c) \<and> cn_end c' = cn_end c"
proof (cases "n = 0")
  case True
  then show ?thesis by (simp add: lowLevelRead_def sock_Read_def fill_buffer.simps)
next
  case False
  then have "lowLevelRead n c = fill_buffer n [] None c"
    by (subst fill_buffer.simps) (simp add: lowLevelRead_def)
  then show ?thesis using fill_buffer_spec [of "[]" n c] by simp
qed

lemma TCPServer_Read_consumes:
  assumes "TCPServer_Read sz c = (Inr m, c')"
  shows "length (pending c') < length (pending c)"
proof -
  obtain c1 where c1: "lowLevelRead 8 c = (take 8 (pending c), if 8 \<le> length (pending c) then None else Some (cn_end c), c1)"
    "pending c1 = drop 8 (pending c)" using lowLevelRead_spec by blast
  then have le: "8 \<le> length (pending c)"
    using assms by (auto simp: TCPServer_Read_def headerByteSize_def split: if_splits)
  then obtain n where n: "header_length sz (take 8 (pending c)) = Inr n"
    using assms c1 by (auto simp: TCPServer_Read_def headerByteSize_def split: sum.splits)
  obtain c2 where c2: "lowLevelRead n c1 = (take n (pending c1), if n \<le> length (pending c1) then None else Some (cn_end c1), c2)"
    "pending c2 = drop n (pending c1)" using lowLevelRead_spec by blast
  have "c' = c2"
    using assms c1 c2 n le by (auto simp: TCPServer_Read_def headerByteSize_def split: if_splits)
  then show ?thesis using c1(2) c2(2) le by simp
qed

section \<open>The read loop of the listener\<close>

text \<open>The callback's errors are only logged. The loop ends with the error of the failed read.\<close>

function readLoop ::
    "(byte list \<Rightarrow> 's \<Rightarrow> ('e + unit) \<times> 's) \<Rightarrow> nat \<Rightarrow> conn \<Rightarrow> 's \<Rightarrow> readerr \<times> 's" where
  "readLoop callback sz c s =
     (case TCPServer_Read sz c of
        (Inl e, c') \<Rightarrow> (e, s)
      | (Inr m, c') \<Rightarrow>
          (if m = [] then readLoop callback sz c' s
           else readLoop callback sz c' (snd (callback m s))))"
  by pat_completeness auto
termination
  by (relation "measure (\<lambda>(cb, sz, c, s). length (pending c))") (auto intro: TCPServer_Read_consumes [OF sym])

declare readLoop.simps [simp del]

text \<open>What a stream of bytes says, read at once.\<close>

function messages :: "nat \<Rightarrow> byte list \<Rightarrow> byte list list" where
  "messages sz s =
     (if length s < headerByteSize then []
      else (case header_length sz (take headerByteSize s) of
              Inl _ \<Rightarrow> []
            | Inr n \<Rightarrow>
                (let r = drop headerByteSize s
                 in if length r < n then []
                    else (if n = 0 then [] else [take n r]) @ messages sz (drop n r))))"
  by pat_completeness auto
termination
  by (relation "measure (\<lambda>(sz, s). length s)") (auto simp: headerByteSize_def)

declare messages.simps [simp del]

lemma readLoop_messages:
  "snd (readLoop callback sz c s) = foldl (\<lambda>s m. snd (callback m s)) s (messages sz (pending c))"
proof (induction callback sz c s rule: readLoop.induct)
  case (1 callback sz c s)
  obtain c1 where c1: "lowLevelRead 8 c = (take 8 (pending c), if 8 \<le> length (pending c) then None else Some (cn_end c), c1)"
    "pending c1 = drop 8 (pending c)" using lowLevelRead_spec by blast
  show ?case
  proof (cases "8 \<le> length (pending c)")
    case True
    show ?thesis
    proof (cases "header_length sz (take 8 (pending c))")
      case (Inl e)
      then show ?thesis using True c1
        by (simp add: readLoop.simps [of _ _ c] messages.simps [of _ "pending c"] TCPServer_Read_def headerByteSize_def)
    next
      case (Inr n)
      obtain c2 where c2: "lowLevelRead n c1 = (take n (pending c1), if n \<le> length (pending c1) then None else Some (cn_end c1), c2)"
        "pending c2 = drop n (pending c1)" using lowLevelRead_spec by blast
      show ?thesis
      proof (cases "n \<le> length (pending c1)")
        case True
        then have r: "TCPServer_Read sz c = (Inr (take n (pending c1)), c2)"
          using Inr c1 c2 \<open>8 \<le> _\<close> by (simp add: TCPServer_Read_def headerByteSize_def)
        then show ?thesis using "1.IH" [OF r [symmetric] refl] Inr True c1 c2 \<open>8 \<le> _\<close>
          by (auto simp: readLoop.simps [of _ _ c] messages.simps [of _ "pending c"] headerByteSize_def)
      next
        case False
        then show ?thesis using Inr c1 c2 \<open>8 \<le> _\<close>
          by (auto simp: readLoop.simps [of _ _ c] messages.simps [of _ "pending c"] TCPServer_Read_def headerByteSize_def)
      qed
    qed
  next
    case False
    then show ?thesis using c1
      by (simp add: readLoop.simps [of _ _ c] messages.simps [of _ "pending c"] TCPServer_Read_def headerByteSize_def)
  qed
qed

section \<open>Round trip of the header\<close>

lemma u64_or_push:
  assumes "0 \<le> x" "x < 2 ^ s" "0 \<le> y" "y * 2 ^ s < 2 ^ 64"
  shows "x OR u64 (push_bit s y) = x + y * 2 ^ s"
proof -
  have "take_bit s x = x" using assms by (simp add: take_bit_int_eq_self)
  then have "x OR push_bit s y = x + push_bit s y"
    using concat_bit_def [of s x y] concat_bit_eq [of s x y] by simp
  moreover have "u64 (push_bit s y) = push_bit s y"
    using assms by (simp add: push_bit_eq_mult u64_id)
  ultimately show ?thesis by (simp add: push_bit_eq_mult)
qed

lemma uint_low_bits: "uint ((word_of_int x OR 128 :: byte) AND 127) = x mod 128"
proof -
  have "(word_of_int x OR 128 :: byte) AND 127 = word_of_int x AND 127"
    by (simp add: bit.conj_disj_distrib2)
  moreover have "(127 :: byte) = mask 7" by (simp add: mask_eq_exp_minus_1)
  ultimately have "uint ((word_of_int x OR 128 :: byte) AND 127) = uint (take_bit 7 (word_of_int x :: byte))"
    by (simp add: take_bit_eq_mask)
  also have "\<dots> = x mod 128"
    by (simp only: unsigned_take_bit_eq uint_word_of_int) (simp add: take_bit_eq_mod mod_mod_cancel)
  finally show ?thesis .
qed

lemma uint_high_bit: "128 \<le> uint (w OR 128 :: byte)"
  using or_greater_eq [of "uint w" 128] by (simp add: unsigned_or_eq or.commute)

lemma Uvarint_put:
  assumes "0 \<le> y" "0 \<le> x" "x < 2 ^ (7 * i)" "y * 2 ^ (7 * i) < 2 ^ 56" "i \<le> 8"
  shows "Uvarint i (7 * i) x (put_uvarint y @ rest) = (x + y * 2 ^ (7 * i), int i + int (length (put_uvarint y)))"
  using assms
proof (induction y arbitrary: x i rule: put_uvarint.induct)
  case (1 y)
  show ?case
  proof (cases "128 \<le> y")
    case True
    have i: "i + 1 \<le> 8"
    proof (rule ccontr)
      assume "\<not> i + 1 \<le> 8"
      then have "i = 8" using "1.prems"(5) by simp
      then show False using "1.prems"(4) True by simp
    qed
    have dm: "y = 128 * (y div 128) + y mod 128" by simp
    have le: "y mod 128 * 2 ^ (7 * i) \<le> y * 2 ^ (7 * i)" using "1.prems"(1)
      by (intro mult_right_mono zmod_le_nonneg_dividend) auto
    have q: "y div 128 * 2 ^ (7 * (i + 1)) \<le> y * 2 ^ (7 * i)"
      using mult_right_mono [of "y div 128 * 128" y "2 ^ (7 * i)"] dm pos_mod_sign [of 128 y]
      by (simp add: power_add mult.assoc mult.commute)
    have "(2 :: int) ^ 56 \<le> 2 ^ 64" by simp
    then have "y mod 128 * 2 ^ (7 * i) < 2 ^ 64" using le "1.prems"(4) by linarith
    then have x': "x OR u64 (push_bit (7 * i) (y mod 128)) = x + y mod 128 * 2 ^ (7 * i)"
      using "1.prems"(2,3) by (intro u64_or_push) auto
    have "x + y mod 128 * 2 ^ (7 * i) < 2 ^ (7 * (i + 1))"
    proof -
      have "y mod 128 * 2 ^ (7 * i) \<le> 127 * 2 ^ (7 * i)" by (intro mult_right_mono) auto
      then have "x + y mod 128 * 2 ^ (7 * i) < 128 * 2 ^ (7 * i)" using "1.prems"(3) by linarith
      then show ?thesis by (simp add: power_add)
    qed
    then have "Uvarint (i + 1) (7 * (i + 1)) (x + y mod 128 * 2 ^ (7 * i)) (put_uvarint (drop_bit 7 y) @ rest) =
        (x + y mod 128 * 2 ^ (7 * i) + drop_bit 7 y * 2 ^ (7 * (i + 1)), int (i + 1) + int (length (put_uvarint (drop_bit 7 y))))"
      using "1.prems" q i by (intro "1.IH" [OF True]) (auto simp: drop_bit_eq_div)
    moreover have "x + y mod 128 * 2 ^ (7 * i) + drop_bit 7 y * 2 ^ (7 * (i + 1)) = x + y * 2 ^ (7 * i)"
    proof -
      have "y * 2 ^ (7 * i) = 128 * (y div 128 * 2 ^ (7 * i)) + y mod 128 * 2 ^ (7 * i)"
        by (metis dm distrib_right mult.assoc)
      moreover have "drop_bit 7 y * 2 ^ (7 * (i + 1)) = 128 * (y div 128 * 2 ^ (7 * i))"
        by (simp add: drop_bit_eq_div power_add)
      ultimately show ?thesis by linarith
    qed
    ultimately show ?thesis
      using True uint_high_bit [of "word_of_int y"] x'
      by (simp add: put_uvarint.simps [of y] uint_low_bits not_less add.commute [of _ 7] add.left_commute [of 1])
  next
    case False
    have "uint (word_of_int y :: byte) = y" using False "1.prems"(1) by (simp add: uint_word_of_int)
    moreover have "x OR u64 (push_bit (7 * i) y) = x + y * 2 ^ (7 * i)"
      using "1.prems" by (intro u64_or_push) auto
    ultimately show ?thesis using False "1.prems"(5)
      by (auto simp: put_uvarint.simps [of y])
  qed
qed

lemma length_put_uvarint:
  "0 \<le> y \<Longrightarrow> y < 128 ^ Suc k \<Longrightarrow> 0 < length (put_uvarint y) \<and> length (put_uvarint y) \<le> Suc k"
proof (induction k arbitrary: y)
  case (Suc k)
  have "y div 128 < 128 ^ Suc k" using Suc.prems by (simp add: div_less_iff_less_mult mult.commute)
  then show ?case using Suc.IH [of "y div 128"] Suc.prems
    by (auto simp: put_uvarint.simps [of y] drop_bit_eq_div)
qed (subst (1 2) put_uvarint.simps, simp)

definition header :: "byte list \<Rightarrow> byte list" where
  "header m = the (int64ToByteArray (int (length m)) headerByteSize)"

text \<open>The length of a message that fits into memory fits into the header.\<close>

abbreviation sendable :: "byte list \<Rightarrow> bool" where
  "sendable m \<equiv> int (length m) < 2 ^ 55"

lemma header_roundtrip:
  assumes "sendable m"
  shows "int64ToByteArray (int (length m)) headerByteSize = Some (header m)" and "length (header m) = 8"
    and "header_length sz (header m) = (if length m \<le> sz then Inr (length m) else Inl (TooLong (int (length m))))"
proof -
  let ?y = "2 * int (length m)"
  have u: "u64 (push_bit 1 (int (length m))) = ?y" using assms by (simp add: push_bit_eq_mult u64_id)
  have len: "0 < length (put_uvarint ?y)" "length (put_uvarint ?y) \<le> 8"
    using length_put_uvarint [of ?y 7] assms by simp_all
  have ar: "int64ToByteArray (int (length m)) 8 = Some (put_uvarint ?y @ replicate (8 - length (put_uvarint ?y)) 0)"
    using len u by (simp add: int64ToByteArray_def PutVarint_def Let_def)
  then show "int64ToByteArray (int (length m)) headerByteSize = Some (header m)"
    by (simp add: header_def headerByteSize_def)
  show "length (header m) = 8" using ar len by (simp add: header_def headerByteSize_def)
  have "Uvarint 0 0 0 (header m) = (?y, int (length (put_uvarint ?y)))"
    using Uvarint_put [of ?y 0 0] assms ar by (simp add: header_def headerByteSize_def)
  then show "header_length sz (header m) = (if length m \<le> sz then Inr (length m) else Inl (TooLong (int (length m))))"
    using len by (auto simp: header_length_def byteArrayToInt64_def Varint_def drop_bit_eq_div)
qed

section \<open>The client\<close>

datatype neterr = ClientClosing | DialFailed | DialTimeout | WriteFailed | SocketClosed

text \<open>
  A write to a socket takes all bytes, or it takes some of them and fails. \<open>nw_sent\<close> has the
  bytes taken on each dialled connection, the current one last; \<open>nw_faults\<close> and \<open>nw_dials\<close>
  say what the coming writes and dials do, and \<open>nw_up\<close> whether dials work after those.
\<close>

datatype fault = Taken | Broken nat

record network =
  nw_sent :: "byte list list"
  nw_open :: bool
  nw_faults :: "fault list"
  nw_dials :: "bool list"
  nw_up :: bool

record tcpClientConfig =
  cfg_MaxMessageSize :: nat
  cfg_Address :: string

record tcpClient =
  cl_MaxMessageSize :: nat
  cl_address :: string
  cl_outgoingDataBuffer :: "byte list"
  cl_done :: bool

definition newTCPClient :: "tcpClientConfig \<Rightarrow> tcpClient" where
  "newTCPClient cfg =
     (let sz = (if cfg_MaxMessageSize cfg \<noteq> 0 then cfg_MaxMessageSize cfg else DefaultMaxMessageSize)
      in \<lparr>cl_MaxMessageSize = sz, cl_address = cfg_Address cfg, cl_outgoingDataBuffer = replicate sz 0, cl_done = False\<rparr>)"

fun tcp_Dial :: "network \<Rightarrow> bool \<times> network" where
  "tcp_Dial w =
     (case nw_dials w of
        [] \<Rightarrow> (nw_up w, if nw_up w then w\<lparr>nw_sent := nw_sent w @ [[]], nw_open := True\<rparr> else w)
      | d # ds \<Rightarrow>
          (d, if d then w\<lparr>nw_sent := nw_sent w @ [[]], nw_open := True, nw_dials := ds\<rparr> else w\<lparr>nw_dials := ds\<rparr>))"

definition TCPClient_Open :: "tcpClient \<Rightarrow> network \<Rightarrow> neterr option \<times> network" where
  "TCPClient_Open c w =
     (if cl_done c then (Some ClientClosing, w)
      else (case tcp_Dial w of (ok, w') \<Rightarrow> (if ok then None else Some DialFailed, w')))"

definition DialTCP :: "tcpClientConfig \<Rightarrow> network \<Rightarrow> (neterr + tcpClient) \<times> network" where
  "DialTCP cfg w =
     (let c = newTCPClient cfg
      in case TCPClient_Open c w of (Some e, w') \<Rightarrow> (Inl e, w') | (None, w') \<Rightarrow> (Inr c, w'))"

text \<open>\<open>took\<close> has the time each dial takes, in nanoseconds, and \<open>0\<close> after its end.\<close>

function DialTCPUntilConnected ::
    "tcpClientConfig \<Rightarrow> int \<Rightarrow> int \<Rightarrow> nat list \<Rightarrow> network \<Rightarrow> (neterr + tcpClient) \<times> network" where
  "DialTCPUntilConnected cfg deadline now took w =
     (if deadline < now then (Inl DialTimeout, w)
      else (case DialTCP cfg w of
              (Inr c, w') \<Rightarrow> (Inr c, w')
            | (Inl _, w') \<Rightarrow>
                DialTCPUntilConnected cfg deadline
                  (now + (case took of [] \<Rightarrow> 0 | t # _ \<Rightarrow> int t) + 100 * 1000000) (drop 1 took) w'))"
  by pat_completeness auto
termination
  by (relation "measure (\<lambda>(cfg, deadline, now, took, w). nat (deadline - now + 1))") (auto split: list.splits)

declare DialTCPUntilConnected.simps [simp del]

definition closeSocket :: "network \<Rightarrow> network" where
  "closeSocket w = w\<lparr>nw_open := False\<rparr>"

definition sock_Close :: "network \<Rightarrow> neterr option \<times> network" where
  "sock_Close w = (if nw_open w then None else Some SocketClosed, closeSocket w)"

definition TCPClient_Reopen :: "tcpClient \<Rightarrow> network \<Rightarrow> neterr option \<times> network" where
  "TCPClient_Reopen c w =
     (case sock_Close w of (Some e, w') \<Rightarrow> (Some e, w') | (None, w') \<Rightarrow> TCPClient_Open c w')"

text \<open>Closing a channel twice panics.\<close>

definition TCPClient_Close :: "tcpClient \<Rightarrow> network \<Rightarrow> (neterr option \<times> tcpClient \<times> network) outcome" where
  "TCPClient_Close c w =
     (if cl_done c then Panics
      else (case sock_Close w of (e, w') \<Rightarrow> Returns (e, c\<lparr>cl_done := True\<rparr>, w')))"

definition send_bytes :: "byte list \<Rightarrow> network \<Rightarrow> network" where
  "send_bytes bs w = w\<lparr>nw_sent := butlast (nw_sent w) @ [last (nw_sent w) @ bs]\<rparr>"

definition sock_Write :: "byte list \<Rightarrow> network \<Rightarrow> nat \<times> neterr option \<times> network" where
  "sock_Write bs w =
     (if \<not> nw_open w then (0, Some SocketClosed, w)
      else (case nw_faults w of
              Broken n # fs \<Rightarrow>
                (min n (length bs), Some WriteFailed, send_bytes (take n bs) (w\<lparr>nw_faults := fs\<rparr>))
            | fs \<Rightarrow> (length bs, None, send_bytes bs (w\<lparr>nw_faults := drop 1 fs\<rparr>))))"

text \<open>The write loop: after every piece of the message it sends the header of an empty one.\<close>

function write_loop :: "byte list \<Rightarrow> byte list \<Rightarrow> nat \<Rightarrow> network \<Rightarrow> nat \<times> neterr option \<times> network" where
  "write_loop out emp tot w =
     (if tot < length out
      then (case sock_Write (drop tot out) w of
              (_, Some e, w') \<Rightarrow> (tot, Some e, closeSocket w')
            | (n, None, w') \<Rightarrow>
                (case sock_Write emp w' of
                   (_, Some e, w'') \<Rightarrow> (tot, Some e, closeSocket w'')
                 | (_, None, w'') \<Rightarrow> write_loop out emp (tot + n) w''))
      else (tot, None, w))"
  by pat_completeness auto
termination
  by (relation "measure (\<lambda>(out, emp, tot, w). length out - tot)")
     (auto simp: sock_Write_def split: if_splits list.splits fault.splits)

declare write_loop.simps [simp del]

text \<open>No message is so long that the header panics: it would have $2^{55}$ bytes.\<close>

definition client_write :: "byte list \<Rightarrow> tcpClient \<times> network \<Rightarrow> nat \<times> neterr option \<times> tcpClient \<times> network" where
  "client_write data st =
     (let out = header data @ data
      in case write_loop out (header []) 0 (snd st) of
           (n, e, w) \<Rightarrow> (n, e, (fst st)\<lparr>cl_outgoingDataBuffer := out\<rparr>, w))"

definition TCPClient_Write :: "byte list \<Rightarrow> tcpClient \<times> network \<Rightarrow> nat \<times> neterr option \<times> tcpClient \<times> network" where
  "TCPClient_Write data st =
     (case client_write data st of
        (n, None, st') \<Rightarrow> (n, None, st')
      | (n, Some _, c, w) \<Rightarrow>
          (case TCPClient_Open c w of
             (Some e, w') \<Rightarrow> (n, Some e, c, w')
           | (None, w') \<Rightarrow> client_write data (c, w')))"

section \<open>What the listener gets of what the client sends\<close>

abbreviation fits :: "nat \<Rightarrow> byte list \<Rightarrow> bool" where
  "fits sz m \<equiv> m \<noteq> [] \<and> length m \<le> sz \<and> sendable m"

definition aligned :: "nat \<Rightarrow> byte list \<Rightarrow> bool" where
  "aligned sz s \<longleftrightarrow> (\<forall>t. messages sz (s @ t) = messages sz s @ messages sz t)"

definition delivered :: "nat \<Rightarrow> network \<Rightarrow> byte list list" where
  "delivered sz w = concat (map (messages sz) (nw_sent w))"

definition net_ok :: "nat \<Rightarrow> network \<Rightarrow> bool" where
  "net_ok sz w \<longleftrightarrow> nw_sent w \<noteq> [] \<and> (nw_open w \<longrightarrow> aligned sz (last (nw_sent w)))"

lemma messages_Nil [simp]: "messages sz [] = []"
  by (simp add: messages.simps headerByteSize_def)

lemma messages_frame:
  assumes "length m \<le> sz" "sendable m"
  shows "messages sz (header m @ m @ t) = (if m = [] then [] else [m]) @ messages sz t"
  using header_roundtrip [OF assms(2)] assms
  by (simp add: messages.simps [of sz "header m @ m @ t"] headerByteSize_def)

lemma messages_partial:
  assumes "n < length (header m @ m)" "length m \<le> sz" "sendable m"
  shows "messages sz (take n (header m @ m)) = []"
  using header_roundtrip [OF assms(3)] assms
  by (subst messages.simps) (auto simp: headerByteSize_def min_def)

lemma aligned_frame:
  assumes "length m \<le> sz" "sendable m"
  shows "aligned sz (header m @ m)"
  using messages_frame [OF assms] messages_frame [OF assms, of "[]"] by (simp add: aligned_def)

lemma aligned_append: "aligned sz s \<Longrightarrow> aligned sz t \<Longrightarrow> aligned sz (s @ t)"
  by (simp add: aligned_def)

lemma delivered_send:
  assumes "nw_sent w \<noteq> []" "aligned sz (last (nw_sent w))"
  shows "delivered sz (send_bytes bs w) = delivered sz w @ messages sz bs"
proof -
  obtain xs x where "nw_sent w = xs @ [x]" using assms(1) by (cases "nw_sent w" rule: rev_cases) auto
  then show ?thesis using assms(2) by (simp add: delivered_def send_bytes_def aligned_def)
qed

lemma delivered_simps [simp]:
  "delivered sz (w\<lparr>nw_faults := fs\<rparr>) = delivered sz w"
  "delivered sz (w\<lparr>nw_open := b\<rparr>) = delivered sz w"
  by (simp_all add: delivered_def)

lemma send_bytes_simps [simp]:
  "nw_sent (send_bytes bs w) \<noteq> []" "last (nw_sent (send_bytes bs w)) = last (nw_sent w) @ bs"
  "nw_open (send_bytes bs w) = nw_open w" "nw_faults (send_bytes bs w) = nw_faults w"
  by (simp_all add: send_bytes_def)

lemma sock_Write_frame:
  assumes "net_ok sz w" "nw_open w" and m: "length m \<le> sz" "sendable m"
    and wr: "sock_Write (header m @ m) w = (n, e, w')"
  shows "if e = None
    then n = length (header m @ m) \<and> net_ok sz w' \<and> nw_open w' \<and> delivered sz w' = delivered sz w @ (if m = [] then [] else [m])
    else nw_sent w' \<noteq> [] \<and> delivered sz w' \<in> {delivered sz w, delivered sz w @ (if m = [] then [] else [m])}"
proof -
  have al: "nw_sent w \<noteq> []" "aligned sz (last (nw_sent w))" using assms(1,2) by (auto simp: net_ok_def)
  have full: "messages sz (header m @ m) = (if m = [] then [] else [m])"
    using messages_frame [OF m, of "[]"] by simp
  have part: "messages sz (take k (header m @ m)) \<in> {[], if m = [] then [] else [m]}" for k
    using messages_partial [OF _ m, of k] full by (cases "k < length (header m @ m)") simp_all
  show ?thesis
  proof (cases "\<exists>k fs. nw_faults w = Broken k # fs")
    case True
    then obtain k fs where "nw_faults w = Broken k # fs" by blast
    then have "e = Some WriteFailed" "w' = send_bytes (take k (header m @ m)) (w\<lparr>nw_faults := fs\<rparr>)"
      using wr assms(2) by (auto simp: sock_Write_def)
    then show ?thesis using al part [of k] delivered_send [of "w\<lparr>nw_faults := fs\<rparr>" sz] by (auto split: if_splits)
  next
    case False
    then have "n = length (header m @ m)" "e = None" "w' = send_bytes (header m @ m) (w\<lparr>nw_faults := drop 1 (nw_faults w)\<rparr>)"
      using wr assms(2) by (auto simp: sock_Write_def split: list.splits fault.splits)
    then show ?thesis
      using al full aligned_append [OF al(2) aligned_frame [OF m]] delivered_send [of "w\<lparr>nw_faults := drop 1 (nw_faults w)\<rparr>" sz] assms(2)
      by (simp add: net_ok_def)
  qed
qed

lemma client_write_delivers:
  assumes "net_ok sz w" and m: "fits sz m" and wr: "client_write m (c, w) = (n, e, c', w')"
  shows "net_ok sz w' \<and> cl_done c' = cl_done c
    \<and> (\<exists>k \<le> 1. delivered sz w' = delivered sz w @ replicate k m \<and> (e = None \<longrightarrow> k = 1))"
proof -
  have len: "length (header m) = 8" "length (header []) = 8" using header_roundtrip(2) m by (simp, simp add: header_roundtrip(2))
  obtain n1 e1 w1 where w1: "sock_Write (header m @ m) w = (n1, e1, w1)" by (metis prod_cases3)
  obtain n2 e2 w2 where w2: "sock_Write (header []) w1 = (n2, e2, w2)" by (metis prod_cases3)
  have run: "write_loop (header m @ m) (header []) 0 w =
      (case e1 of Some x \<Rightarrow> (0, Some x, closeSocket w1)
       | None \<Rightarrow> (case e2 of Some x \<Rightarrow> (0, Some x, closeSocket w2) | None \<Rightarrow> write_loop (header m @ m) (header []) n1 w2))"
    using w1 w2 len by (subst write_loop.simps) (auto split: option.splits)
  have c': "cl_done c' = cl_done c" "w' = snd (snd (write_loop (header m @ m) (header []) 0 w))"
    "e = fst (snd (write_loop (header m @ m) (header []) 0 w))"
    using wr by (auto simp: client_write_def Let_def split: prod.splits)
  show ?thesis
  proof (cases "nw_open w")
    case False
    then have "e1 = Some SocketClosed" "w1 = w" using w1 by (auto simp: sock_Write_def)
    then show ?thesis using c' run assms(1) by (auto simp: closeSocket_def net_ok_def)
  next
    case True
    note f1 = sock_Write_frame [OF assms(1) True _ _ w1]
    show ?thesis
    proof (cases e1)
      case (Some x)
      then have "delivered sz w1 \<in> {delivered sz w, delivered sz w @ [m]}" "nw_sent w1 \<noteq> []" using f1 m by auto
      then show ?thesis using c' run Some m
        by (auto simp: closeSocket_def net_ok_def intro: exI [where x = 0] exI [where x = 1])
    next
      case None
      then have d1: "delivered sz w1 = delivered sz w @ [m]" "net_ok sz w1" "nw_open w1" "n1 = length (header m @ m)"
        using f1 m by auto
      have f2: "if e2 = None then net_ok sz w2 \<and> delivered sz w2 = delivered sz w1
          else nw_sent w2 \<noteq> [] \<and> delivered sz w2 = delivered sz w1"
        using sock_Write_frame [of sz w1 "[]" n2 e2 w2] d1 w2 by (auto split: if_splits)
      have "write_loop (header m @ m) (header []) n1 w2 = (n1, None, w2)" using d1 by (simp add: write_loop.simps)
      then show ?thesis using c' run None d1 f2
        by (cases e2) (auto simp: closeSocket_def net_ok_def intro: exI [where x = 1])
    qed
  qed
qed

lemma TCPClient_Open_ok:
  assumes "net_ok sz w" "TCPClient_Open c w = (e, w')"
  shows "net_ok sz w' \<and> delivered sz w' = delivered sz w"
  using assms
  by (auto simp: TCPClient_Open_def net_ok_def delivered_def aligned_def split: if_splits list.splits)

lemma TCPClient_Write_delivers:
  assumes "net_ok sz w" and m: "fits sz m" and wr: "TCPClient_Write m (c, w) = (n, e, c', w')"
  shows "net_ok sz w' \<and> cl_done c' = cl_done c
    \<and> (\<exists>k \<le> 2. delivered sz w' = delivered sz w @ replicate k m \<and> (e = None \<longrightarrow> 1 \<le> k))"
proof -
  obtain n1 e1 c1 w1 where w1: "client_write m (c, w) = (n1, e1, c1, w1)" by (metis prod_cases4)
  from client_write_delivers [OF assms(1) m w1] obtain k1 where
    k1: "net_ok sz w1" "cl_done c1 = cl_done c" "k1 \<le> 1" "delivered sz w1 = delivered sz w @ replicate k1 m" "e1 = None \<longrightarrow> k1 = 1"
    by blast
  show ?thesis
  proof (cases e1)
    case None
    then show ?thesis using wr w1 k1 by (auto simp: TCPClient_Write_def intro!: exI [where x = 1])
  next
    case (Some x)
    obtain e2 w2 where w2: "TCPClient_Open c1 w1 = (e2, w2)" by fastforce
    note op = TCPClient_Open_ok [OF k1(1) w2]
    show ?thesis
    proof (cases e2)
      case (Some y)
      then show ?thesis using wr w1 k1 w2 op \<open>e1 = Some x\<close>
        by (auto simp: TCPClient_Write_def intro!: exI [where x = k1])
    next
      case None
      then have "client_write m (c1, w2) = (n, e, c', w')"
        using wr w1 w2 \<open>e1 = Some x\<close> by (simp add: TCPClient_Write_def)
      from client_write_delivers [OF conjunct1 [OF op] m this] obtain k2 where
        "net_ok sz w'" "cl_done c' = cl_done c1" "k2 \<le> 1" "delivered sz w' = delivered sz w2 @ replicate k2 m" "e = None \<longrightarrow> k2 = 1"
        by blast
      then show ?thesis using k1 op
        by (intro conjI exI [where x = "k1 + k2"]) (simp_all add: replicate_add)
    qed
  qed
qed

fun client_writes :: "byte list list \<Rightarrow> tcpClient \<times> network \<Rightarrow> bool list \<times> tcpClient \<times> network" where
  "client_writes [] st = ([], st)"
| "client_writes (m # ms) st =
     (case TCPClient_Write m st of
        (_, e, st') \<Rightarrow> (case client_writes ms st' of (oks, st'') \<Rightarrow> ((e = None) # oks, st'')))"

lemma client_writes_delivers:
  assumes "net_ok sz w" "list_all (fits sz) ms" "client_writes ms (c, w) = (oks, c', w')"
  shows "\<exists>ks. list_all2 (\<lambda>ok k. k \<le> 2 \<and> (ok \<longrightarrow> 1 \<le> k)) oks ks \<and> length ks = length ms
    \<and> delivered sz w' = delivered sz w @ concat (map2 replicate ks ms)"
  using assms
proof (induction ms arbitrary: c w oks)
  case (Cons m ms)
  obtain n e c1 w1 where w1: "TCPClient_Write m (c, w) = (n, e, c1, w1)" by (metis prod_cases4)
  obtain oks1 where oks: "client_writes ms (c1, w1) = (oks1, c', w')" "oks = (e = None) # oks1"
    using Cons.prems(3) w1 by (auto split: prod.splits)
  obtain k where k: "net_ok sz w1" "k \<le> 2" "delivered sz w1 = delivered sz w @ replicate k m" "e = None \<longrightarrow> 1 \<le> k"
    using TCPClient_Write_delivers [OF Cons.prems(1) _ w1] Cons.prems(2) by auto
  obtain ks where "list_all2 (\<lambda>ok k. k \<le> 2 \<and> (ok \<longrightarrow> 1 \<le> k)) oks1 ks" "length ks = length ms"
    "delivered sz w' = delivered sz w1 @ concat (map2 replicate ks ms)"
    using Cons.IH [OF k(1) _ oks(1)] Cons.prems(2) by auto
  then show ?case using k oks(2) by (intro exI [where x = "k # ks"]) simp
qed simp

lemma dialled_ok:
  assumes "DialTCP cfg w0 = (Inr c, w)" "nw_sent w0 = []"
  shows "net_ok sz w" and "delivered sz w = []"
  using assms
  by (auto simp: DialTCP_def TCPClient_Open_def net_ok_def aligned_def delivered_def Let_def newTCPClient_def
      split: if_splits list.splits option.splits)

lemma read_all_connections:
  assumes "list_all2 (\<lambda>cn s. pending cn = s) conns (nw_sent w)"
  shows "foldl (\<lambda>s cn. snd (readLoop callback sz cn s)) s conns = foldl (\<lambda>s m. snd (callback m s)) s (delivered sz w)"
proof -
  have "list_all2 (\<lambda>cn s. pending cn = s) conns ss \<Longrightarrow>
      foldl (\<lambda>s cn. snd (readLoop callback sz cn s)) s conns = foldl (\<lambda>s m. snd (callback m s)) s (concat (map (messages sz) ss))"
    for ss s
    by (induction arbitrary: s rule: list_all2_induct) (auto simp: readLoop_messages)
  then show ?thesis using assms by (simp add: delivered_def)
qed


text \<open>The write of the empty header fails after the first message was taken: it arrives twice.\<close>

definition ex_net :: network where
  "ex_net = \<lparr>nw_sent = [], nw_open = False, nw_faults = [Taken, Broken 3], nw_dials = [True], nw_up = True\<rparr>"

definition ex_cfg :: tcpClientConfig where
  "ex_cfg = \<lparr>cfg_MaxMessageSize = 10, cfg_Address = ''node:8091''\<rparr>"

definition ex_sent :: "bool list \<times> tcpClient \<times> network" where
  "ex_sent = client_writes [[1, 2, 3], [4]] (newTCPClient ex_cfg, snd (DialTCP ex_cfg ex_net))"

definition ex_conns :: "conn list" where
  "ex_conns = map (\<lambda>s. \<lparr>cn_chunks = [take 3 s, [], take 7 (drop 3 s), drop 7 (drop 3 s)], cn_end = SockEOF\<rparr>) (nw_sent (snd (snd ex_sent)))"

lemma ex_conns_pending: "list_all2 (\<lambda>cn s. pending cn = s) ex_conns (nw_sent (snd (snd ex_sent)))"
  by (simp add: ex_conns_def list_all2_conv_all_nth del: drop_drop)


end
