(* ===== verification/Metric_Node.thy ===== *)
theory Metric_Node
  imports Replication Lean_Streams
begin

text \<open>
  A node (\<open>internal/metricstore/metric_store.go\<close>): its configuration, and the two callbacks of
  its listeners. \<open>queuePoints\<close> sanitises points from outside and appends them to all nodes that
  hold them; \<open>writePoints\<close> stores points that another node has sanitised and routed. Decoding a
  batch (\<open>encoding/gob\<close>) is the argument \<open>dec\<close>: the points, and whether it failed.
\<close>

section \<open>Configuration\<close>

record metricStore =
  ms_replicationFactor :: nat
  ms_queryTimeout :: int
  ms_addr :: string
  ms_ingressAddr :: string
  ms_internodeAddr :: string
  ms_extAddr :: string
  ms_handoffStoragePath :: string
  ms_storagePath :: string
  ms_queryLogPath :: string
  ms_scrapeConfigPath :: string
  ms_nodeIndex :: nat
  ms_nodeAddrs :: "string list"
  ms_internodeAddrs :: "string list"

definition metricStore_New :: "string \<Rightarrow> (metricStore \<Rightarrow> metricStore) list \<Rightarrow> metricStore" where
  "metricStore_New storagePath opts =
     (let store = foldl (\<lambda>s opt. opt s)
            \<lparr>ms_replicationFactor = 1, ms_queryTimeout = 10 * 1000000000, ms_addr = '':8080'', ms_ingressAddr = '':8090'',
             ms_internodeAddr = '':8091'', ms_extAddr = [], ms_handoffStoragePath = ''/tmp/metric-store/handoff'',
             ms_storagePath = storagePath, ms_queryLogPath = ''/tmp/metric-store/query.log'', ms_scrapeConfigPath = [],
             ms_nodeIndex = 0, ms_nodeAddrs = [], ms_internodeAddrs = []\<rparr> opts
      in if length (ms_nodeAddrs store) = 0 then store\<lparr>ms_nodeAddrs := [ms_addr store]\<rparr> else store)"

definition WithQueryLogger :: "string \<Rightarrow> metricStore \<Rightarrow> metricStore" where
  "WithQueryLogger path s = s\<lparr>ms_queryLogPath := path\<rparr>"

definition WithAddr :: "string \<Rightarrow> metricStore \<Rightarrow> metricStore" where
  "WithAddr addr s = s\<lparr>ms_addr := addr\<rparr>"

definition WithIngressAddr :: "string \<Rightarrow> metricStore \<Rightarrow> metricStore" where
  "WithIngressAddr addr s = s\<lparr>ms_ingressAddr := addr\<rparr>"

definition WithInternodeAddr :: "string \<Rightarrow> metricStore \<Rightarrow> metricStore" where
  "WithInternodeAddr addr s = s\<lparr>ms_internodeAddr := addr\<rparr>"

definition WithClustered :: "nat \<Rightarrow> string list \<Rightarrow> string list \<Rightarrow> metricStore \<Rightarrow> metricStore" where
  "WithClustered nodeIndex nodeAddrs internodeAddrs s =
     s\<lparr>ms_nodeIndex := nodeIndex, ms_nodeAddrs := nodeAddrs, ms_internodeAddrs := internodeAddrs\<rparr>"

definition WithExternalAddr :: "string \<Rightarrow> metricStore \<Rightarrow> metricStore" where
  "WithExternalAddr addr s = s\<lparr>ms_extAddr := addr\<rparr>"

definition WithReplicationFactor :: "nat \<Rightarrow> metricStore \<Rightarrow> metricStore" where
  "WithReplicationFactor n s = s\<lparr>ms_replicationFactor := n\<rparr>"

definition WithHandoffStoragePath :: "string \<Rightarrow> metricStore \<Rightarrow> metricStore" where
  "WithHandoffStoragePath path s = s\<lparr>ms_handoffStoragePath := path\<rparr>"

definition WithQueryTimeout :: "int \<Rightarrow> metricStore \<Rightarrow> metricStore" where
  "WithQueryTimeout t s = s\<lparr>ms_queryTimeout := t\<rparr>"

definition WithScrapeConfigPath :: "string \<Rightarrow> metricStore \<Rightarrow> metricStore" where
  "WithScrapeConfigPath path s = s\<lparr>ms_scrapeConfigPath := path\<rparr>"

text \<open>The storage that \<open>Start\<close> builds; \<open>la\<close> is the appender of the local store.\<close>

definition start_storage :: "string + appender \<Rightarrow> metricStore \<Rightarrow> replicatedStorage" where
  "start_storage la s =
     NewReplicatedStorage la (ms_nodeIndex s) (ms_nodeAddrs s) (ms_internodeAddrs s) (ms_replicationFactor s)"

section \<open>Points from outside\<close>

text \<open>\<open>labels.FromMap\<close>: the pairs of the map, sorted by name. \<open>ord\<close> is the order of the range loop.\<close>

definition FromMap :: "string gomap \<Rightarrow> labels" where
  "FromMap m = sort_key fst m"

definition sanitized_labels :: "(string gomap \<Rightarrow> string gomap) \<Rightarrow> point \<Rightarrow> labels" where
  "sanitized_labels ord p =
     (let m = foldl (\<lambda>m (label, v). gm_set m (SanitizeLabelName label) v) [] (ord (p_Labels p))
      in FromMap (gm_set m MetricName (SanitizeMetricName (p_Name p))))"

fun queue_loop ::
    "(string gomap \<Rightarrow> string gomap) \<Rightarrow> (string \<Rightarrow> nat list) \<Rightarrow> point list \<Rightarrow> nodeAppender option list \<times> nat \<Rightarrow>
     (nodeAppender option list \<times> nat) option" where
  "queue_loop ord lookup [] st = Some st"
| "queue_loop ord lookup (p # ps) st =
     (if \<not> IsValidFloat (p_Value p) then queue_loop ord lookup ps st
      else (case replicated_Add lookup (sanitized_labels ord p, p_Timestamp p, p_Value p) (fst st) of
              None \<Rightarrow> None
            | Some apps \<Rightarrow> queue_loop ord lookup ps (apps, snd st + 1)))"

datatype callback_error = GobDecodeError

text \<open>The state: the appenders of the nodes, the local store with its counter, and the metric.\<close>

definition queuePoints ::
    "(byte list \<Rightarrow> point list \<times> bool) \<Rightarrow> (string gomap \<Rightarrow> string gomap) \<Rightarrow> (string \<Rightarrow> nat list) \<Rightarrow>
     (point list \<Rightarrow> 'w \<Rightarrow> ('e + unit) \<times> 'w) \<Rightarrow> byte list \<Rightarrow> nodeAppender option list \<times> ('w \<times> int) \<times> nat \<Rightarrow>
     ((callback_error + unit) \<times> nodeAppender option list \<times> ('w \<times> int) \<times> nat) outcome" where
  "queuePoints dec ord lookup wr payload st =
     (case st of (apps, wn, ingress) \<Rightarrow>
        (case dec payload of
           (_, True) \<Rightarrow> Returns (Inl GobDecodeError, st)
         | (points, False) \<Rightarrow>
             (case queue_loop ord lookup points (apps, 0) of
                None \<Rightarrow> Panics
              | Some (apps, k) \<Rightarrow>
                  (case replicated_Commit wr apps wn of
                     None \<Rightarrow> Panics
                   | Some (apps, wn) \<Rightarrow> Returns (Inr (), apps, wn, ingress + k)))))"

section \<open>Points from other nodes\<close>

fun add_points :: "point list \<Rightarrow> appender \<times> nat \<Rightarrow> appender \<times> nat" where
  "add_points [] st = st"
| "add_points (p # ps) st =
     (case Add (ConvertLabels p) (p_Timestamp p) (p_Value p) (fst st) of
        (Inl _, a) \<Rightarrow> add_points ps (a, snd st)
      | (Inr _, a) \<Rightarrow> add_points ps (a, snd st + 1))"

text \<open>An error of the decoder is logged, and the points decoded before it are written.\<close>

definition writePoints ::
    "(byte list \<Rightarrow> point list \<times> bool) \<Rightarrow> (point list \<Rightarrow> 'w \<Rightarrow> ('e + unit) \<times> 'w) \<Rightarrow>
     byte list \<Rightarrow> appender \<times> ('w \<times> int) \<times> nat \<Rightarrow> ('e + unit) \<times> appender \<times> ('w \<times> int) \<times> nat" where
  "writePoints dec wr payload st =
     (case st of (a, wn, collected) \<Rightarrow>
        (case add_points (fst (dec payload)) (a, 0) of (a, k) \<Rightarrow>
           (case Commit wr a wn of
              (Inl e, a, wn) \<Rightarrow> (Inl e, a, wn, collected)
            | (Inr _, a, wn) \<Rightarrow> (Inr (), a, wn, collected + k))))"

section \<open>Ingress\<close>

definition ingress_samples :: "(string gomap \<Rightarrow> string gomap) \<Rightarrow> point list \<Rightarrow> sample list" where
  "ingress_samples ord ps =
     map (\<lambda>p. (sanitized_labels ord p, p_Timestamp p, p_Value p)) (filter (\<lambda>p. IsValidFloat (p_Value p)) ps)"

lemma queue_loop_eq:
  "queue_loop ord lookup ps (apps, k) =
     map_option (\<lambda>apps. (apps, k + length (ingress_samples ord ps))) (add_all lookup (ingress_samples ord ps) apps)"
  by (induction ps arbitrary: apps k) (auto simp: ingress_samples_def split: option.splits)

lemma FromMap_ok: "gomap_ok m \<Longrightarrow> gomap_ok (FromMap m) \<and> map_of (FromMap m) = map_of m \<and> set (FromMap m) = set m"
  unfolding FromMap_def using map_of_perm [of m "sort_key fst m"] by (simp add: sort_key_distinct)

lemma sanitized_labels_names:
  shows "labels_Get (sanitized_labels ord p) MetricName = SanitizeMetricName (p_Name p)"
    and "\<forall>kv \<in> set (sanitized_labels ord p). valid_name label_char (fst kv)"
proof -
  let ?m = "foldl (\<lambda>m (label, v). gm_set m (SanitizeLabelName label) v) [] (ord (p_Labels p))"
  let ?ok = "\<lambda>m. gomap_ok m \<and> (\<forall>kv \<in> set m. valid_name label_char (fst kv))"
  have step: "?ok m \<Longrightarrow> valid_name label_char k \<Longrightarrow> ?ok (gm_set m k v)" for m :: "string gomap" and k v
    using distinct_update [of m k v] set_update_subset [of _ k v m] by fastforce
  have "?ok m \<Longrightarrow> ?ok (foldl (\<lambda>m (label, v). gm_set m (SanitizeLabelName label) v) m ls)"
    for m :: "string gomap" and ls
  proof (induction ls arbitrary: m)
    case (Cons l ls)
    have "?ok (gm_set m (SanitizeLabelName (fst l)) (snd l))"
      by (rule step [OF Cons.prems]) (simp add: SanitizeLabelName_def sanitize_valid)
    from Cons.IH [OF this] show ?case by (simp add: case_prod_beta)
  qed simp
  from this [of "[]" "ord (p_Labels p)"] have "?ok ?m" by simp
  moreover have "valid_name label_char MetricName"
    by (simp add: valid_name_def MetricName_def label_char_def is_lower_def is_upper_def less_Suc_eq numeral_eq_Suc nth_Cons')
  ultimately have ok: "?ok (gm_set ?m MetricName (SanitizeMetricName (p_Name p)))" by (rule step)
  then show "labels_Get (sanitized_labels ord p) MetricName = SanitizeMetricName (p_Name p)"
    and "\<forall>kv \<in> set (sanitized_labels ord p). valid_name label_char (fst kv)"
    using FromMap_ok [of "gm_set ?m MetricName (SanitizeMetricName (p_Name p))"]
    by (simp_all add: sanitized_labels_def Let_def labels_Get_def update_conv')
qed

text \<open>
  C11: A batch that arrives at the ingress port of a node of a cluster is routed: nothing panics;
  its numeric points, with names sanitised to Prometheus' rules, are given to the ring buffers
  of exactly the other nodes that hold them, in order, those the node holds itself are written
  to the local store, and the metric counts them. A batch that cannot be decoded changes nothing.
\<close>

theorem ingress_points_routed:
  assumes "made_table rt (length addrs) rf" "li < length addrs" "ap_points a = []"
    and "createAppenders li addrs (Inr a) = (apps, e)" and "dec payload = (pts, failed)"
  shows "if failed
    then queuePoints dec ord (RoutingTable_Lookup hsh jump rt) wr payload (apps, wn, n) = Returns (Inl GobDecodeError, apps, wn, n)
    else \<exists>apps'. queuePoints dec ord (RoutingTable_Lookup hsh jump rt) wr payload (apps, wn, n) =
        Returns (Inr (), apps', snd (snd (Commit wr (add_samples (routed (RoutingTable_Lookup hsh jump rt) li (ingress_samples ord pts)) a) wn)),
          n + length (filter (\<lambda>p. IsValidFloat (p_Value p)) pts))
      \<and> (\<forall>i < length addrs. i \<noteq> li \<longrightarrow> (\<exists>r. apps' ! i = Some (RemoteNode r) \<and> ra_points r = []
           \<and> ra_buffer r = map remote_point (routed (RoutingTable_Lookup hsh jump rt) i (ingress_samples ord pts))))
      \<and> (\<forall>s \<in> set (ingress_samples ord pts). valid_name metric_char (labels_Get (fst s) MetricName)
           \<and> (\<forall>kv \<in> set (fst s). valid_name label_char (fst kv)))"
proof (cases failed)
  case False
  let ?lk = "RoutingTable_Lookup hsh jump rt" and ?ss = "ingress_samples ord pts"
  obtain apps1 apps2 where w: "add_all ?lk ?ss apps = Some apps1"
    "replicated_Commit wr apps1 wn = Some (apps2, snd (snd (Commit wr (add_samples (routed ?lk li ?ss) a) wn)))"
    "\<forall>i < length addrs. i \<noteq> li \<longrightarrow> (\<exists>r. apps2 ! i = Some (RemoteNode r) \<and> ra_points r = []
         \<and> ra_buffer r = map remote_point (routed ?lk i ?ss))"
    using cluster_write [OF assms(1-4), of hsh jump ?ss wr wn] by blast
  have "queuePoints dec ord ?lk wr payload (apps, wn, n) = Returns (Inr (), apps2,
      snd (snd (Commit wr (add_samples (routed ?lk li ?ss) a) wn)), n + length (filter (\<lambda>p. IsValidFloat (p_Value p)) pts))"
    using w(1,2) assms(5) False by (simp add: queuePoints_def queue_loop_eq ingress_samples_def)
  moreover have "valid_name metric_char (SanitizeMetricName nm)" for nm
    by (simp add: SanitizeMetricName_def sanitize_valid)
  ultimately show ?thesis using w(3) False
    by (auto simp: ingress_samples_def sanitized_labels_names)
qed (simp add: queuePoints_def assms(5))

text \<open>A decoder for the examples: one point per byte, at that time; an empty payload fails.\<close>

definition ex_dec :: "byte list \<Rightarrow> point list \<times> bool" where
  "ex_dec bs =
     (map (\<lambda>b. \<lparr>p_Name = ''m-1'', p_Timestamp = uint b, p_Value = Fin 1, p_Labels = [(''a.b'', ''x'')]\<rparr>) bs, bs = [])"

theorem ingress_points_routed_witness:
  "\<exists>apps' wn'. queuePoints ex_dec id (RoutingTable_Lookup (\<lambda>s. int (length s)) (\<lambda>n h. nat h mod n) (projr (NewRoutingTable 0 [''a'', ''b'', ''c''] 2)))
       (WritePoints mem_db (\<lambda>_. True) rev) [5, 6] (fst (createAppenders 0 [''a'', ''b'', ''c''] (Inr (NewAppender []))), (\<lparr>ad_influx = [], ad_shards = []\<rparr>, 0), 7)
       = Returns (Inr (), apps', wn', 9)
     \<and> (\<exists>r. apps' ! 1 = Some (RemoteNode r) \<and> map p_Timestamp (ra_buffer r) = [5, 6]
         \<and> map p_Labels (ra_buffer r) = [[(''__name__'', ''m_1''), (''a_b'', ''x'')], [(''__name__'', ''m_1''), (''a_b'', ''x'')]])"
proof -
  let ?rt = "projr (NewRoutingTable 0 [''a'', ''b'', ''c''] 2)" and ?jump = "\<lambda>n h. nat h mod n" and ?sum = "\<lambda>s. int (length s)"
  let ?lk = "RoutingTable_Lookup ?sum ?jump ?rt"
  let ?apps = "createAppenders 0 [''a'', ''b'', ''c''] (Inr (NewAppender []))"
  let ?wr = "WritePoints mem_db (\<lambda>_. True) rev" and ?wn = "(\<lparr>ad_influx = [], ad_shards = []\<rparr>, 0)"
  have mt: "made_table ?rt (length [''a'', ''b'', ''c'']) 2"
    unfolding made_table_def by (intro exI [where x = 0] exI [where x = "[''a'', ''b'', ''c'']"]) (simp add: NewRoutingTable_def)
  have la: "0 < length [''a'', ''b'', ''c'']" "ap_points (NewAppender []) = []" by (simp_all add: NewAppender_def)
  have d: "ex_dec [5, 6] = (fst (ex_dec [5, 6]), False)" by (simp add: ex_dec_def)
  let ?ss = "ingress_samples id (fst (ex_dec [5, 6]))"
  have l: "length (filter (\<lambda>p. IsValidFloat (p_Value p)) (fst (ex_dec [5, 6]))) = 2" by (simp add: ex_dec_def IsValidFloat_def)
  obtain apps' wn' where q: "queuePoints ex_dec id ?lk ?wr [5, 6] (fst ?apps, ?wn, 7) = Returns (Inr (), apps', wn', 7 + 2)"
    "\<forall>i < length [''a'', ''b'', ''c'']. i \<noteq> 0 \<longrightarrow> (\<exists>r. apps' ! i = Some (RemoteNode r) \<and> ra_points r = []
       \<and> ra_buffer r = map remote_point (routed ?lk i ?ss))"
    using ingress_points_routed [where dec = ex_dec and payload = "[5, 6]" and ord = id and wr = ?wr and wn = ?wn and n = 7
      and hsh = ?sum and jump = ?jump, OF mt la prod.collapse [symmetric] d, unfolded if_False l] by blast
  have "map remote_point (routed ?lk 1 ?ss) =
      map (\<lambda>t. \<lparr>p_Name = ''m_1'', p_Timestamp = t, p_Value = Fin 1, p_Labels = [(''__name__'', ''m_1''), (''a_b'', ''x'')]\<rparr>) [5, 6]"
    by code_simp
  moreover have "(1 :: nat) < length [''a'', ''b'', ''c'']" by simp
  ultimately have "\<exists>r. apps' ! 1 = Some (RemoteNode r) \<and> map p_Timestamp (ra_buffer r) = [5, 6]
      \<and> map p_Labels (ra_buffer r) = [[(''__name__'', ''m_1''), (''a_b'', ''x'')], [(''__name__'', ''m_1''), (''a_b'', ''x'')]]"
    using q(2) [rule_format, of 1] by auto
  with q(1) show ?thesis by auto
qed

text \<open>
  A node started without \<open>WithClustered\<close> has a routing table of one node and no appender for it.
\<close>

lemma standalone_panics:
  assumes "IsValidFloat (p_Value p)"
  shows "\<exists>rt. rs_routingTable (start_storage la (metricStore_New path [])) = Some rt
    \<and> queuePoints (\<lambda>_. ([p], False)) ord (RoutingTable_Lookup hsh jump rt) wr payload
        (rs_appenders (start_storage la (metricStore_New path [])), wn, n) = Panics"
  using assms
  by (simp add: start_storage_def NewReplicatedStorage_def metricStore_New_def NewRoutingTable_def createAppenders_def
      queuePoints_def replicated_Add_def RoutingTable_Lookup_def Let_def)

section \<open>From node to node\<close>

definition peer_points :: "nat \<Rightarrow> point list \<Rightarrow> point list" where
  "peer_points len ps = sample_points len (map (\<lambda>p. (ConvertLabels p, p_Timestamp p, p_Value p)) ps)"

lemma add_points_eq:
  "ap_points (fst (add_points ps (a, k))) = ap_points a @ peer_points (ap_labelTruncationLength a) ps
   \<and> ap_labelTruncationLength (fst (add_points ps (a, k))) = ap_labelTruncationLength a"
  by (induction ps arbitrary: a k) (auto simp: peer_points_def sample_points_def Add_def)

definition ready :: "('w \<Rightarrow> bool) \<Rightarrow> nat \<Rightarrow> appender \<times> ('w \<times> int) \<times> nat \<Rightarrow> bool" where
  "ready okw len st \<longleftrightarrow> ap_points (fst st) = [] \<and> ap_labelTruncationLength (fst st) = len \<and> okw (fst (fst (snd st)))"

text \<open>A place where putting the same points again changes nothing.\<close>

locale idempotent_sink = point_sink +
  assumes put_again: "foldl put (foldl put v ps) ps = foldl put v ps"
begin

lemma callback_stores:
  assumes st: "ready sink_inv len st" and ok: "\<forall>p \<in> set (peer_points len (fst (dec m))). pok p"
    and takes: "\<And>ps w. \<not> isl (fst (wr ps w))"
  shows "ready sink_inv len (snd (writePoints dec wr m st))
    \<and> view (fst (fst (snd (snd (writePoints dec wr m st))))) = foldl put (view (fst (fst (snd st)))) (peer_points len (fst (dec m)))"
proof -
  obtain a w n k where s: "st = (a, (w, n), k)" by (metis prod_cases4 surj_pair)
  have a: "ap_points a = []" "ap_labelTruncationLength a = len" "sink_inv w" using st s by (simp_all add: ready_def)
  obtain a1 k1 where a1: "add_points (fst (dec m)) (a, 0) = (a1, k1)" by fastforce
  have p: "ap_points a1 = peer_points len (fst (dec m))" "ap_labelTruncationLength a1 = len"
    using add_points_eq [of "fst (dec m)" a 0] a a1 by simp_all
  obtain r w1 where r: "wr (ap_points a1) w = (r, w1)" by fastforce
  with takes [of "ap_points a1" w] have w1: "wr (ap_points a1) w = (Inr (), w1)" by (cases r) auto
  have ok1: "\<forall>p \<in> set (ap_points a1). pok p" using ok p(1) by simp
  show ?thesis
    using write_inv [OF a(3) ok1 w1] write_view [OF a(3) ok1 w1] a1 p w1 s
    by (simp add: writePoints_def Commit_def ready_def)
qed

lemma redelivered:
  assumes "ready sink_inv len st" "\<forall>p \<in> set (peer_points len (fst (dec m))). pok p"
    and takes: "\<And>ps w. \<not> isl (fst (wr ps w))"
  shows "ready sink_inv len (foldl (\<lambda>s m. snd (writePoints dec wr m s)) st (replicate (Suc k) m))
    \<and> view (fst (fst (snd (foldl (\<lambda>s m. snd (writePoints dec wr m s)) st (replicate (Suc k) m))))) =
        foldl put (view (fst (fst (snd st)))) (peer_points len (fst (dec m)))"
  using assms(1)
proof (induction k arbitrary: st)
  case 0
  then show ?case using callback_stores [where dec = dec and m = m, OF _ assms(2) takes] by simp
next
  case (Suc k)
  let ?st = "snd (writePoints dec wr m st)"
  have c: "ready sink_inv len ?st" "view (fst (fst (snd ?st))) = foldl put (view (fst (fst (snd st)))) (peer_points len (fst (dec m)))"
    using callback_stores [where dec = dec and m = m, OF Suc.prems assms(2) takes] by auto
  show ?case using Suc.IH [OF c(1)] c(2) put_again by simp
qed

lemma delivered_stored:
  assumes "ready sink_inv len st" "list_all2 (\<lambda>k m. 1 \<le> k \<and> (\<forall>p \<in> set (peer_points len (fst (dec m))). pok p)) ks ms"
    and takes: "\<And>ps w. \<not> isl (fst (wr ps w))"
  shows "view (fst (fst (snd (foldl (\<lambda>s m. snd (writePoints dec wr m s)) st (concat (map2 replicate ks ms)))))) =
    foldl put (view (fst (fst (snd st)))) (concat (map (\<lambda>m. peer_points len (fst (dec m))) ms))"
  using assms(2,1)
proof (induction arbitrary: st rule: list_all2_induct)
  case (Cons k ks m ms)
  then obtain j where k: "k = Suc j" by (cases k) auto
  let ?st = "foldl (\<lambda>s m. snd (writePoints dec wr m s)) st (replicate k m)"
  have r: "ready sink_inv len ?st" "view (fst (fst (snd ?st))) = foldl put (view (fst (fst (snd st)))) (peer_points len (fst (dec m)))"
    using redelivered [where dec = dec and m = m and k = j, OF Cons.prems _ takes] Cons.hyps(1) k by auto
  show ?case using Cons.IH [OF r(1)] r(2) by simp
qed simp

end

lemma merge_fields_foldl:
  "foldl merge_fields old ps =
     (if ps = [] then old
      else Some ((case old of None \<Rightarrow> Map.empty | Some f \<Rightarrow> f) ++ foldl (++) Map.empty (map (\<lambda>p. map_of (ip_fields p)) ps)))"
  by (induction ps rule: rev_induct) (auto simp: merge_fields_def split: option.splits)

lemma put_points_again:
  "foldl (\<lambda>m p. put_point m (ToInfluxPoint p)) (foldl (\<lambda>m p. put_point m (ToInfluxPoint p)) v ps) ps =
     foldl (\<lambda>m p. put_point m (ToInfluxPoint p)) v ps"
proof -
  have again: "f ++ m ++ m = f ++ m" "m ++ m = m" for f m :: fieldmap
    by (auto simp: map_add_def fun_eq_iff split: option.splits)
  have "foldl put_point (foldl put_point v qs) qs = foldl put_point v qs" for qs
    by (rule ext) (simp add: foldl_put_point merge_fields_foldl again split: option.splits)
  from this [of "map ToInfluxPoint ps"] show ?thesis by (simp add: foldl_map)
qed

interpretation peer: idempotent_sink "WritePoints db okp ord"
    "\<lambda>t. stores_points db content \<and> (\<forall>bs. mset (ord bs) = mset bs) \<and> adapter_inv content t"
    "stored content" "\<lambda>m p. put_point m (ToInfluxPoint p)" "\<lambda>p. ts_ok (p_Timestamp p)"
  for db okp ord content
  by unfold_locales (rule put_points_again)


text \<open>An encoding of batches of points that differ in their times only.\<close>

definition ex_batch :: "int list \<Rightarrow> point list" where
  "ex_batch ts = map (\<lambda>t. \<lparr>p_Name = ''m-1'', p_Timestamp = t, p_Value = Fin 1, p_Labels = [(''a.b'', ''x'')]\<rparr>) ts"

definition ex_gob :: "point list \<Rightarrow> byte list" where
  "ex_gob ps = map (\<lambda>p. word_of_int (p_Timestamp p)) ps"

lemma mem_takes: "\<not> isl (fst (WritePoints mem_db (\<lambda>_. True) rev ps t))"
  using mem_write_ok by (auto simp: WritePoints_def ToInfluxPoints_all split: prod.splits sum.splits)


end
