(* ===== verification/Net_Lifecycle.thy ===== *)
theory Net_Lifecycle
  imports Lean_Streams
begin

text \<open>
  The life of a listener and of a connection of \<open>pkg/leanstreams\<close>: the goroutines of
  \<open>tcplistener.go\<close> as a transition system, in which the accept loop, the read loops, \<open>Close\<close>
  and \<open>RestartListeningAsync\<close> interleave at their locks, and \<open>connection.go\<close>.
\<close>

section \<open>The listener\<close>

text \<open>
  \<open>Closing\<close> has closed the socket and waits for the read loops, \<open>Resetting\<close> has seen all of
  them end and is about to reset the count.
\<close>

datatype phase = Serving | Closing | Resetting | Stopped

record listener =
  li_MaxMessageSize :: nat
  li_tlsConfig :: bool
  li_metrics :: bool
  li_socketTLS :: bool
  li_phase :: phase
  li_listening :: bool
  li_accepted :: nat
  li_readers :: nat
  li_connectionCount :: int
  li_metric :: "int option"

definition ListenTCP :: "nat \<Rightarrow> bool \<Rightarrow> bool \<Rightarrow> listener" where
  "ListenTCP sz tls metrics =
     \<lparr>li_MaxMessageSize = (if sz \<noteq> 0 then sz else DefaultMaxMessageSize), li_tlsConfig = tls, li_metrics = metrics,
      li_socketTLS = tls, li_phase = Serving, li_listening = False, li_accepted = 0, li_readers = 0,
      li_connectionCount = 0, li_metric = None\<rparr>"

definition set_count :: "int \<Rightarrow> listener \<Rightarrow> listener" where
  "set_count n l = l\<lparr>li_connectionCount := n, li_metric := (if li_metrics l then Some n else li_metric l)\<rparr>"

definition register :: "listener \<Rightarrow> listener" where
  "register l = set_count (li_connectionCount l + 1) (l\<lparr>li_accepted := 0, li_readers := li_readers l + 1\<rparr>)"

definition reader_done :: "listener \<Rightarrow> listener" where
  "reader_done l = set_count (li_connectionCount l - 1) (l\<lparr>li_readers := li_readers l - 1\<rparr>)"

text \<open>Listening again may fail; the count has been reset then, and the old socket stays closed.\<close>

definition reopenSocket :: "bool \<Rightarrow> listener \<Rightarrow> listener" where
  "reopenSocket ok l =
     (let l = set_count 0 l in if ok then l\<lparr>li_socketTLS := True, li_phase := Serving\<rparr> else l)"

inductive listener_step :: "listener \<Rightarrow> listener \<Rightarrow> bool" where
  StartListeningAsync: "\<not> li_listening l \<Longrightarrow> listener_step l (l\<lparr>li_listening := True\<rparr>)"
| accept: "li_listening l \<Longrightarrow> li_accepted l = 0 \<Longrightarrow> li_phase l = Serving \<Longrightarrow> listener_step l (l\<lparr>li_accepted := 1\<rparr>)"
| accept_stops: "li_listening l \<Longrightarrow> li_accepted l = 0 \<Longrightarrow> li_phase l \<noteq> Serving \<Longrightarrow> listener_step l (l\<lparr>li_listening := False\<rparr>)"
| register: "li_accepted l = 1 \<Longrightarrow> listener_step l (register l)"
| reader_done: "0 < li_readers l \<Longrightarrow> listener_step l (reader_done l)"
| Close: "li_phase l = Serving \<Longrightarrow> listener_step l (l\<lparr>li_phase := Closing\<rparr>)"
| Close_waited: "li_phase l = Closing \<Longrightarrow> li_readers l = 0 \<Longrightarrow> listener_step l (l\<lparr>li_phase := Resetting\<rparr>)"
| Close_reset: "li_phase l = Resetting \<Longrightarrow> listener_step l (set_count 0 (l\<lparr>li_phase := Stopped\<rparr>))"
| Restart: "li_phase l = Stopped \<Longrightarrow> \<not> li_listening l \<Longrightarrow> li_readers l = 0 \<Longrightarrow> listener_step l (reopenSocket ok l)"

inductive_cases listener_stepE: "listener_step l l'"

definition OpenConnections :: "listener \<Rightarrow> int" where
  "OpenConnections l = li_connectionCount l"

definition listener_inv :: "listener \<Rightarrow> bool" where
  "listener_inv l \<longleftrightarrow>
     li_accepted l \<le> 1 \<and> (li_accepted l = 1 \<longrightarrow> li_listening l)
     \<and> (li_phase l = Serving \<or> li_phase l = Closing \<longrightarrow> li_connectionCount l = int (li_readers l))
     \<and> (li_phase l = Resetting \<longrightarrow> li_connectionCount l = int (li_readers l) \<and> li_readers l + li_accepted l \<le> 1)
     \<and> (li_phase l = Stopped \<longrightarrow>
          int (li_readers l) - 1 \<le> li_connectionCount l \<and> li_connectionCount l \<le> int (li_readers l))
     \<and> (if li_metrics l
          then li_metric l = None \<and> li_connectionCount l = 0 \<or> li_metric l = Some (li_connectionCount l)
          else li_metric l = None)"

lemma listener_step_inv: "listener_step l l' \<Longrightarrow> listener_inv l \<Longrightarrow> listener_inv l'"
proof (induction rule: listener_step.induct)
  case (Restart l ok)
  then have "li_accepted l \<le> 1" "li_accepted l = 1 \<longrightarrow> li_listening l" by (auto simp: listener_inv_def)
  with Restart show ?case by (cases ok) (auto simp: listener_inv_def reopenSocket_def set_count_def Let_def)
qed (auto simp: listener_inv_def register_def reader_done_def set_count_def)

text \<open>A connection accepted just before \<open>Close\<close> and registered between its wait and its reset.\<close>

lemma late_connection: "\<exists>l. listener_step\<^sup>*\<^sup>* (ListenTCP sz tls m) l \<and> OpenConnections l = - 1"
proof -
  let ?l0 = "ListenTCP sz tls m"
  let ?l1 = "?l0\<lparr>li_listening := True, li_accepted := 1, li_phase := Resetting\<rparr>"
  have "listener_step\<^sup>*\<^sup>* ?l0 (?l0\<lparr>li_listening := True\<rparr>)"
    by (rule r_into_rtranclp, rule StartListeningAsync) (simp add: ListenTCP_def)
  then have "listener_step\<^sup>*\<^sup>* ?l0 (?l0\<lparr>li_listening := True, li_accepted := 1\<rparr>)"
    by (rule rtranclp.rtrancl_into_rtrancl) (rule accept, simp_all add: ListenTCP_def)
  then have "listener_step\<^sup>*\<^sup>* ?l0 (?l0\<lparr>li_listening := True, li_accepted := 1, li_phase := Closing\<rparr>)"
    by (rule rtranclp.rtrancl_into_rtrancl) (rule Close, simp_all add: ListenTCP_def)
  then have "listener_step\<^sup>*\<^sup>* ?l0 ((?l0\<lparr>li_listening := True, li_accepted := 1, li_phase := Closing\<rparr>)\<lparr>li_phase := Resetting\<rparr>)"
    by (rule rtranclp.rtrancl_into_rtrancl) (rule Close_waited, simp_all add: ListenTCP_def)
  then have "listener_step\<^sup>*\<^sup>* ?l0 ?l1" by simp
  then have "listener_step\<^sup>*\<^sup>* ?l0 (register ?l1)"
    by (rule rtranclp.rtrancl_into_rtrancl) (rule listener_step.register, simp)
  then have "listener_step\<^sup>*\<^sup>* ?l0 (set_count 0 ((register ?l1)\<lparr>li_phase := Stopped\<rparr>))"
    by (rule rtranclp.rtrancl_into_rtrancl) (rule Close_reset, simp add: register_def set_count_def)
  then have "listener_step\<^sup>*\<^sup>* ?l0 (reader_done (set_count 0 ((register ?l1)\<lparr>li_phase := Stopped\<rparr>)))"
    by (rule rtranclp.rtrancl_into_rtrancl) (rule listener_step.reader_done, simp add: register_def set_count_def)
  moreover have "OpenConnections (reader_done (set_count 0 ((register ?l1)\<lparr>li_phase := Stopped\<rparr>))) = - 1"
    by (simp add: reader_done_def register_def set_count_def OpenConnections_def)
  ultimately show ?thesis by blast
qed

text \<open>
  C36: Until a listener is closed, the count of open connections is the number of its running read
  loops, and the metric shows it. After \<open>Close\<close> it can be one less, and no less: a connection
  accepted before \<open>Close\<close> may be registered after the wait for the read loops and before the
  reset of the count, and the count ends at \<open>-1\<close>.
\<close>

theorem open_connections_exact:
  assumes "listener_step\<^sup>*\<^sup>* (ListenTCP sz tls m) l"
  shows "(li_phase l \<noteq> Stopped \<longrightarrow> OpenConnections l = int (li_readers l))
    \<and> int (li_readers l) - 1 \<le> OpenConnections l \<and> OpenConnections l \<le> int (li_readers l)
    \<and> (li_metric l \<noteq> None \<longrightarrow> li_metric l = Some (OpenConnections l))
    \<and> (\<exists>l'. listener_step\<^sup>*\<^sup>* (ListenTCP sz tls m) l' \<and> OpenConnections l' = - 1)"
proof -
  have "listener_inv l"
    using assms
  proof (induction rule: rtranclp_induct)
    case base
    show ?case by (simp add: listener_inv_def ListenTCP_def)
  next
    case (step y z)
    then show ?case by (blast intro: listener_step_inv)
  qed
  then show ?thesis using late_connection [of sz tls m]
    by (cases "li_phase l"; cases "li_metrics l") (auto simp: listener_inv_def OpenConnections_def)
qed

theorem open_connections_exact_witness:
  "\<exists>l. listener_step\<^sup>*\<^sup>* (ListenTCP 65536 True True) l \<and> li_phase l = Serving \<and> li_readers l = 1 \<and> OpenConnections l = 1"
proof -
  let ?l0 = "ListenTCP 65536 True True"
  let ?l1 = "?l0\<lparr>li_listening := True\<rparr>"
  let ?l2 = "?l1\<lparr>li_accepted := 1\<rparr>"
  have s1: "listener_step ?l0 ?l1" by (rule StartListeningAsync) (simp add: ListenTCP_def)
  have s2: "listener_step ?l1 ?l2" by (rule accept) (simp_all add: ListenTCP_def)
  have s3: "listener_step ?l2 (register ?l2)" by (rule listener_step.register) simp
  have r: "listener_step\<^sup>*\<^sup>* ?l0 (register ?l2)"
    by (rule converse_rtranclp_into_rtranclp [OF s1 converse_rtranclp_into_rtranclp [OF s2 r_into_rtranclp [of listener_step, OF s3]]])
  have "li_phase (register ?l2) = Serving" "li_readers (register ?l2) = 1"
    by (simp_all add: register_def set_count_def ListenTCP_def)
  then show ?thesis using open_connections_exact [OF r] r by (intro exI [where x = "register ?l2"]) simp
qed

section \<open>Connections\<close>

record connection =
  cc_clientConfig :: tcpClientConfig
  cc_client :: "tcpClient option"
  cc_done :: bool

definition NewConnection :: "string \<Rightarrow> nat \<Rightarrow> connection" where
  "NewConnection addr sz =
     \<lparr>cc_clientConfig = \<lparr>cfg_MaxMessageSize = sz, cfg_Address = addr\<rparr>, cc_client = None, cc_done = False\<rparr>"

text \<open>The loop of \<open>Connect\<close>: it dials until it gets through, and for ever when the node never listens.\<close>

function dial_forever :: "tcpClientConfig \<Rightarrow> network \<Rightarrow> (tcpClient \<times> network) outcome" where
  "dial_forever cfg w =
     (case DialTCP cfg w of
        (Inr c, w') \<Rightarrow> Returns (c, w')
      | (Inl _, w') \<Rightarrow> (if nw_dials w = [] then Blocks else dial_forever cfg w'))"
  by pat_completeness auto
termination
  by (relation "measure (\<lambda>(cfg, w). length (nw_dials w))")
     (auto simp: DialTCP_def TCPClient_Open_def newTCPClient_def Let_def split: if_splits list.splits option.splits)

declare dial_forever.simps [simp del]

definition Connect :: "connection \<Rightarrow> network \<Rightarrow> (connection \<times> network) outcome" where
  "Connect c w =
     (if cc_done c then Returns (c, w)
      else (case dial_forever (cc_clientConfig c) w of
              Returns (cl, w') \<Rightarrow> Returns (c\<lparr>cc_client := Some cl\<rparr>, w')
            | Panics \<Rightarrow> Panics
            | Blocks \<Rightarrow> Blocks))"

definition Client :: "connection \<Rightarrow> network \<Rightarrow> (connection \<times> network) outcome" where
  "Client c w = (if cc_client c = None then Connect c w else Returns (c, w))"

text \<open>
  \<open>dialing\<close>: another goroutine is inside \<open>Connect\<close> and holds the lock of the connection.
\<close>

definition Connection_Close ::
    "bool \<Rightarrow> connection \<Rightarrow> network \<Rightarrow> (neterr option \<times> connection \<times> network) outcome" where
  "Connection_Close dialing c w =
     (if cc_done c then Panics
      else if dialing then Blocks
      else (case cc_client c of
              None \<Rightarrow> Returns (None, c\<lparr>cc_done := True\<rparr>, w)
            | Some cl \<Rightarrow>
                (case TCPClient_Close cl w of
                   Returns (e, cl', w') \<Rightarrow> Returns (e, c\<lparr>cc_client := Some cl', cc_done := True\<rparr>, w')
                 | Panics \<Rightarrow> Panics
                 | Blocks \<Rightarrow> Blocks)))"

text \<open>
  \<open>Connect\<close> gets a client exactly when some dial works, and loses the failed dials only; it
  waits for ever when none does, holding the lock that \<open>Close\<close> needs.
\<close>

lemma Connect_returns_iff:
  "\<not> cc_done c \<Longrightarrow>
   (\<exists>c' w'. Connect c w = Returns (c', w') \<and> cc_client c' \<noteq> None) \<longleftrightarrow> nw_up w \<or> True \<in> set (nw_dials w)"
proof -
  have "(\<exists>cl w'. dial_forever cfg w = Returns (cl, w')) \<longleftrightarrow> nw_up w \<or> True \<in> set (nw_dials w)" for cfg
  proof (induction cfg w rule: dial_forever.induct)
    case (1 cfg w)
    then show ?case
      by (cases "nw_dials w")
         (auto simp: dial_forever.simps [of cfg w] DialTCP_def TCPClient_Open_def newTCPClient_def Let_def)
  qed
  from this [of "cc_clientConfig c"] show "\<not> cc_done c \<Longrightarrow> ?thesis"
    by (cases "dial_forever (cc_clientConfig c) w") (auto simp: Connect_def)
qed

end
