(* ===== verification/Os_File.thy ===== *)
theory Os_File
  imports Go_Prelude
begin

text \<open>
  The part of Go's \<open>os\<close> package the hinted-handoff queue uses: one directory of files with
  contents and modification times, open handles with an offset, and the calls
  \<open>OpenFile(O_CREATE|O_RDWR)\<close>, \<open>Stat\<close>, \<open>Seek\<close>, \<open>Read\<close>, \<open>Write\<close>, \<open>Sync\<close>, \<open>Close\<close>,
  \<open>Remove\<close>, \<open>ReadDir\<close> and \<open>RemoveAll\<close>. Every call can fail: \<open>os_faults\<close> lists the outcomes of
  the calls to come (\<open>Some k\<close>: the call fails, after \<open>k\<close> bytes when it is a write); an
  empty list means that no further call fails.
\<close>

section \<open>Errors\<close>

text \<open>The errors of \<open>queue.go\<close>, \<open>io.EOF\<close>, the errors of the \<open>os\<close> calls, those of the replayer
  (closed, encoding failed, write to the node failed) and Go's panics.\<close>

datatype herr =
    ErrNotOpen | ErrQueueFull | ErrSegmentFull
  | EOF | ErrInvalid | IOError
  | BadSeek | ShortWrite | BadRead
  | RecordOutOfRange | RecordTooBig
  | QueueIsOpen
  | ReplayerClosed | EncodeError | ClientError
  | PanicNil | PanicMakeSlice | PanicIndex

section \<open>State\<close>

record os_file =
  fcontents :: "byte list"
  fmtime :: int

datatype dentry = File os_file | Dir

record os =
  os_dir :: "(string \<times> dentry) list option"
  os_clock :: int
  os_faults :: "nat option list"

record fhandle =
  fname :: string
  foff :: int

definition pop_fault :: "os \<Rightarrow> nat option \<times> os" where
  "pop_fault w = (case os_faults w of [] \<Rightarrow> (None, w) | f # fs \<Rightarrow> (f, w\<lparr>os_faults := fs\<rparr>))"

definition lookup_file :: "string \<Rightarrow> os \<Rightarrow> os_file option" where
  "lookup_file n w =
     (case os_dir w of None \<Rightarrow> None
      | Some d \<Rightarrow> (case map_of d n of Some (File f) \<Rightarrow> Some f | _ \<Rightarrow> None))"

definition put_file :: "string \<Rightarrow> os_file \<Rightarrow> os \<Rightarrow> os" where
  "put_file n f w = w\<lparr>os_dir := map_option (AList.update n (File f)) (os_dir w)\<rparr>"

definition drop_file :: "string \<Rightarrow> os \<Rightarrow> os" where
  "drop_file n w = w\<lparr>os_dir := map_option (AList.delete n) (os_dir w)\<rparr>"

section \<open>Calls\<close>

definition open_file :: "string \<Rightarrow> os \<Rightarrow> (herr + fhandle) \<times> os" where
  "open_file n w =
     (case pop_fault w of
        (Some _, w) \<Rightarrow> (Inl IOError, w)
      | (None, w) \<Rightarrow>
          (case os_dir w of
             None \<Rightarrow> (Inl IOError, w)
           | Some d \<Rightarrow>
               (case map_of d n of
                  None \<Rightarrow> (Inr \<lparr>fname = n, foff = 0\<rparr>,
                           put_file n \<lparr>fcontents = [], fmtime = os_clock w\<rparr> w)
                | Some (File _) \<Rightarrow> (Inr \<lparr>fname = n, foff = 0\<rparr>, w)
                | Some Dir \<Rightarrow> (Inl IOError, w))))"

definition stat_file :: "string \<Rightarrow> os \<Rightarrow> (herr + os_file) \<times> os" where
  "stat_file n w =
     (case pop_fault w of
        (Some _, w) \<Rightarrow> (Inl IOError, w)
      | (None, w) \<Rightarrow>
          (case lookup_file n w of None \<Rightarrow> (Inl IOError, w) | Some f \<Rightarrow> (Inr f, w)))"

definition file_seek_set :: "int \<Rightarrow> fhandle \<Rightarrow> os \<Rightarrow> (herr + int) \<times> fhandle \<times> os" where
  "file_seek_set pos h w =
     (case pop_fault w of
        (Some _, w) \<Rightarrow> (Inl IOError, h, w)
      | (None, w) \<Rightarrow>
          if pos < 0 then (Inl ErrInvalid, h, w) else (Inr pos, h\<lparr>foff := pos\<rparr>, w))"

definition file_seek_end :: "int \<Rightarrow> fhandle \<Rightarrow> os \<Rightarrow> (herr + int) \<times> fhandle \<times> os" where
  "file_seek_end off h w =
     (case pop_fault w of
        (Some _, w) \<Rightarrow> (Inl IOError, h, w)
      | (None, w) \<Rightarrow>
          (case lookup_file (fname h) w of
             None \<Rightarrow> (Inl IOError, h, w)
           | Some f \<Rightarrow>
               let pos = int (length (fcontents f)) + off
               in if pos < 0 then (Inl ErrInvalid, h, w) else (Inr pos, h\<lparr>foff := pos\<rparr>, w)))"

definition file_read :: "nat \<Rightarrow> fhandle \<Rightarrow> os \<Rightarrow> (herr + byte list) \<times> fhandle \<times> os" where
  "file_read n h w =
     (case pop_fault w of
        (Some _, w) \<Rightarrow> (Inl IOError, h, w)
      | (None, w) \<Rightarrow>
          (case lookup_file (fname h) w of
             None \<Rightarrow> (Inl IOError, h, w)
           | Some f \<Rightarrow>
               if n = 0 then (Inr [], h, w)
               else if int (length (fcontents f)) \<le> foff h then (Inl EOF, h, w)
               else let bs = take n (drop (nat (foff h)) (fcontents f))
                    in (Inr bs, h\<lparr>foff := foff h + int (length bs)\<rparr>, w)))"

text \<open>A write at an offset overwrites what is there; past the end, the gap reads as zeros.\<close>

definition splice :: "nat \<Rightarrow> byte list \<Rightarrow> byte list \<Rightarrow> byte list" where
  "splice off bs c = take off (c @ replicate (off - length c) 0) @ bs @ drop (off + length bs) c"

definition write_at :: "fhandle \<Rightarrow> byte list \<Rightarrow> os_file \<Rightarrow> os \<Rightarrow> os" where
  "write_at h bs f w =
     put_file (fname h)
       \<lparr>fcontents = splice (nat (foff h)) bs (fcontents f), fmtime = os_clock w\<rparr> w"

definition file_write :: "byte list \<Rightarrow> fhandle \<Rightarrow> os \<Rightarrow> (herr + nat) \<times> fhandle \<times> os" where
  "file_write bs h w =
     (case pop_fault w of
        (Some k, w) \<Rightarrow>
          (case lookup_file (fname h) w of
             None \<Rightarrow> (Inl IOError, h, w)
           | Some f \<Rightarrow>
               (Inl IOError, h\<lparr>foff := foff h + int (length (take k bs))\<rparr>,
                write_at h (take k bs) f w))
      | (None, w) \<Rightarrow>
          (case lookup_file (fname h) w of
             None \<Rightarrow> (Inl IOError, h, w)
           | Some f \<Rightarrow>
               (Inr (length bs), h\<lparr>foff := foff h + int (length bs)\<rparr>, write_at h bs f w)))"

definition file_sync :: "fhandle \<Rightarrow> os \<Rightarrow> (herr + unit) \<times> fhandle \<times> os" where
  "file_sync h w =
     (case pop_fault w of (Some _, w) \<Rightarrow> (Inl IOError, h, w) | (None, w) \<Rightarrow> (Inr (), h, w))"

definition file_close :: "os \<Rightarrow> (herr + unit) \<times> os" where
  "file_close w = (case pop_fault w of (Some _, w) \<Rightarrow> (Inl IOError, w) | (None, w) \<Rightarrow> (Inr (), w))"

definition remove_file :: "string \<Rightarrow> os \<Rightarrow> (herr + unit) \<times> os" where
  "remove_file n w =
     (case pop_fault w of
        (Some _, w) \<Rightarrow> (Inl IOError, w)
      | (None, w) \<Rightarrow>
          (case lookup_file n w of None \<Rightarrow> (Inl IOError, w) | Some _ \<Rightarrow> (Inr (), drop_file n w)))"

text \<open>\<open>ioutil.ReadDir\<close>: the entries sorted by file name, compared as strings.\<close>

definition read_dir :: "os \<Rightarrow> (herr + (string \<times> dentry) list) \<times> os" where
  "read_dir w =
     (case pop_fault w of
        (Some _, w) \<Rightarrow> (Inl IOError, w)
      | (None, w) \<Rightarrow>
          (case os_dir w of None \<Rightarrow> (Inl IOError, w) | Some d \<Rightarrow> (Inr (sort_key fst d), w)))"

definition remove_all :: "os \<Rightarrow> (herr + unit) \<times> os" where
  "remove_all w =
     (case pop_fault w of
        (Some _, w) \<Rightarrow> (Inl IOError, w) | (None, w) \<Rightarrow> (Inr (), w\<lparr>os_dir := None\<rparr>))"

definition mkdir_all :: "os \<Rightarrow> (herr + unit) \<times> os" where
  "mkdir_all w =
     (case pop_fault w of
        (Some _, w) \<Rightarrow> (Inl IOError, w)
      | (None, w) \<Rightarrow>
          (Inr (), w\<lparr>os_dir := (case os_dir w of None \<Rightarrow> Some [] | Some d \<Rightarrow> Some d)\<rparr>))"

section \<open>Laws\<close>

lemma pop_fault_none [simp]: "os_faults w = [] \<Longrightarrow> pop_fault w = (None, w)"
  by (simp add: pop_fault_def)

lemma put_file_fields [simp]:
  "os_faults (put_file n f w) = os_faults w"
  "os_clock (put_file n f w) = os_clock w"
  by (simp_all add: put_file_def)

lemma drop_file_fields [simp]:
  "os_faults (drop_file n w) = os_faults w"
  "os_clock (drop_file n w) = os_clock w"
  by (simp_all add: drop_file_def)

lemma lookup_put_file:
  "os_dir w \<noteq> None \<Longrightarrow>
     lookup_file m (put_file n f w) = (if m = n then Some f else lookup_file m w)"
  by (auto simp: lookup_file_def put_file_def update_conv' split: option.splits)

lemma lookup_file_dir: "lookup_file n w = Some f \<Longrightarrow> os_dir w \<noteq> None"
  by (auto simp: lookup_file_def split: option.splits)

lemma lookup_put_file_old [simp]:
  "lookup_file k w = Some g \<Longrightarrow>
     lookup_file m (put_file n f w) = (if m = n then Some f else lookup_file m w)"
  by (rule lookup_put_file) (rule lookup_file_dir)

lemma lookup_drop_file: "m \<noteq> n \<Longrightarrow> lookup_file m (drop_file n w) = lookup_file m w"
  by (auto simp: lookup_file_def drop_file_def delete_conv' split: option.splits)

lemma put_file_put_file [simp]:
  "put_file n f (put_file n g w) = put_file n f w"
  by (cases "os_dir w") (auto simp: put_file_def)

lemma splice_end: "off = length c \<Longrightarrow> splice off bs c = c @ bs"
  by (simp add: splice_def)

lemma splice_tail:
  "off \<le> length c \<Longrightarrow> length c \<le> off + length bs \<Longrightarrow> splice off bs c = take off c @ bs"
  by (simp add: splice_def)

end
