(* ===== verification/Segment.thy ===== *)
theory Segment
  imports Os_File
begin

text \<open>
  The segment file of the hinted-handoff queue (\<open>internal/handoff/queue.go\<close>, type
  \<open>segment\<close>): a file of length-prefixed blocks with an 8-byte footer that holds the
  position of the current block. The first part translates the methods statement by
  statement, over the file calls of \<open>Os_File\<close>; the second gives the layout of the file
  (\<open>seg_image\<close>), the invariant that ties the struct to it (\<open>seg_rep\<close>), and the effect of
  every method on the blocks consumed and pending. A method runs under the segment's lock
  and is one step here. Paths are names relative to the queue's directory.
\<close>

section \<open>The struct and its methods\<close>

record segment =
  sg_size :: int
  sg_file :: "fhandle option"
  sg_path :: string
  sg_pos :: int
  sg_currentSize :: int
  sg_maxSize :: int

type_synonym seg_state = "segment \<times> os"

definition footerSize :: int where
  "footerSize = 8"

text \<open>A method of \<open>*os.File\<close> on the field \<open>file\<close>; on a nil file it returns \<open>ErrInvalid\<close>.\<close>

definition with_file ::
    "(fhandle \<Rightarrow> os \<Rightarrow> (herr + 'a) \<times> fhandle \<times> os) \<Rightarrow> seg_state \<Rightarrow> (herr + 'a) \<times> seg_state" where
  "with_file f st =
     (case sg_file (fst st) of
        None \<Rightarrow> (Inl ErrInvalid, st)
      | Some h \<Rightarrow>
          (case f h (snd st) of (r, h', w') \<Rightarrow> (r, (fst st)\<lparr>sg_file := Some h'\<rparr>, w')))"

definition seek :: "int \<Rightarrow> seg_state \<Rightarrow> (herr + unit) \<times> seg_state" where
  "seek pos st =
     seqE (with_file (file_seek_set pos) st)
       (\<lambda>n st. if n \<noteq> pos then (Inl BadSeek, st) else (Inr (), st))"

definition seekEnd :: "int \<Rightarrow> seg_state \<Rightarrow> (herr + unit) \<times> seg_state" where
  "seekEnd pos st = seqE (with_file (file_seek_end pos) st) (\<lambda>_ st. (Inr (), st))"

definition seekToCurrent :: "seg_state \<Rightarrow> (herr + unit) \<times> seg_state" where
  "seekToCurrent st = seek (sg_pos (fst st)) st"

definition readBytes :: "nat \<Rightarrow> seg_state \<Rightarrow> (herr + byte list) \<times> seg_state" where
  "readBytes n st =
     seqE (with_file (file_read n) st)
       (\<lambda>b st. if length b \<noteq> n then (Inl BadRead, st) else (Inr b, st))"

definition readUint64 :: "seg_state \<Rightarrow> (herr + int) \<times> seg_state" where
  "readUint64 st = seqE (readBytes 8 st) (\<lambda>b st. (Inr (get_uint64 b), st))"

definition writeBytes :: "byte list \<Rightarrow> seg_state \<Rightarrow> (herr + unit) \<times> seg_state" where
  "writeBytes b st =
     seqE (with_file (file_write b) st)
       (\<lambda>n st. if n \<noteq> length b then (Inl ShortWrite, st) else (Inr (), st))"

definition writeUint64 :: "int \<Rightarrow> seg_state \<Rightarrow> (herr + unit) \<times> seg_state" where
  "writeUint64 sz st = writeBytes (put_uint64 sz) st"

definition segment_open :: "seg_state \<Rightarrow> (herr + unit) \<times> seg_state" where
  "segment_open st =
     (if sg_size (fst st) = 0
      then seqE (writeUint64 (u64 0) ((fst st)\<lparr>sg_pos := 0, sg_currentSize := 0\<rparr>, snd st))
             (\<lambda>_ st. seqE (with_file file_sync st)
             (\<lambda>_ (s, w). (Inr (), s\<lparr>sg_size := footerSize\<rparr>, w)))
      else seqE (seekEnd (- footerSize) st)
             (\<lambda>_ st. seqE (readUint64 st)
             (\<lambda>pos (s, w). seqE (seekToCurrent (s\<lparr>sg_pos := i64 pos\<rparr>, w))
             (\<lambda>_ st. if sg_pos (fst st) < i64 (sg_size (fst st) - footerSize)
                     then seqE (readUint64 st)
                            (\<lambda>sz (s, w). (Inr (), s\<lparr>sg_currentSize := i64 sz\<rparr>, w))
                     else (Inr (), st)))))"

definition newSegment :: "string \<Rightarrow> int \<Rightarrow> os \<Rightarrow> (herr + segment) \<times> os" where
  "newSegment path mx w =
     seqE (open_file path w)
       (\<lambda>f w. seqE (stat_file path w)
       (\<lambda>stats w.
          let s = \<lparr>sg_size = int (length (fcontents stats)), sg_file = Some f, sg_path = path,
                   sg_pos = 0, sg_currentSize = 0, sg_maxSize = mx\<rparr>
          in (case segment_open (s, w) of
                (Inl e, s', w') \<Rightarrow> (Inl e, w')
              | (Inr _, s', w') \<Rightarrow> (Inr s', w'))))"

definition segment_append :: "byte list \<Rightarrow> seg_state \<Rightarrow> (herr + unit) \<times> seg_state" where
  "segment_append b st =
     (if sg_file (fst st) = None then (Inl ErrNotOpen, st)
      else if i64 (sg_size (fst st) + int (length b)) > sg_maxSize (fst st)
      then (Inl ErrSegmentFull, st)
      else seqE (seekEnd (- footerSize) st)
        (\<lambda>_ st.
           let blockPlusFooter =
                 put_uint64 (int (length b)) @ b @ put_uint64 (u64 (sg_pos (fst st)))
           in seqE (writeBytes blockPlusFooter st)
        (\<lambda>_ st. seqE (with_file file_sync st)
        (\<lambda>_ (s, w).
           let s = (if sg_currentSize s = 0 then s\<lparr>sg_currentSize := int (length b)\<rparr> else s)
           in (Inr (), s\<lparr>sg_size := i64 (sg_size s + (int (length b) + 8))\<rparr>, w)))))"

definition segment_current :: "seg_state \<Rightarrow> (herr + byte list) \<times> seg_state" where
  "segment_current st =
     (if sg_pos (fst st) = i64 (sg_size (fst st) - 8) then (Inl EOF, st)
      else seqE (seekToCurrent st)
        (\<lambda>_ st. seqE (readUint64 st)
        (\<lambda>sz (s, w).
           let s = s\<lparr>sg_currentSize := i64 sz\<rparr>
           in if i64 sz > sg_maxSize s then (Inl RecordOutOfRange, s, w)
              else if i64 sz > 512 * 1024 then (Inl RecordTooBig, s, w)
              else if i64 sz < 0 then (Inl PanicMakeSlice, s, w)
              else readBytes (nat sz) (s, w))))"

definition segment_advance :: "seg_state \<Rightarrow> (herr + unit) \<times> seg_state" where
  "segment_advance st =
     (if sg_file (fst st) = None then (Inl ErrNotOpen, st)
      else if sg_pos (fst st) = i64 (sg_size (fst st) - footerSize)
      then (Inl EOF, (fst st)\<lparr>sg_currentSize := 0\<rparr>, snd st)
      else seqE (seekEnd (- footerSize) st)
        (\<lambda>_ st.
           let pos = i64 (sg_pos (fst st) + sg_currentSize (fst st) + 8)
           in seqE (writeUint64 (u64 pos) st)
        (\<lambda>_ st. seqE (with_file file_sync st)
        (\<lambda>_ (s, w). seqE (seekToCurrent (s\<lparr>sg_pos := pos\<rparr>, w))
        (\<lambda>_ st. seqE (readUint64 st)
        (\<lambda>sz (s, w).
           let s = s\<lparr>sg_currentSize := i64 sz\<rparr>
           in if sg_pos s = i64 (sg_size s - footerSize)
              then (Inl EOF, s\<lparr>sg_currentSize := 0\<rparr>, w)
              else (Inr (), s, w)))))))"

definition segment_close :: "seg_state \<Rightarrow> (herr + unit) \<times> seg_state" where
  "segment_close st =
     (case sg_file (fst st) of
        None \<Rightarrow> (Inl ErrInvalid, st)
      | Some _ \<Rightarrow>
          (case file_close (snd st) of
             (Inl e, w) \<Rightarrow> (Inl e, fst st, w)
           | (Inr _, w) \<Rightarrow> (Inr (), (fst st)\<lparr>sg_file := None\<rparr>, w)))"

definition segment_lastModified :: "seg_state \<Rightarrow> (herr + int) \<times> seg_state" where
  "segment_lastModified st =
     (case sg_file (fst st) of
        None \<Rightarrow> (Inl PanicNil, st)
      | Some h \<Rightarrow>
          (case stat_file (fname h) (snd st) of
             (Inl e, w) \<Rightarrow> (Inl e, fst st, w)
           | (Inr f, w) \<Rightarrow> (Inr (fmtime f), fst st, w)))"

definition diskUsage :: "segment \<Rightarrow> int" where
  "diskUsage s = sg_size s"

definition segment_SetMaxSegmentSize :: "int \<Rightarrow> segment \<Rightarrow> segment" where
  "segment_SetMaxSegmentSize mx s = s\<lparr>sg_maxSize := mx\<rparr>"

text \<open>\<open>Seek(0, SEEK_CUR)\<close>, whose error is ignored.\<close>

definition filePos :: "seg_state \<Rightarrow> int \<times> seg_state" where
  "filePos st =
     (case sg_file (fst st) of
        None \<Rightarrow> (0, st)
      | Some h \<Rightarrow>
          (case pop_fault (snd st) of
             (Some _, w) \<Rightarrow> (0, fst st, w)
           | (None, w) \<Rightarrow> (foff h, fst st, w)))"

section \<open>Layout of a segment file\<close>

definition frame :: "byte list \<Rightarrow> byte list" where
  "frame b = put_uint64 (int (length b)) @ b"

definition frames :: "byte list list \<Rightarrow> byte list" where
  "frames bs = concat (map frame bs)"

definition seg_image :: "byte list list \<Rightarrow> byte list list \<Rightarrow> byte list" where
  "seg_image dn pd = frames dn @ frames pd @ put_uint64 (int (length (frames dn)))"

text \<open>
  \<open>seg_rep s w dn pd\<close>: the segment is open, its file holds the blocks \<open>dn\<close> (consumed)
  and \<open>pd\<close> (pending), and the struct's fields agree with the file.
\<close>

definition cur_size :: "byte list list \<Rightarrow> int" where
  "cur_size pd = (case pd of [] \<Rightarrow> 0 | b # _ \<Rightarrow> int (length b))"

definition seg_rep :: "segment \<Rightarrow> os \<Rightarrow> byte list list \<Rightarrow> byte list list \<Rightarrow> bool" where
  "seg_rep s w dn pd \<longleftrightarrow>
     map_option fname (sg_file s) = Some (sg_path s) \<and>
     map_option fcontents (lookup_file (sg_path s) w) = Some (seg_image dn pd) \<and>
     sg_pos s = int (length (frames dn)) \<and>
     sg_size s = int (length (seg_image dn pd)) \<and>
     sg_size s < 2 ^ 62 \<and>
     sg_currentSize s = cur_size pd \<and>
     [] \<notin> set pd"

subsection \<open>Lengths and slices of the image\<close>

lemma frames_simps [simp]:
  "frames [] = []"
  "frames (b # bs) = frame b @ frames bs"
  "frames (xs @ ys) = frames xs @ frames ys"
  by (simp_all add: frames_def)

lemma length_frame [simp]: "length (frame b) = length b + 8"
  by (simp add: frame_def)

lemma length_seg_image: "length (seg_image dn pd) = length (frames dn) + length (frames pd) + 8"
  by (simp add: seg_image_def)

lemma seg_image_append:
  "take (length (frames dn) + length (frames pd)) (seg_image dn pd)
     @ put_uint64 (int (length b)) @ b @ put_uint64 (int (length (frames dn)))
   = seg_image dn (pd @ [b])"
  by (simp add: seg_image_def frame_def)

lemma seg_image_advance:
  "take (length (frames dn) + length (frames (b # pd))) (seg_image dn (b # pd))
     @ put_uint64 (int (length (frames (dn @ [b]))))
   = seg_image (dn @ [b]) pd"
  by (simp add: seg_image_def)

lemma seg_image_head:
  "drop (length (frames dn)) (seg_image dn (b # pd))
   = put_uint64 (int (length b)) @ b @ frames pd @ put_uint64 (int (length (frames dn)))"
  by (simp add: seg_image_def frame_def)

lemma seg_image_exhausted:
  "drop (length (frames dn)) (seg_image dn []) = put_uint64 (int (length (frames dn)))"
  by (simp add: seg_image_def)

lemma seg_image_footer:
  "drop (length (frames dn) + length (frames pd)) (seg_image dn pd)
     = put_uint64 (int (length (frames dn)))"
  by (simp add: seg_image_def)

subsection \<open>The file calls when none fails\<close>

lemma seekEnd_ok [io_simps]:
  "os_faults w = [] \<Longrightarrow> sg_file s = Some h \<Longrightarrow> lookup_file (fname h) w = Some f \<Longrightarrow>
     0 \<le> int (length (fcontents f)) + off \<Longrightarrow>
   seekEnd off (s, w) =
     (Inr (), s\<lparr>sg_file := Some (h\<lparr>foff := int (length (fcontents f)) + off\<rparr>)\<rparr>, w)"
  by (simp add: seekEnd_def with_file_def file_seek_end_def Let_def)

lemma seek_ok [io_simps]:
  "os_faults w = [] \<Longrightarrow> sg_file s = Some h \<Longrightarrow> 0 \<le> pos \<Longrightarrow>
   seek pos (s, w) = (Inr (), s\<lparr>sg_file := Some (h\<lparr>foff := pos\<rparr>)\<rparr>, w)"
  by (simp add: seek_def with_file_def file_seek_set_def)

lemma readBytes_ok:
  "os_faults w = [] \<Longrightarrow> sg_file s = Some h \<Longrightarrow> lookup_file (fname h) w = Some f \<Longrightarrow>
     drop (nat (foff h)) (fcontents f) = b @ rest \<Longrightarrow> b \<noteq> [] \<Longrightarrow> 0 \<le> foff h \<Longrightarrow>
   readBytes (length b) (s, w) =
     (Inr b, s\<lparr>sg_file := Some (h\<lparr>foff := foff h + int (length b)\<rparr>)\<rparr>, w)"
  by (cases "int (length (fcontents f)) \<le> foff h")
    (simp_all add: readBytes_def with_file_def file_read_def)

lemma readUint64_ok:
  assumes "os_faults w = []" "sg_file s = Some h" "lookup_file (fname h) w = Some f"
    and "drop (nat (foff h)) (fcontents f) = put_uint64 x @ rest" "0 \<le> foff h"
  shows "readUint64 (s, w) = (Inr (u64 x), s\<lparr>sg_file := Some (h\<lparr>foff := foff h + 8\<rparr>)\<rparr>, w)"
  using readBytes_ok [OF assms(1-4)] assms(5) by (simp add: readUint64_def)

lemma writeBytes_ok [io_simps]:
  "os_faults w = [] \<Longrightarrow> sg_file s = Some h \<Longrightarrow> lookup_file (fname h) w = Some f \<Longrightarrow>
   writeBytes b (s, w) =
     (Inr (), s\<lparr>sg_file := Some (h\<lparr>foff := foff h + int (length b)\<rparr>)\<rparr>,
      put_file (fname h)
        \<lparr>fcontents = splice (nat (foff h)) b (fcontents f), fmtime = os_clock w\<rparr> w)"
  by (simp add: writeBytes_def with_file_def file_write_def write_at_def)

lemma sync_ok [io_simps]:
  "os_faults w = [] \<Longrightarrow> sg_file s = Some h \<Longrightarrow> with_file file_sync (s, w) = (Inr (), s, w)"
  by (simp add: with_file_def file_sync_def)

subsection \<open>Effect of the methods\<close>

lemma seg_repE:
  assumes "seg_rep s w dn pd"
  obtains h f where "sg_file s = Some h" "fname h = sg_path s"
    "lookup_file (sg_path s) w = Some f" "fcontents f = seg_image dn pd"
    "sg_pos s = int (length (frames dn))"
    "sg_size s = int (length (frames dn) + length (frames pd)) + 8"
    "sg_size s < 2 ^ 62" "sg_currentSize s = cur_size pd" "[] \<notin> set pd"
  using assms by (auto simp: seg_rep_def length_seg_image)

text \<open>The pending blocks of a segment determine when it is exhausted.\<close>

lemma frames_Nil_iff: "length (frames pd) = 0 \<longleftrightarrow> pd = []"
  by (cases pd) auto

lemma seg_at_end:
  assumes "seg_rep s w dn pd"
  shows "sg_pos s = i64 (sg_size s - 8) \<longleftrightarrow> pd = []"
proof -
  have "i64 (sg_size s - 8) = sg_size s - 8"
    using assms by (elim seg_repE) (simp add: i64_id)
  then show ?thesis
    using assms by (elim seg_repE) (auto simp: frames_Nil_iff [symmetric])
qed

text \<open>
  \<open>append\<close>: the block is written over the old footer and a new footer after it, so the
  block joins the pending ones; when it does not fit, nothing changes.
\<close>

lemma segment_append_ok:
  assumes rep: "seg_rep s w dn pd" and nofail: "os_faults w = []" and ne: "b \<noteq> []"
    and fits: "sg_size s + int (length b) \<le> sg_maxSize s"
    and small: "sg_size s + int (length b) + 8 < 2 ^ 62"
  shows "\<exists>s'. segment_append b (s, w) =
      (Inr (), s', put_file (sg_path s) \<lparr>fcontents = seg_image dn (pd @ [b]), fmtime = os_clock w\<rparr> w)
    \<and> seg_rep s' (put_file (sg_path s) \<lparr>fcontents = seg_image dn (pd @ [b]), fmtime = os_clock w\<rparr> w)
        dn (pd @ [b])
    \<and> sg_path s' = sg_path s \<and> sg_maxSize s' = sg_maxSize s
    \<and> sg_size s' = sg_size s + int (length b) + 8"
proof -
  from rep obtain h f where st: "sg_file s = Some h" "fname h = sg_path s"
    "lookup_file (sg_path s) w = Some f" "fcontents f = seg_image dn pd"
    "sg_pos s = int (length (frames dn))"
    "sg_size s = int (length (frames dn) + length (frames pd)) + 8"
    "sg_size s < 2 ^ 62" "sg_currentSize s = cur_size pd" "[] \<notin> set pd"
    by (rule seg_repE)
  define n where "n = length (frames dn) + length (frames pd)"
  have i: "i64 (sg_size s + int (length b)) = sg_size s + int (length b)"
    "i64 (sg_size s + (int (length b) + 8)) = sg_size s + int (length b) + 8"
    "u64 (sg_pos s) = sg_pos s"
    using small st by (auto intro!: i64_id u64_id)
  have img: "splice n (put_uint64 (int (length b)) @ b @ put_uint64 (int (length (frames dn))))
      (seg_image dn pd) = seg_image dn (pd @ [b])"
    by (subst splice_tail) (auto simp: n_def length_seg_image seg_image_append)
  have off: "int (length (seg_image dn pd)) - 8 = int n"
    by (simp add: n_def length_seg_image)
  define s' where "s' = s\<lparr>sg_file := Some (h\<lparr>foff := int n + (int (length b) + 16)\<rparr>),
    sg_currentSize := cur_size (pd @ [b]), sg_size := sg_size s + int (length b) + 8\<rparr>"
  have "segment_append b (s, w) = (Inr (), s',
      put_file (sg_path s) \<lparr>fcontents = seg_image dn (pd @ [b]), fmtime = os_clock w\<rparr> w)"
    unfolding s'_def
    using st(1-5,8,9) nofail fits i off img ne
    by (cases pd) (auto simp: segment_append_def footerSize_def io_simps cur_size_def)
  moreover have "seg_rep s' (put_file (sg_path s)
      \<lparr>fcontents = seg_image dn (pd @ [b]), fmtime = os_clock w\<rparr> w) dn (pd @ [b])"
    using st small ne by (simp add: s'_def seg_rep_def length_seg_image)
  ultimately show ?thesis by (simp add: s'_def)
qed

lemma segment_append_full:
  assumes "seg_rep s w dn pd" and "sg_maxSize s < sg_size s + int (length b)"
    and "sg_size s + int (length b) < 2 ^ 62"
  shows "segment_append b (s, w) = (Inl ErrSegmentFull, s, w)"
  using assms by (elim seg_repE) (simp add: segment_append_def i64_id)

text \<open>
  \<open>current\<close>: \<open>io.EOF\<close> on an exhausted segment, an error for a block above the limits, and
  the first pending block otherwise; the file is not changed.
\<close>

lemma segment_current_eof:
  "seg_rep s w dn [] \<Longrightarrow> segment_current (s, w) = (Inl EOF, s, w)"
  using seg_at_end [of s w dn "[]"] by (simp add: segment_current_def)

lemma seg_rep_handle:
  "seg_rep s w dn pd \<Longrightarrow> fname h = sg_path s \<Longrightarrow> seg_rep (s\<lparr>sg_file := Some h\<rparr>) w dn pd"
  by (simp add: seg_rep_def)

lemma segment_current_pending:
  assumes rep: "seg_rep s w dn (b # pd)" and nofail: "os_faults w = []"
  shows "\<exists>h. fname h = sg_path s \<and> segment_current (s, w) =
    (if int (length b) > sg_maxSize s then Inl RecordOutOfRange
     else if int (length b) > 512 * 1024 then Inl RecordTooBig
     else Inr b, s\<lparr>sg_file := Some h\<rparr>, w)"
proof -
  from rep obtain h f where st: "sg_file s = Some h" "fname h = sg_path s"
    "lookup_file (sg_path s) w = Some f" "fcontents f = seg_image dn (b # pd)"
    "sg_pos s = int (length (frames dn))"
    "sg_size s = int (length (frames dn) + length (frames (b # pd))) + 8"
    "sg_size s < 2 ^ 62" "sg_currentSize s = cur_size (b # pd)" "[] \<notin> set (b # pd)"
    by (rule seg_repE)
  define h1 where "h1 = h\<lparr>foff := int (length (frames dn))\<rparr>"
  define h2 where "h2 = h1\<lparr>foff := int (length (frames dn)) + 8\<rparr>"
  define h3 where "h3 = h2\<lparr>foff := int (length (frames dn)) + 8 + int (length b)\<rparr>"
  have names: "fname h1 = sg_path s" "fname h2 = sg_path s" "fname h3 = sg_path s"
    using st(2) by (simp_all add: h1_def h2_def h3_def)
  have sz: "u64 (int (length b)) = int (length b)" "i64 (int (length b)) = int (length b)"
    using st(6,7) by (auto intro!: u64_id i64_id)
  have 1: "seekToCurrent (s, w) = (Inr (), s\<lparr>sg_file := Some h1\<rparr>, w)"
    using st(1,5) nofail by (simp add: seekToCurrent_def seek_ok h1_def)
  have 2: "readUint64 (s\<lparr>sg_file := Some h1\<rparr>, w) =
      (Inr (int (length b)), s\<lparr>sg_file := Some h2\<rparr>, w)"
    by (subst readUint64_ok [where h = h1 and f = f and x = "int (length b)"])
      (use st nofail sz seg_image_head [of dn b pd] in \<open>simp_all add: h1_def h2_def\<close>)
  have "drop (length (frames dn) + 8) (seg_image dn (b # pd)) =
      b @ frames pd @ put_uint64 (int (length (frames dn)))"
    by (simp add: seg_image_def frame_def)
  then have 3: "readBytes (length b) (s\<lparr>sg_file := Some h2\<rparr>, w) =
      (Inr b, s\<lparr>sg_file := Some h3\<rparr>, w)"
    by (subst readBytes_ok [where h = h2 and f = f])
      (use st nofail in \<open>auto simp: h1_def h2_def h3_def nat_add_distrib\<close>)
  have cs: "s\<lparr>sg_file := x, sg_currentSize := int (length b)\<rparr> = s\<lparr>sg_file := x\<rparr>" for x
    using st(8) by (simp add: cur_size_def)
  show ?thesis
    using seg_at_end [OF rep] names
    by (intro exI [where x = "if int (length b) > sg_maxSize s \<or> int (length b) > 512 * 1024
        then h2 else h3"]) (auto simp: segment_current_def 1 2 3 sz cs)
qed

text \<open>
  \<open>advance\<close>: the footer is overwritten with the position of the next block. The call
  returns \<open>io.EOF\<close> when no block is left, after having moved the position.
\<close>

lemma segment_advance_eof:
  "seg_rep s w dn [] \<Longrightarrow> segment_advance (s, w) = (Inl EOF, s, w)"
  by (elim seg_repE) (simp add: segment_advance_def footerSize_def cur_size_def i64_id)

text \<open>The position read back after an advance: a block's length, or the footer itself.\<close>

lemma seg_image_read_pos:
  "\<exists>rest. drop (length (frames dn)) (seg_image dn pd) =
     put_uint64 (if pd = [] then int (length (frames dn)) else cur_size pd) @ rest"
  by (cases pd) (simp_all add: seg_image_head seg_image_exhausted cur_size_def)

lemma segment_advance_ok:
  assumes rep: "seg_rep s w dn (b # pd)" and nofail: "os_faults w = []"
  shows "\<exists>s'. segment_advance (s, w) =
      (if pd = [] then Inl EOF else Inr (), s',
       put_file (sg_path s) \<lparr>fcontents = seg_image (dn @ [b]) pd, fmtime = os_clock w\<rparr> w)
    \<and> seg_rep s' (put_file (sg_path s)
        \<lparr>fcontents = seg_image (dn @ [b]) pd, fmtime = os_clock w\<rparr> w) (dn @ [b]) pd
    \<and> sg_path s' = sg_path s \<and> sg_maxSize s' = sg_maxSize s \<and> sg_size s' = sg_size s"
proof -
  from rep obtain h f where st: "sg_file s = Some h" "fname h = sg_path s"
    "lookup_file (sg_path s) w = Some f" "fcontents f = seg_image dn (b # pd)"
    "sg_pos s = int (length (frames dn))"
    "sg_size s = int (length (frames dn) + length (frames (b # pd))) + 8"
    "sg_size s < 2 ^ 62" "sg_currentSize s = cur_size (b # pd)" "[] \<notin> set (b # pd)"
    by (rule seg_repE)
  define n where "n = length (frames dn) + length (frames (b # pd))"
  define p where "p = length (frames (dn @ [b]))"
  define f' where "f' = \<lparr>fcontents = seg_image (dn @ [b]) pd, fmtime = os_clock w\<rparr>"
  define w' where "w' = put_file (sg_path s) f' w"
  obtain rest where rd: "drop p (seg_image (dn @ [b]) pd) =
      put_uint64 (if pd = [] then int p else cur_size pd) @ rest"
    using seg_image_read_pos [of "dn @ [b]" pd] by (auto simp: p_def)
  have cs: "cur_size pd < 2 ^ 62" "0 \<le> cur_size pd" "int p < 2 ^ 62"
    using st(6,7) by (auto simp: cur_size_def p_def split: list.splits)
  have pos: "i64 (sg_pos s + sg_currentSize s + 8) = int p" "u64 (int p) = int p"
      "u64 (sg_pos s + sg_currentSize s + 8) = int p" "i64 (sg_size s - 8) = int n"
    using st(5-8) cs by (auto simp: p_def n_def cur_size_def u64_id i64_id)
  have img: "splice n (put_uint64 (int p)) (seg_image dn (b # pd)) = seg_image (dn @ [b]) pd"
    using seg_image_advance [of dn b pd]
    by (subst splice_tail) (auto simp: n_def p_def length_seg_image)
  have off: "int (length (seg_image dn (b # pd))) - 8 = int n"
    by (simp add: n_def length_seg_image)
  define s' where "s' = s\<lparr>sg_pos := int p, sg_file := Some (h\<lparr>foff := int p + 8\<rparr>),
    sg_currentSize := cur_size pd\<rparr>"
  have rd': "readUint64 (s\<lparr>sg_pos := int p, sg_file := Some (h\<lparr>foff := int p\<rparr>)\<rparr>, w') =
      (Inr (if pd = [] then int p else cur_size pd),
       s\<lparr>sg_pos := int p, sg_file := Some (h\<lparr>foff := int p + 8\<rparr>)\<rparr>, w')"
    by (subst readUint64_ok [where h = "h\<lparr>foff := int p\<rparr>" and f = f'])
      (use st nofail rd cs in \<open>auto simp: w'_def f'_def intro!: u64_id\<close>)
  have "p = n \<longleftrightarrow> pd = []"
    by (auto simp: n_def p_def frames_Nil_iff [symmetric])
  then have "segment_advance (s, w) = (if pd = [] then Inl EOF else Inr (), s', w')"
    using st(1-5) nofail off img pos cs rd' seg_at_end [OF rep]
    by (auto simp: segment_advance_def footerSize_def io_simps writeUint64_def seekToCurrent_def
        w'_def f'_def s'_def cur_size_def i64_id Let_def split: list.splits)
  moreover have "seg_rep s' w' (dn @ [b]) pd"
    using st by (auto simp: s'_def w'_def f'_def seg_rep_def length_seg_image p_def)
  ultimately show ?thesis by (auto simp: s'_def w'_def f'_def)
qed

text \<open>
  \<open>newSegment\<close>: a missing file is created with an empty footer; a file left by an
  earlier run is picked up with the blocks it holds, the consumed ones still consumed.
\<close>

lemma newSegment_create:
  assumes "os_dir w = Some d" "map_of d n = None" "os_faults w = []"
  shows "\<exists>s. newSegment n mx w =
      (Inr s, put_file n \<lparr>fcontents = seg_image [] [], fmtime = os_clock w\<rparr> w)
    \<and> seg_rep s (put_file n \<lparr>fcontents = seg_image [] [], fmtime = os_clock w\<rparr> w) [] []
    \<and> sg_path s = n \<and> sg_maxSize s = mx \<and> sg_size s = 8"
proof -
  define w1 where "w1 = put_file n \<lparr>fcontents = [], fmtime = os_clock w\<rparr> w"
  have w1: "lookup_file n w1 = Some \<lparr>fcontents = [], fmtime = os_clock w\<rparr>" "os_faults w1 = []"
    "os_clock w1 = os_clock w" "open_file n w = (Inr \<lparr>fname = n, foff = 0\<rparr>, w1)"
    "put_file n f w1 = put_file n f w" for f
    using assms by (simp_all add: w1_def lookup_put_file open_file_def)
  then show ?thesis
    by (auto simp: newSegment_def stat_file_def segment_open_def io_simps writeUint64_def
        seg_rep_def seg_image_def splice_def u64_id footerSize_def cur_size_def lookup_put_file
        assms(1,3))
qed

lemma newSegment_reopen:
  assumes lf: "lookup_file n w = Some f" and img: "fcontents f = seg_image dn pd"
    and small: "int (length (fcontents f)) < 2 ^ 62" and ne: "[] \<notin> set pd"
    and nofail: "os_faults w = []"
  shows "\<exists>s. newSegment n mx w = (Inr s, w) \<and> seg_rep s w dn pd
    \<and> sg_path s = n \<and> sg_maxSize s = mx"
proof -
  define p where "p = length (frames dn)"
  define q where "q = p + length (frames pd)"
  have len: "length (fcontents f) = q + 8" and foot: "drop q (fcontents f) = put_uint64 (int p)"
    using img by (simp_all add: length_seg_image p_def q_def seg_image_footer)
  obtain rest where rd: "drop p (fcontents f) =
      put_uint64 (if pd = [] then int p else cur_size pd) @ rest"
    using seg_image_read_pos [of dn pd] img by (auto simp: p_def)
  have opn: "open_file n w = (Inr \<lparr>fname = n, foff = 0\<rparr>, w)"
    using lf nofail by (auto simp: open_file_def lookup_file_def split: option.splits dentry.splits)
  have cs: "0 \<le> cur_size pd" "cur_size pd < 2 ^ 62" "int p < 2 ^ 62" "p < q \<longleftrightarrow> pd \<noteq> []"
    using small len by (auto simp: cur_size_def q_def frames_Nil_iff [symmetric] split: list.splits)
  have sz: "i64 (int q) = int q" "i64 (int p) = int p" "i64 (cur_size pd) = cur_size pd"
    using small len cs by (auto intro!: i64_id)
  have rf: "sg_file s = Some \<lparr>fname = n, foff = int q\<rparr> \<Longrightarrow> readUint64 (s, w) =
      (Inr (u64 (int p)), s\<lparr>sg_file := Some \<lparr>fname = n, foff = int q + 8\<rparr>\<rparr>, w)" for s
    by (subst readUint64_ok) (use lf nofail foot in auto)
  have rp: "sg_file s = Some \<lparr>fname = n, foff = int p\<rparr> \<Longrightarrow> readUint64 (s, w) =
      (Inr (u64 (if pd = [] then int p else cur_size pd)),
       s\<lparr>sg_file := Some \<lparr>fname = n, foff = int p + 8\<rparr>\<rparr>, w)" for s
    by (subst readUint64_ok) (use lf nofail rd in auto)
  define s where "s = \<lparr>sg_size = int q + 8,
    sg_file = Some \<lparr>fname = n, foff = (if pd = [] then int p else int p + 8)\<rparr>,
    sg_path = n, sg_pos = int p, sg_currentSize = cur_size pd, sg_maxSize = mx\<rparr>"
  have "newSegment n mx w = (Inr s, w)"
    using lf nofail opn len cs(4) sz unfolding s_def
    by (cases "pd = []") (auto simp: newSegment_def stat_file_def segment_open_def io_simps
        seekToCurrent_def footerSize_def rf rp Let_def cur_size_def)
  moreover have "seg_rep s w dn pd"
    using lf img small len ne by (simp add: s_def seg_rep_def p_def)
  ultimately show ?thesis by (simp add: s_def)
qed

lemma segment_close_ok:
  "sg_file s = Some h \<Longrightarrow> os_faults w = [] \<Longrightarrow>
   segment_close (s, w) = (Inr (), s\<lparr>sg_file := None\<rparr>, w)"
  by (simp add: segment_close_def file_close_def)

end
