(* ===== verification/Fifo.thy ===== *)
theory Fifo
  imports Os_File
begin

text \<open>
  The contract between the hinted-handoff queue and the replayer that drains it: a queue
  whose state represents a list of blocks, to which \<open>app\<close> adds at the end and from which
  \<open>cur\<close> reads and \<open>adv\<close> drops the first one. What the replayer relies on is proved once,
  from the contract: any interleaving of writes and replays delivers the blocks in the
  order they were written, without loss or repetition.
\<close>

section \<open>Sequences of operations\<close>

text \<open>A write, or a replay (read the current block, hand it out, advance).\<close>

datatype qop = Put "byte list" | Take

fun puts :: "qop list \<Rightarrow> byte list list" where
  "puts [] = []"
| "puts (Put b # ops) = b # puts ops"
| "puts (Take # ops) = puts ops"

fun run_ops ::
    "(byte list \<Rightarrow> 's \<Rightarrow> (herr + unit) \<times> 's) \<Rightarrow> ('s \<Rightarrow> (herr + byte list) \<times> 's) \<Rightarrow>
     ('s \<Rightarrow> (herr + unit) \<times> 's) \<Rightarrow> qop list \<Rightarrow> 's \<Rightarrow> byte list list \<times> 's" where
  "run_ops app cur adv [] q = ([], q)"
| "run_ops app cur adv (Put b # ops) q = run_ops app cur adv ops (snd (app b q))"
| "run_ops app cur adv (Take # ops) q =
     (case cur q of
        (Inl _, q1) \<Rightarrow> run_ops app cur adv ops q1
      | (Inr b, q1) \<Rightarrow>
          (case run_ops app cur adv ops (snd (adv q1)) of (out, q2) \<Rightarrow> (b # out, q2)))"

text \<open>Every write of the sequence meets the precondition \<open>acc\<close> in the state it runs in.\<close>

fun accepted ::
    "('s \<Rightarrow> byte list \<Rightarrow> bool) \<Rightarrow> (byte list \<Rightarrow> 's \<Rightarrow> (herr + unit) \<times> 's) \<Rightarrow>
     ('s \<Rightarrow> (herr + byte list) \<times> 's) \<Rightarrow> ('s \<Rightarrow> (herr + unit) \<times> 's) \<Rightarrow> qop list \<Rightarrow> 's \<Rightarrow> bool" where
  "accepted acc app cur adv [] q \<longleftrightarrow> True"
| "accepted acc app cur adv (Put b # ops) q \<longleftrightarrow>
     acc q b \<and> accepted acc app cur adv ops (snd (app b q))"
| "accepted acc app cur adv (Take # ops) q \<longleftrightarrow>
     (case cur q of
        (Inl _, q1) \<Rightarrow> accepted acc app cur adv ops q1
      | (Inr b, q1) \<Rightarrow> accepted acc app cur adv ops (snd (adv q1)))"

section \<open>The contract\<close>

locale fifo_queue =
  fixes rep :: "'s \<Rightarrow> byte list list \<Rightarrow> bool"
    and acc :: "'s \<Rightarrow> byte list \<Rightarrow> bool"
    and app :: "byte list \<Rightarrow> 's \<Rightarrow> (herr + unit) \<times> 's"
    and cur :: "'s \<Rightarrow> (herr + byte list) \<times> 's"
    and adv :: "'s \<Rightarrow> (herr + unit) \<times> 's"
  assumes app_ok: "rep q bs \<Longrightarrow> acc q b \<Longrightarrow> \<exists>q'. app b q = (Inr (), q') \<and> rep q' (bs @ [b])"
    and cur_empty: "rep q [] \<Longrightarrow> cur q = (Inl EOF, q)"
    and cur_ok: "rep q (b # bs) \<Longrightarrow> \<exists>q'. cur q = (Inr b, q') \<and> rep q' (b # bs)"
    and adv_ok: "rep q (b # bs) \<Longrightarrow> \<exists>q'. adv q = (Inr (), q') \<and> rep q' bs"
begin

text \<open>The state determines the blocks it represents.\<close>

lemma rep_unique: "rep q bs \<Longrightarrow> rep q cs \<Longrightarrow> bs = cs"
proof (induction bs arbitrary: q cs)
  case Nil
  then show ?case using cur_empty [of q] cur_ok [of q] by (cases cs) auto
next
  case (Cons b bs)
  obtain c cs' where cs: "cs = c # cs'"
    using Cons.prems cur_empty [of q] cur_ok [of q b bs] by (cases cs) auto
  have "b = c" using cur_ok [OF Cons.prems(1)] cur_ok [OF Cons.prems(2) [unfolded cs]] by auto
  moreover have "bs = cs'"
    using adv_ok [OF Cons.prems(1)] adv_ok [OF Cons.prems(2) [unfolded cs]] Cons.IH by auto
  ultimately show ?case using cs by simp
qed

text \<open>Interleaved writes and replays keep the order and lose nothing.\<close>

lemma run_in_order:
  assumes "rep q bs" "accepted acc app cur adv ops q"
  shows "\<exists>rest. rep (snd (run_ops app cur adv ops q)) rest
    \<and> fst (run_ops app cur adv ops q) @ rest = bs @ puts ops"
  using assms
proof (induction ops arbitrary: q bs)
  case (Cons op ops)
  show ?case
  proof (cases op)
    case (Put b)
    then obtain q' where "app b q = (Inr (), q')" "rep q' (bs @ [b])"
      using Cons.prems app_ok by fastforce
    then show ?thesis
      using Cons.IH [of q' "bs @ [b]"] Cons.prems Put by simp
  next
    case Take
    show ?thesis
    proof (cases bs)
      case Nil
      then show ?thesis
        using Cons.IH [of q "[]"] Cons.prems Take cur_empty [of q] by simp
    next
      case (Cons b bs')
      obtain q1 q2 where "cur q = (Inr b, q1)" "adv q1 = (Inr (), q2)" "rep q2 bs'"
        using cur_ok adv_ok Cons.prems(1) \<open>bs = b # bs'\<close> by metis
      then show ?thesis
        using Cons.IH [of q2 bs'] Cons.prems Take \<open>bs = b # bs'\<close>
        by (auto split: prod.splits)
    qed
  qed
qed simp

end

end
