(* ===== verification/Handoff_Queue.thy ===== *)
theory Handoff_Queue
  imports Segment Fifo
begin

text \<open>
  The disk-backed queue of \<open>internal/handoff/queue.go\<close> (type \<open>Queue\<close>). Segments are
  shared by pointer between \<open>head\<close>, \<open>tail\<close> and the slice \<open>segments\<close>, so the model keeps them
  in a heap indexed by reference; a nil pointer is \<open>None\<close> and so is the nil slice, which
  \<open>Remove\<close> tells apart from an empty one. Every exported method holds the queue's lock and
  is one step. The second half states what the queue promises (\<open>fifo\<close>, a locale over a
  representation relation) and shows that the methods keep the promise.
\<close>

section \<open>The struct and its methods\<close>

record queue =
  q_dir :: string
  q_head :: "nat option"
  q_tail :: "nat option"
  q_maxSegmentSize :: int
  q_maxSize :: int
  q_segments :: "nat list option"
  q_heap :: "segment list"

type_synonym queue_state = "queue \<times> os"

definition defaultSegmentSize :: int where
  "defaultSegmentSize = 10 * 1024 * 1024"

definition segs :: "queue \<Rightarrow> nat list" where
  "segs q = (case q_segments q of None \<Rightarrow> [] | Some rs \<Rightarrow> rs)"

text \<open>A call of a segment's method through its reference, and a call of the \<open>os\<close> package.\<close>

definition on_seg ::
    "nat \<Rightarrow> (seg_state \<Rightarrow> (herr + 'a) \<times> seg_state) \<Rightarrow> queue_state \<Rightarrow> (herr + 'a) \<times> queue_state" where
  "on_seg r f st =
     (case f (q_heap (fst st) ! r, snd st) of
        (x, s, w) \<Rightarrow> (x, (fst st)\<lparr>q_heap := (q_heap (fst st))[r := s]\<rparr>, w))"

definition on_os :: "(os \<Rightarrow> (herr + 'a) \<times> os) \<Rightarrow> queue_state \<Rightarrow> (herr + 'a) \<times> queue_state" where
  "on_os f st = (case f (snd st) of (x, w) \<Rightarrow> (x, fst st, w))"

definition NewQueue :: "string \<Rightarrow> int \<Rightarrow> queue" where
  "NewQueue d mx =
     \<lparr>q_dir = d, q_head = None, q_tail = None, q_maxSegmentSize = defaultSegmentSize,
      q_maxSize = mx, q_segments = Some [], q_heap = []\<rparr>"

definition DiskUsage :: "queue \<Rightarrow> int" where
  "DiskUsage q = foldl (\<lambda>sz r. i64 (sz + diskUsage (q_heap q ! r))) 0 (segs q)"

text \<open>The id of a directory entry: a regular file whose name \<open>ParseUint\<close> accepts.\<close>

definition segment_id :: "string \<times> dentry \<Rightarrow> nat option" where
  "segment_id e = (case snd e of Dir \<Rightarrow> None | File _ \<Rightarrow> parse_uint (fst e))"

definition max_segment_id :: "(string \<times> dentry) list \<Rightarrow> nat" where
  "max_segment_id es =
     foldl (\<lambda>maxID e. case segment_id e of None \<Rightarrow> maxID
                      | Some i \<Rightarrow> if i > maxID then i else maxID) 0 es"

definition nextSegmentID :: "os \<Rightarrow> (herr + nat) \<times> os" where
  "nextSegmentID w =
     seqE (read_dir w) (\<lambda>es w. (Inr (nat (u64 (int (max_segment_id es) + 1))), w))"

definition alloc :: "segment \<Rightarrow> queue \<Rightarrow> nat \<times> queue" where
  "alloc s q = (length (q_heap q), q\<lparr>q_heap := q_heap q @ [s]\<rparr>)"

definition addSegment :: "queue_state \<Rightarrow> (herr + nat) \<times> queue_state" where
  "addSegment st =
     seqE (on_os nextSegmentID st)
       (\<lambda>nextID st.
          seqE (on_os (newSegment (format_uint nextID) (q_maxSegmentSize (fst st))) st)
       (\<lambda>s (q, w).
          let (r, q) = alloc s q
          in (Inr r, q\<lparr>q_segments := Some (segs q @ [r])\<rparr>, w)))"

text \<open>
  The loop of \<open>loadSegments\<close>: entries that are directories or have no numeric name are
  skipped, and a file that cannot be opened as a segment is removed.
\<close>

fun load_entries :: "(string \<times> dentry) list \<Rightarrow> nat list \<Rightarrow> queue_state \<Rightarrow> nat list \<times> queue_state" where
  "load_entries [] rs st = (rs, st)"
| "load_entries (e # es) rs st =
     (if segment_id e = None then load_entries es rs st
      else (case on_os (newSegment (fst e) (q_maxSegmentSize (fst st))) st of
              (Inl _, st) \<Rightarrow>
                (case on_os (remove_file (fst e)) st of (_, st) \<Rightarrow> load_entries es rs st)
            | (Inr s, q, w) \<Rightarrow>
                (case alloc s q of (r, q) \<Rightarrow> load_entries es (rs @ [r]) (q, w))))"

definition loadSegments :: "queue_state \<Rightarrow> (herr + nat list) \<times> queue_state" where
  "loadSegments st =
     seqE (on_os read_dir st)
       (\<lambda>es st. case load_entries es [] st of (rs, st) \<Rightarrow> (Inr rs, st))"

definition trimHead :: "queue_state \<Rightarrow> (herr + unit) \<times> queue_state" where
  "trimHead st =
     (if length (segs (fst st)) > 1
      then let q = (fst st)\<lparr>q_segments := Some (tl (segs (fst st)))\<rparr>
           in (case q_head q of
                 None \<Rightarrow> (Inl PanicNil, q, snd st)
               | Some h \<Rightarrow>
                   seqE (on_seg h segment_close (q, snd st))
                     (\<lambda>_ st. seqE (on_os (remove_file (sg_path (q_heap (fst st) ! h))) st)
                     (\<lambda>_ (q, w). (Inr (), q\<lparr>q_head := Some (hd (segs q))\<rparr>, w))))
      else (Inr (), st))"

definition Queue_Open :: "queue_state \<Rightarrow> (herr + unit) \<times> queue_state" where
  "Queue_Open st =
     seqE (loadSegments st)
       (\<lambda>rs (q, w). let st = (q\<lparr>q_segments := Some rs\<rparr>, w)
          in seqE (if rs = [] then seqE (addSegment st) (\<lambda>_ st. (Inr (), st)) else (Inr (), st))
       (\<lambda>_ (q, w).
          let h = hd (segs q); q = q\<lparr>q_head := Some h, q_tail := Some (last (segs q))\<rparr>
          in (case on_seg h segment_current (q, w) of
                (Inl EOF, st) \<Rightarrow> trimHead st
              | (Inl PanicMakeSlice, st) \<Rightarrow> (Inl PanicMakeSlice, st)
              | (_, st) \<Rightarrow> (Inr (), st))))"

fun close_all :: "nat list \<Rightarrow> queue_state \<Rightarrow> (herr + unit) \<times> queue_state" where
  "close_all [] st = (Inr (), st)"
| "close_all (r # rs) st = seqE (on_seg r segment_close st) (\<lambda>_ st. close_all rs st)"

definition Queue_Close :: "queue_state \<Rightarrow> (herr + unit) \<times> queue_state" where
  "Queue_Close st =
     seqE (close_all (segs (fst st)) st)
       (\<lambda>_ (q, w). (Inr (), q\<lparr>q_head := None, q_tail := None, q_segments := None\<rparr>, w))"

definition Queue_Remove :: "queue_state \<Rightarrow> (herr + unit) \<times> queue_state" where
  "Queue_Remove st =
     (if q_head (fst st) \<noteq> None \<or> q_tail (fst st) \<noteq> None \<or> q_segments (fst st) \<noteq> None
      then (Inl QueueIsOpen, st)
      else on_os remove_all st)"

definition Queue_SetMaxSegmentSize :: "int \<Rightarrow> queue_state \<Rightarrow> (herr + unit) \<times> queue_state" where
  "Queue_SetMaxSegmentSize mx st =
     (let q = (fst st)\<lparr>q_maxSegmentSize := mx,
                q_heap := fold (\<lambda>r h. h[r := segment_SetMaxSegmentSize mx (h ! r)])
                            (segs (fst st)) (q_heap (fst st))\<rparr>
      in (case q_tail q of
            None \<Rightarrow> (Inl PanicNil, q, snd st)
          | Some t \<Rightarrow>
              if diskUsage (q_heap q ! t) \<ge> q_maxSegmentSize q
              then seqE (addSegment (q, snd st))
                     (\<lambda>r (q, w). (Inr (), q\<lparr>q_tail := Some r\<rparr>, w))
              else (Inr (), q, snd st)))"

text \<open>
  \<open>PurgeOlderThan\<close> loops until the head is recent enough: \<open>None\<close> is a loop that never
  returns. Times are nanoseconds; \<open>Truncate(time.Second)\<close> rounds down to a second.
\<close>

partial_function (option) purge_loop ::
    "int \<Rightarrow> queue_state \<Rightarrow> ((herr + unit) \<times> queue_state) option" where
  "purge_loop cutoff st =
     (case q_head (fst st) of
        None \<Rightarrow> Some (Inl PanicNil, st)
      | Some h \<Rightarrow>
          (case on_seg h segment_lastModified st of
             (Inl e, st) \<Rightarrow> Some (Inl e, st)
           | (Inr m, st) \<Rightarrow>
               if m \<ge> cutoff then Some (Inr (), st)
               else (case (if length (segs (fst st)) = 1
                           then seqE (addSegment st) (\<lambda>_ st. (Inr (), st))
                           else (Inr (), st)) of
                       (Inl e, st) \<Rightarrow> Some (Inl e, st)
                     | (Inr _, st) \<Rightarrow>
                         (case trimHead st of
                            (Inl e, st) \<Rightarrow> Some (Inl e, st)
                          | (Inr _, st) \<Rightarrow> purge_loop cutoff st))))"

definition PurgeOlderThan :: "int \<Rightarrow> queue_state \<Rightarrow> ((herr + unit) \<times> queue_state) option" where
  "PurgeOlderThan when st =
     (if length (segs (fst st)) = 0 then Some (Inr (), st)
      else purge_loop (when - when mod 1000000000) st)"

text \<open>\<open>LastModified\<close>: \<open>None\<close> is the zero time, returned when the queue has no tail.\<close>

definition Queue_LastModified :: "queue_state \<Rightarrow> (herr + int option) \<times> queue_state" where
  "Queue_LastModified st =
     (case q_tail (fst st) of
        None \<Rightarrow> (Inr None, st)
      | Some t \<Rightarrow> seqE (on_seg t segment_lastModified st) (\<lambda>m st. (Inr (Some m), st)))"

text \<open>\<open>Position\<close>: the strings \<open>path:offset\<close> of head and tail, empty for a nil segment.\<close>

definition pos_string :: "queue \<Rightarrow> nat \<Rightarrow> int \<Rightarrow> string" where
  "pos_string q r n = q_dir q @ ''/'' @ sg_path (q_heap q ! r) @ '':'' @ format_int n"

definition Queue_Position :: "queue_state \<Rightarrow> (string \<times> string) \<times> queue_state" where
  "Queue_Position st =
     (let q = fst st;
          hp = (case q_head q of None \<Rightarrow> [] | Some h \<Rightarrow> pos_string q h (sg_pos (q_heap q ! h)))
      in (case q_tail q of
            None \<Rightarrow> ((hp, []), st)
          | Some t \<Rightarrow>
              (case filePos (q_heap q ! t, snd st) of
                 (n, s, w) \<Rightarrow> ((hp, pos_string q t n), q, w))))"

definition Queue_Append :: "byte list \<Rightarrow> queue_state \<Rightarrow> (herr + unit) \<times> queue_state" where
  "Queue_Append b st =
     (case q_tail (fst st) of
        None \<Rightarrow> (Inl ErrNotOpen, st)
      | Some t \<Rightarrow>
          if i64 (DiskUsage (fst st) + int (length b)) > q_maxSize (fst st)
          then (Inl ErrQueueFull, st)
          else (case on_seg t (segment_append b) st of
                  (Inl ErrSegmentFull, st) \<Rightarrow>
                    seqE (addSegment st)
                      (\<lambda>r (q, w). on_seg r (segment_append b) (q\<lparr>q_tail := Some r\<rparr>, w))
                | (_, st) \<Rightarrow> (Inr (), st)))"

definition Queue_Current :: "queue_state \<Rightarrow> (herr + byte list) \<times> queue_state" where
  "Queue_Current st =
     (case q_head (fst st) of
        None \<Rightarrow> (Inl ErrNotOpen, st)
      | Some h \<Rightarrow> on_seg h segment_current st)"

definition Queue_Advance :: "queue_state \<Rightarrow> (herr + unit) \<times> queue_state" where
  "Queue_Advance st =
     (case q_head (fst st) of
        None \<Rightarrow> (Inl ErrNotOpen, st)
      | Some h \<Rightarrow>
          (case on_seg h segment_advance st of
             (Inl EOF, st) \<Rightarrow> trimHead st
           | (_, st) \<Rightarrow> (Inr (), st)))"

section \<open>What the segments hold\<close>

text \<open>
  \<open>segs_rep H w rs mx L\<close>: the segments \<open>rs\<close> of the heap \<open>H\<close> are distinct, have distinct
  files and the maximum size \<open>mx\<close>, and hold the consumed and pending blocks \<open>L\<close>.
\<close>

definition segs_rep ::
    "segment list \<Rightarrow> os \<Rightarrow> nat list \<Rightarrow> int \<Rightarrow> (byte list list \<times> byte list list) list \<Rightarrow> bool" where
  "segs_rep H w rs mx L \<longleftrightarrow>
     distinct rs \<and> (\<forall>r\<in>set rs. r < length H \<and> sg_maxSize (H ! r) = mx) \<and>
     distinct (map (\<lambda>r. sg_path (H ! r)) rs) \<and>
     list_all2 (\<lambda>r p. seg_rep (H ! r) w (fst p) (snd p)) rs L"

definition seg_usage :: "segment list \<Rightarrow> nat list \<Rightarrow> int" where
  "seg_usage H rs = (\<Sum>r\<leftarrow>rs. sg_size (H ! r))"

lemma seg_rep_frame:
  "seg_rep s w dn pd \<Longrightarrow> lookup_file (sg_path s) w' = lookup_file (sg_path s) w \<Longrightarrow>
     seg_rep s w' dn pd"
  by (simp add: seg_rep_def)

lemma segs_rep_length: "segs_rep H w rs mx L \<Longrightarrow> length L = length rs"
  by (auto simp: segs_rep_def dest: list_all2_lengthD)

lemma segs_rep_nth:
  "segs_rep H w rs mx L \<Longrightarrow> i < length rs \<Longrightarrow>
     seg_rep (H ! (rs ! i)) w (fst (L ! i)) (snd (L ! i))"
  by (simp add: segs_rep_def list_all2_conv_all_nth)

lemma segs_rep_file:
  "segs_rep H w rs mx L \<Longrightarrow> r \<in> set rs \<Longrightarrow> \<exists>f. lookup_file (sg_path (H ! r)) w = Some f"
  by (auto simp: segs_rep_def list_all2_conv_all_nth in_set_conv_nth seg_rep_def)

lemma segs_rep_open:
  assumes "segs_rep H w rs mx L" "r \<in> set rs"
  shows "\<exists>h. sg_file (H ! r) = Some h \<and> fname h = sg_path (H ! r)"
proof -
  obtain i where "i < length rs" "rs ! i = r" using assms(2) by (auto simp: in_set_conv_nth)
  with segs_rep_nth [OF assms(1)] show ?thesis by (auto elim: seg_repE)
qed

text \<open>One segment changes, together with its own file.\<close>

lemma segs_rep_update:
  assumes rep: "segs_rep H w rs mx L" and i: "i < length rs"
    and s': "seg_rep s' w' dn pd" "sg_path s' = sg_path (H ! (rs ! i))" "sg_maxSize s' = mx"
    and frame: "\<And>n. n \<noteq> sg_path s' \<Longrightarrow> lookup_file n w' = lookup_file n w"
  shows "segs_rep (H[rs ! i := s']) w' rs mx (L[i := (dn, pd)])"
proof -
  have d: "distinct rs" "distinct (map (\<lambda>r. sg_path (H ! r)) rs)" "\<forall>r\<in>set rs. r < length H"
    using rep by (auto simp: segs_rep_def)
  have paths: "map (\<lambda>r. sg_path (H[rs ! i := s'] ! r)) rs = map (\<lambda>r. sg_path (H ! r)) rs"
    using s'(2) d(3) i by (auto simp: nth_list_update)
  have "seg_rep (H[rs ! i := s'] ! (rs ! j)) w' (fst (L[i := (dn, pd)] ! j)) (snd (L[i := (dn, pd)] ! j))"
    if j: "j < length rs" for j
  proof (cases "j = i")
    case True
    then show ?thesis using s' i d segs_rep_length [OF rep] by simp
  next
    case False
    then have "rs ! j \<noteq> rs ! i" "sg_path (H ! (rs ! j)) \<noteq> sg_path s'"
      using d i j s'(2) by (auto simp: nth_eq_iff_index_eq distinct_conv_nth)
    then show ?thesis
      using False segs_rep_nth [OF rep j] frame by (auto intro: seg_rep_frame)
  qed
  moreover have "\<forall>r\<in>set rs. sg_maxSize (H[rs ! i := s'] ! r) = mx"
    using rep s'(3) d(3) nth_mem [OF i] by (simp add: segs_rep_def nth_list_update)
  ultimately show ?thesis
    using d segs_rep_length [OF rep] unfolding segs_rep_def paths
    by (simp add: list_all2_conv_all_nth)
qed

text \<open>A segment is added, in a file no other segment has.\<close>

lemma segs_rep_snoc:
  assumes rep: "segs_rep H w rs mx L" and s: "seg_rep s w' dn pd" "sg_maxSize s = mx"
    and new: "sg_path s \<notin> (\<lambda>r. sg_path (H ! r)) ` set rs"
    and frame: "\<And>n. n \<noteq> sg_path s \<Longrightarrow> lookup_file n w' = lookup_file n w"
  shows "segs_rep (H @ [s]) w' (rs @ [length H]) mx (L @ [(dn, pd)])"
proof -
  have old: "(H @ [s]) ! r = H ! r" if "r \<in> set rs" for r
    using rep that by (auto simp: segs_rep_def nth_append)
  have "list_all2 (\<lambda>r p. seg_rep (H ! r) w (fst p) (snd p)) rs L"
    using rep by (simp add: segs_rep_def)
  then have "list_all2 (\<lambda>r p. seg_rep ((H @ [s]) ! r) w' (fst p) (snd p)) rs L"
  proof (rule list.rel_mono_strong)
    fix r p assume "r \<in> set rs" "seg_rep (H ! r) w (fst p) (snd p)"
    moreover from this new have "sg_path (H ! r) \<noteq> sg_path s" by force
    ultimately show "seg_rep ((H @ [s]) ! r) w' (fst p) (snd p)"
      using old frame by (simp add: seg_rep_frame)
  qed
  moreover have paths: "map (\<lambda>r. sg_path ((H @ [s]) ! r)) rs = map (\<lambda>r. sg_path (H ! r)) rs"
    using old by simp
  moreover have "length H \<notin> set rs"
    using rep by (auto simp: segs_rep_def)
  ultimately show ?thesis
    using rep s old new unfolding segs_rep_def map_append paths
    by (simp add: list_all2_appendI less_Suc_eq)
qed

text \<open>The head is dropped, together with its file.\<close>

lemma segs_rep_tl:
  assumes rep: "segs_rep H w (r # rs) mx (p # L)"
    and frame: "\<And>n. n \<noteq> sg_path (H ! r) \<Longrightarrow> lookup_file n w' = lookup_file n w"
  shows "segs_rep (H[r := s]) w' rs mx L"
proof -
  have "r \<notin> set rs" "sg_path (H ! r) \<notin> (\<lambda>x. sg_path (H ! x)) ` set rs"
    using rep by (simp_all add: segs_rep_def)
  then have same: "H[r := s] ! x = H ! x" "sg_path (H ! x) \<noteq> sg_path (H ! r)"
    if "x \<in> set rs" for x
    using that by (cases "x = r", simp_all) (metis image_eqI)
  have "list_all2 (\<lambda>x p. seg_rep (H ! x) w (fst p) (snd p)) rs L"
    using rep by (simp add: segs_rep_def)
  then have "list_all2 (\<lambda>x p. seg_rep (H[r := s] ! x) w' (fst p) (snd p)) rs L"
    by (rule list.rel_mono_strong) (simp add: same frame seg_rep_frame)
  moreover have paths: "map (\<lambda>x. sg_path (H[r := s] ! x)) rs = map (\<lambda>x. sg_path (H ! x)) rs"
    using same by simp
  ultimately show ?thesis
    using rep same unfolding segs_rep_def paths by simp
qed

subsection \<open>Disk usage\<close>

lemma seg_usage_simps [simp]:
  "seg_usage H [] = 0"
  "seg_usage H (r # rs) = sg_size (H ! r) + seg_usage H rs"
  "seg_usage H (xs @ ys) = seg_usage H xs + seg_usage H ys"
  by (simp_all add: seg_usage_def)

lemma seg_usage_cong:
  "(\<And>r. r \<in> set rs \<Longrightarrow> H' ! r = H ! r) \<Longrightarrow> seg_usage H' rs = seg_usage H rs"
  by (auto simp: seg_usage_def intro!: arg_cong [where f = sum_list])

lemma seg_usage_update:
  assumes "segs_rep H w rs mx L" "i < length rs"
  shows "seg_usage (H[rs ! i := s]) rs = seg_usage H rs - sg_size (H ! (rs ! i)) + sg_size s"
proof -
  have d: "distinct rs" "rs ! i < length H"
    using assms nth_mem by (auto simp: segs_rep_def)
  define xs ys where "xs = take i rs" and "ys = drop (Suc i) rs"
  have rs: "rs = xs @ rs ! i # ys"
    using assms(2) by (simp add: xs_def ys_def id_take_nth_drop)
  with d(1) have "rs ! i \<notin> set xs" "rs ! i \<notin> set ys"
    by (metis distinct_append distinct.simps(2) disjoint_iff list.set_intros(1),
        metis distinct_append distinct.simps(2))
  then have "seg_usage (H[rs ! i := s]) xs = seg_usage H xs"
    "seg_usage (H[rs ! i := s]) ys = seg_usage H ys"
    by (metis nth_list_update_neq seg_usage_cong)+
  then show ?thesis
    using d(2) by (subst (1 3) rs) simp
qed

lemma seg_size_pos:
  "segs_rep H w rs mx L \<Longrightarrow> r \<in> set rs \<Longrightarrow> 8 \<le> sg_size (H ! r)"
  by (auto simp: segs_rep_def list_all2_conv_all_nth in_set_conv_nth seg_rep_def length_seg_image)

lemma seg_usage_nonneg:
  "segs_rep H w rs mx L \<Longrightarrow> set xs \<subseteq> set rs \<Longrightarrow> 0 \<le> seg_usage H xs"
  using seg_size_pos [of H w rs mx L] by (force simp: seg_usage_def intro!: sum_list_nonneg)

text \<open>\<open>DiskUsage\<close> is the sum of the segments' sizes, as long as that sum fits an int64.\<close>

lemma disk_usage_foldl:
  assumes "segs_rep H w rs mx L" "set xs \<subseteq> set rs" "0 \<le> a" "a + seg_usage H xs < 2 ^ 63"
  shows "foldl (\<lambda>sz r. i64 (sz + diskUsage (H ! r))) a xs = a + seg_usage H xs"
  using assms(2-4)
proof (induction xs arbitrary: a)
  case (Cons x xs)
  have "8 \<le> sg_size (H ! x)" "0 \<le> seg_usage H xs"
    using Cons.prems seg_size_pos [OF assms(1)] seg_usage_nonneg [OF assms(1)] by auto
  then show ?case
    using Cons.prems Cons.IH [of "a + sg_size (H ! x)"] by (simp add: diskUsage_def i64_id)
qed simp

lemma seg_usage_ge:
  assumes "segs_rep H w rs mx L" "r \<in> set rs"
  shows "sg_size (H ! r) \<le> seg_usage H rs"
proof -
  obtain xs ys where rs: "rs = xs @ r # ys" using assms(2) by (meson split_list)
  then have "0 \<le> seg_usage H xs" "0 \<le> seg_usage H ys"
    using assms(1) by (auto intro!: seg_usage_nonneg)
  then show ?thesis using rs by simp
qed

subsection \<open>Fresh segment ids\<close>

definition dir_ok :: "os \<Rightarrow> bool" where
  "dir_ok w \<longleftrightarrow> (case os_dir w of None \<Rightarrow> False | Some d \<Rightarrow> list_all (\<lambda>e. snd e \<noteq> Dir) d)"

definition dir_max :: "os \<Rightarrow> nat" where
  "dir_max w = (case os_dir w of None \<Rightarrow> 0 | Some d \<Rightarrow> max_segment_id (sort_key fst d))"

lemma max_segment_id_foldl:
  fixes es a
  defines "m \<equiv> foldl (\<lambda>maxID e. case segment_id e of None \<Rightarrow> maxID
                      | Some i \<Rightarrow> if i > maxID then i else maxID) a es"
  shows "a \<le> m \<and> (\<forall>e\<in>set es. \<forall>i. segment_id e = Some i \<longrightarrow> i \<le> m)"
  unfolding m_def
proof (induction es arbitrary: a)
  case (Cons e es)
  show ?case
    using Cons.IH [of a] Cons.IH [of "the (segment_id e)"]
    by (cases "segment_id e") (auto intro: order.trans)
qed simp

lemma segment_id_le_max: "e \<in> set es \<Longrightarrow> segment_id e = Some i \<Longrightarrow> i \<le> max_segment_id es"
  using max_segment_id_foldl [of 0 es] by (auto simp: max_segment_id_def)

lemma max_segment_id_least:
  assumes "\<And>e i. e \<in> set es \<Longrightarrow> segment_id e = Some i \<Longrightarrow> i \<le> M"
  shows "max_segment_id es \<le> M"
proof -
  have "foldl (\<lambda>maxID e. case segment_id e of None \<Rightarrow> maxID
      | Some i \<Rightarrow> if i > maxID then i else maxID) a es \<le> M" if "a \<le> M" for a
    using that assms by (induction es arbitrary: a) (auto split: option.splits)
  then show ?thesis by (simp add: max_segment_id_def)
qed

lemma dir_max_drop: "dir_max (drop_file n w) \<le> dir_max w"
proof (cases "os_dir w")
  case (Some d)
  then show ?thesis
    using segment_id_le_max [of _ "sort_key fst d"]
    by (auto simp: dir_max_def drop_file_def AList.delete_eq intro!: max_segment_id_least)
qed (simp add: dir_max_def drop_file_def)

lemma nextSegmentID_fresh:
  assumes "dir_ok w" "os_faults w = []" "int (dir_max w) + 1 < 2 ^ 64"
  shows "nextSegmentID w = (Inr (Suc (dir_max w)), w)"
    and "\<exists>d. os_dir w = Some d \<and> map_of d (format_uint (Suc (dir_max w))) = None"
proof -
  obtain d where d: "os_dir w = Some d" "list_all (\<lambda>e. snd e \<noteq> Dir) d"
    using assms(1) by (auto simp: dir_ok_def split: option.splits)
  show "nextSegmentID w = (Inr (Suc (dir_max w)), w)"
    using assms(2,3) d(1) by (simp add: nextSegmentID_def read_dir_def dir_max_def u64_id nat_add_distrib)
  have "(format_uint (Suc (dir_max w)), e) \<notin> set d" for e
  proof
    assume e: "(format_uint (Suc (dir_max w)), e) \<in> set d"
    then have "segment_id (format_uint (Suc (dir_max w)), e) = Some (Suc (dir_max w))"
      using d(2) assms(3) by (auto simp: list_all_iff segment_id_def split: dentry.splits)
    then have "Suc (dir_max w) \<le> dir_max w"
      using segment_id_le_max [of _ "sort_key fst d"] e d(1) by (auto simp: dir_max_def)
    then show False by simp
  qed
  then show "\<exists>d. os_dir w = Some d \<and> map_of d (format_uint (Suc (dir_max w))) = None"
    using d(1) by (auto simp: map_of_eq_None_iff)
qed

section \<open>The queue's invariant\<close>

text \<open>
  \<open>queue_rep st L\<close>: the queue is open on the segments that hold \<open>L\<close>, its head is the
  first of them and its tail the last, and the files together take at most 16 bytes
  more than \<open>maxSize\<close>: \<open>Append\<close> counts the block, not its 8-byte header nor the 8-byte
  footer of a new segment.
\<close>

definition queue_rep :: "queue_state \<Rightarrow> (byte list list \<times> byte list list) list \<Rightarrow> bool" where
  "queue_rep st L \<longleftrightarrow>
     os_faults (snd st) = [] \<and> dir_ok (snd st) \<and> segs (fst st) \<noteq> [] \<and>
     q_head (fst st) = Some (hd (segs (fst st))) \<and>
     q_tail (fst st) = Some (last (segs (fst st))) \<and>
     segs_rep (q_heap (fst st)) (snd st) (segs (fst st)) (q_maxSegmentSize (fst st)) L \<and>
     seg_usage (q_heap (fst st)) (segs (fst st)) \<le> q_maxSize (fst st) + 16 \<and>
     q_maxSize (fst st) < 2 ^ 61"

lemma segs_simps [simp]:
  "segs (q\<lparr>q_heap := H\<rparr>) = segs q"
  "segs (q\<lparr>q_head := h\<rparr>) = segs q"
  "segs (q\<lparr>q_tail := t\<rparr>) = segs q"
  "segs (q\<lparr>q_segments := Some rs\<rparr>) = rs"
  by (simp_all add: segs_def)

lemma dir_ok_put [simp]: "dir_ok w \<Longrightarrow> dir_ok (put_file n f w)"
  by (auto simp: dir_ok_def put_file_def list_all_iff split: option.splits dest!: set_update_subset)

lemma dir_ok_drop [simp]: "dir_ok w \<Longrightarrow> dir_ok (drop_file n w)"
  by (auto simp: dir_ok_def drop_file_def list_all_iff AList.delete_eq split: option.splits)

lemma DiskUsage_usage:
  assumes "queue_rep st L"
  shows "DiskUsage (fst st) = seg_usage (q_heap (fst st)) (segs (fst st))"
proof -
  have "seg_usage (q_heap (fst st)) (segs (fst st)) < 2 ^ 63"
    using assms by (simp add: queue_rep_def)
  with assms show ?thesis
    using disk_usage_foldl [of "q_heap (fst st)" "snd st" "segs (fst st)" _ L "segs (fst st)" 0]
    by (auto simp: DiskUsage_def queue_rep_def)
qed

lemma queue_rep_update:
  assumes rep: "queue_rep (q, w) L" and i: "i < length (segs q)"
    and s': "seg_rep s' w' dn pd" "sg_path s' = sg_path (q_heap q ! (segs q ! i))"
      "sg_maxSize s' = q_maxSegmentSize q"
    and use: "seg_usage (q_heap q) (segs q) - sg_size (q_heap q ! (segs q ! i)) + sg_size s'
      \<le> q_maxSize q + 16"
    and w': "os_faults w' = []" "dir_ok w'"
      "\<And>n. n \<noteq> sg_path s' \<Longrightarrow> lookup_file n w' = lookup_file n w"
  shows "queue_rep (q\<lparr>q_heap := (q_heap q)[segs q ! i := s']\<rparr>, w') (L[i := (dn, pd)])"
proof -
  have sr: "segs_rep (q_heap q) w (segs q) (q_maxSegmentSize q) L"
    using rep by (simp add: queue_rep_def)
  show ?thesis
    using rep use w'(1,2) segs_rep_update [OF sr i s' w'(3)] seg_usage_update [OF sr i, of s']
    by (simp add: queue_rep_def)
qed

subsection \<open>Adding and trimming segments\<close>

lemma addSegment_ok:
  assumes sr: "segs_rep (q_heap q) w (segs q) (q_maxSegmentSize q) L"
    and w: "dir_ok w" "os_faults w = []" "int (dir_max w) + 1 < 2 ^ 64"
  shows "\<exists>s w'. addSegment (q, w) = (Inr (length (q_heap q)),
        q\<lparr>q_heap := q_heap q @ [s], q_segments := Some (segs q @ [length (q_heap q)])\<rparr>, w')
    \<and> segs_rep (q_heap q @ [s]) w' (segs q @ [length (q_heap q)]) (q_maxSegmentSize q)
        (L @ [([], [])])
    \<and> seg_usage (q_heap q @ [s]) (segs q @ [length (q_heap q)]) = seg_usage (q_heap q) (segs q) + 8
    \<and> os_faults w' = [] \<and> dir_ok w' \<and> sg_size s = 8 \<and> os_clock w' = os_clock w
    \<and> map_option fmtime (lookup_file (sg_path s) w') = Some (os_clock w)
    \<and> (\<forall>n. n \<noteq> sg_path s \<longrightarrow> lookup_file n w' = lookup_file n w)
    \<and> sg_path s \<notin> (\<lambda>r. sg_path (q_heap q ! r)) ` set (segs q)"
proof -
  let ?n = "format_uint (Suc (dir_max w))"
  obtain d where d: "os_dir w = Some d" "map_of d ?n = None"
    using nextSegmentID_fresh(2) [OF w] by auto
  define w' where "w' = put_file ?n \<lparr>fcontents = seg_image [] [], fmtime = os_clock w\<rparr> w"
  obtain s where s: "newSegment ?n (q_maxSegmentSize q) w = (Inr s, w')" "seg_rep s w' [] []"
    "sg_path s = ?n" "sg_maxSize s = q_maxSegmentSize q" "sg_size s = 8"
    using newSegment_create [OF d w(2)] by (auto simp: w'_def)
  have "lookup_file (sg_path s) w = None"
    using d s(3) by (simp add: lookup_file_def)
  then have new: "sg_path s \<notin> (\<lambda>r. sg_path (q_heap q ! r)) ` set (segs q)"
    using segs_rep_file [OF sr] by fastforce
  have fr: "lookup_file n w' = lookup_file n w" if "n \<noteq> sg_path s" for n
    using that s(3) d(1) by (simp add: w'_def lookup_put_file)
  have "addSegment (q, w) = (Inr (length (q_heap q)),
        q\<lparr>q_heap := q_heap q @ [s], q_segments := Some (segs q @ [length (q_heap q)])\<rparr>, w')"
    using s(1) nextSegmentID_fresh(1) [OF w] by (simp add: addSegment_def on_os_def alloc_def)
  moreover have "seg_usage (q_heap q @ [s]) (segs q) = seg_usage (q_heap q) (segs q)"
    using sr by (intro seg_usage_cong) (auto simp: segs_rep_def nth_append)
  moreover have "os_faults w' = []" "dir_ok w'" "os_clock w' = os_clock w"
    "map_option fmtime (lookup_file (sg_path s) w') = Some (os_clock w)"
    using w d(1) s(3) by (simp_all add: w'_def lookup_put_file)
  ultimately show ?thesis
    using segs_rep_snoc [OF sr s(2,4) new fr] s(5) new fr
    by (intro exI [where x = s] exI [where x = w']) (simp del: image_iff)
qed

lemma trimHead_ok:
  assumes w: "os_faults w = []" "dir_ok w"
    and sg: "segs q = r # r2 # rs" "q_head q = Some r" "L = p # L'"
    and sr: "segs_rep (q_heap q) w (segs q) (q_maxSegmentSize q) L"
  shows "\<exists>s. trimHead (q, w) = (Inr (),
      q\<lparr>q_segments := Some (r2 # rs), q_heap := (q_heap q)[r := s], q_head := Some r2\<rparr>,
      drop_file (sg_path (q_heap q ! r)) w)
    \<and> segs_rep ((q_heap q)[r := s]) (drop_file (sg_path (q_heap q ! r)) w) (r2 # rs)
        (q_maxSegmentSize q) L'
    \<and> seg_usage ((q_heap q)[r := s]) (r2 # rs) = seg_usage (q_heap q) (segs q) - sg_size (q_heap q ! r)
    \<and> sg_file s = None"
proof -
  have head: "seg_rep (q_heap q ! r) w (fst p) (snd p)" "r < length (q_heap q)" "r \<notin> set (r2 # rs)"
    using sr sg by (auto simp: segs_rep_def)
  then obtain h f where h: "sg_file (q_heap q ! r) = Some h"
    "lookup_file (sg_path (q_heap q ! r)) w = Some f" by (auto elim: seg_repE)
  define s where "s = (q_heap q ! r)\<lparr>sg_file := None\<rparr>"
  have "trimHead (q, w) = (Inr (),
      q\<lparr>q_segments := Some (r2 # rs), q_heap := (q_heap q)[r := s], q_head := Some r2\<rparr>,
      drop_file (sg_path (q_heap q ! r)) w)"
    using sg(1,2) w(1) h head(2)
    by (simp add: trimHead_def on_seg_def on_os_def segment_close_ok remove_file_def s_def)
  moreover have "seg_usage ((q_heap q)[r := s]) (r2 # rs) = seg_usage (q_heap q) (r2 # rs)"
    using head(3) by (intro seg_usage_cong) (metis nth_list_update_neq)
  moreover have "segs_rep ((q_heap q)[r := s]) (drop_file (sg_path (q_heap q ! r)) w) (r2 # rs)
        (q_maxSegmentSize q) L'"
    using sr sg by (intro segs_rep_tl [of "q_heap q" w r _ _ p]) (auto intro: lookup_drop_file)
  ultimately show ?thesis
    using sg(1) by (intro exI [where x = s]) (simp add: s_def)
qed

subsection \<open>Append\<close>

text \<open>The configuration of a queue, which no method below changes.\<close>

definition same_config :: "queue_state \<Rightarrow> queue_state \<Rightarrow> bool" where
  "same_config st st' \<longleftrightarrow>
     q_maxSegmentSize (fst st') = q_maxSegmentSize (fst st) \<and>
     q_maxSize (fst st') = q_maxSize (fst st)"

text \<open>The call of a segment's append through the queue.\<close>

lemma on_seg_append_ok:
  assumes rep: "queue_rep (q, w) L" and i: "i < length (segs q)" and Li: "L ! i = (dn, pd)"
    and b: "b \<noteq> []"
    and fits: "sg_size (q_heap q ! (segs q ! i)) + int (length b) \<le> q_maxSegmentSize q"
    and use: "seg_usage (q_heap q) (segs q) + int (length b) \<le> q_maxSize q + 8"
  shows "\<exists>st'. on_seg (segs q ! i) (segment_append b) (q, w) = (Inr (), st')
    \<and> queue_rep st' (L[i := (dn, pd @ [b])]) \<and> same_config (q, w) st'"
proof -
  let ?r = "segs q ! i" let ?s = "q_heap q ! ?r"
  have sr: "segs_rep (q_heap q) w (segs q) (q_maxSegmentSize q) L" "os_faults w = []" "dir_ok w"
    "q_maxSize q < 2 ^ 61"
    using rep by (auto simp: queue_rep_def)
  have seg: "seg_rep ?s w dn pd" "sg_maxSize ?s = q_maxSegmentSize q" "sg_size ?s \<le> seg_usage (q_heap q) (segs q)"
    using segs_rep_nth [OF sr(1) i] Li sr(1) i seg_usage_ge [OF sr(1)] by (auto simp: segs_rep_def)
  obtain s' where s': "segment_append b (?s, w) = (Inr (), s',
        put_file (sg_path ?s) \<lparr>fcontents = seg_image dn (pd @ [b]), fmtime = os_clock w\<rparr> w)"
      "seg_rep s' (put_file (sg_path ?s) \<lparr>fcontents = seg_image dn (pd @ [b]), fmtime = os_clock w\<rparr> w)
        dn (pd @ [b])"
      "sg_path s' = sg_path ?s" "sg_maxSize s' = sg_maxSize ?s" "sg_size s' = sg_size ?s + int (length b) + 8"
    using segment_append_ok [OF seg(1) sr(2) b] fits use seg(2,3) sr(4) by auto
  obtain f where "lookup_file (sg_path ?s) w = Some f"
    using seg(1) by (auto elim: seg_repE)
  then show ?thesis
    using queue_rep_update [OF rep i s'(2,3)] s' seg(2) sr use
    by (auto simp: on_seg_def same_config_def)
qed

lemma Queue_Append_tail:
  assumes rep: "queue_rep (q, w) (L @ [(dn, pd)])" and b: "b \<noteq> []"
    and room: "DiskUsage q + int (length b) \<le> q_maxSize q"
    and fits: "sg_size (q_heap q ! last (segs q)) + int (length b) \<le> q_maxSegmentSize q"
  shows "\<exists>st'. Queue_Append b (q, w) = (Inr (), st') \<and> queue_rep st' (L @ [(dn, pd @ [b])])
    \<and> same_config (q, w) st'"
proof -
  have ne: "segs q \<noteq> []" "q_tail q = Some (last (segs q))" "q_maxSize q < 2 ^ 61"
    and sr: "segs_rep (q_heap q) w (segs q) (q_maxSegmentSize q) (L @ [(dn, pd)])"
    using rep by (auto simp: queue_rep_def)
  have "length (segs q) = Suc (length L)"
    using segs_rep_length [OF sr] by simp
  then have len: "length (segs q) = Suc (length L)" "last (segs q) = segs q ! length L"
    using ne(1) by (simp_all add: last_conv_nth)
  have du: "DiskUsage q = seg_usage (q_heap q) (segs q)" "0 \<le> DiskUsage q"
    using DiskUsage_usage [OF rep] seg_usage_nonneg [OF sr] by auto
  then have i: "i64 (DiskUsage q + int (length b)) = DiskUsage q + int (length b)"
    using room ne(3) by (intro i64_id) auto
  obtain st' where "on_seg (last (segs q)) (segment_append b) (q, w) = (Inr (), st')"
    "queue_rep st' (L @ [(dn, pd @ [b])])" "same_config (q, w) st'"
    using on_seg_append_ok [OF rep, of "length L" dn pd b] b fits room du len by auto
  then show ?thesis
    using room ne(2) i by (simp add: Queue_Append_def)
qed

text \<open>A block that does not fit the tail goes to a new segment.\<close>

lemma Queue_Append_new:
  assumes rep: "queue_rep (q, w) L" and b: "b \<noteq> []"
    and room: "DiskUsage q + int (length b) \<le> q_maxSize q"
    and full: "sg_size (q_heap q ! last (segs q)) + int (length b) > q_maxSegmentSize q"
    and fits: "int (length b) + 8 \<le> q_maxSegmentSize q"
    and ids: "int (dir_max w) + 1 < 2 ^ 64"
  shows "\<exists>st'. Queue_Append b (q, w) = (Inr (), st') \<and> queue_rep st' (L @ [([], [b])])
    \<and> same_config (q, w) st'"
proof -
  let ?r = "length (q_heap q)" let ?t = "last (segs q)"
  have ne: "segs q \<noteq> []" "q_tail q = Some ?t" "q_maxSize q < 2 ^ 61" "os_faults w = []" "dir_ok w"
      "q_head q = Some (hd (segs q))"
    and sr: "segs_rep (q_heap q) w (segs q) (q_maxSegmentSize q) L"
    using rep by (auto simp: queue_rep_def)
  have du: "DiskUsage q = seg_usage (q_heap q) (segs q)" "0 \<le> DiskUsage q"
    using DiskUsage_usage [OF rep] seg_usage_nonneg [OF sr] by auto
  then have i: "i64 (DiskUsage q + int (length b)) = DiskUsage q + int (length b)"
    using room ne(3) by (intro i64_id) auto
  have t: "?t < length (q_heap q)" "sg_maxSize (q_heap q ! ?t) = q_maxSegmentSize q"
    "sg_size (q_heap q ! ?t) + int (length b) < 2 ^ 62"
    using sr ne seg_usage_ge [OF sr, of ?t] du room by (auto simp: segs_rep_def)
  obtain dn pd where "seg_rep (q_heap q ! ?t) w dn pd"
    using segs_rep_nth [OF sr, of "length (segs q) - 1"] ne(1) by (auto simp: last_conv_nth)
  then have f: "on_seg ?t (segment_append b) (q, w) = (Inl ErrSegmentFull, q, w)"
    using segment_append_full [of _ w dn pd b] full t by (simp add: on_seg_def)
  obtain s w' where s: "addSegment (q, w) = (Inr ?r,
        q\<lparr>q_heap := q_heap q @ [s], q_segments := Some (segs q @ [?r])\<rparr>, w')"
    "segs_rep (q_heap q @ [s]) w' (segs q @ [?r]) (q_maxSegmentSize q) (L @ [([], [])])"
    "seg_usage (q_heap q @ [s]) (segs q @ [?r]) = seg_usage (q_heap q) (segs q) + 8"
    "os_faults w' = []" "dir_ok w'" "sg_size s = 8"
    using addSegment_ok [OF sr ne(5,4) ids] by auto
  define q' where "q' = q\<lparr>q_heap := q_heap q @ [s], q_segments := Some (segs q @ [?r]), q_tail := Some ?r\<rparr>"
  have rep': "queue_rep (q', w') (L @ [([], [])])"
    using s ne du room unfolding q'_def queue_rep_def by simp
  obtain st' where "on_seg ?r (segment_append b) (q', w') = (Inr (), st')"
    "queue_rep st' (L @ [([], [b])])" "same_config (q', w') st'"
    using on_seg_append_ok [OF rep', of "length L" "[]" "[]" b] b fits s(3,6) room du(1)
      segs_rep_length [OF sr, symmetric] by (auto simp: q'_def nth_append)
  then show ?thesis
    using room ne(2) i f s(1) by (auto simp: Queue_Append_def q'_def same_config_def)
qed

lemma Queue_Append_full:
  assumes rep: "queue_rep (q, w) L" and full: "q_maxSize q < DiskUsage q + int (length b)"
    and small: "int (length b) < 2 ^ 62"
  shows "Queue_Append b (q, w) = (Inl ErrQueueFull, q, w)"
proof -
  have sr: "segs_rep (q_heap q) w (segs q) (q_maxSegmentSize q) L"
    "q_tail q = Some (last (segs q))" "q_maxSize q < 2 ^ 61"
    "seg_usage (q_heap q) (segs q) \<le> q_maxSize q + 16"
    using rep by (auto simp: queue_rep_def)
  have "i64 (DiskUsage q + int (length b)) = DiskUsage q + int (length b)"
    using DiskUsage_usage [OF rep] seg_usage_nonneg [OF sr(1), of "segs q"] small sr(3,4)
    by (intro i64_id) auto
  then show ?thesis using full sr(2) by (simp add: Queue_Append_def)
qed

subsection \<open>Current and Advance\<close>

lemma queue_rep_head:
  assumes "queue_rep (q, w) ((dn, pd) # L)"
  obtains r rs where "segs q = r # rs" "q_head q = Some r" "r < length (q_heap q)"
    "seg_rep (q_heap q ! r) w dn pd" "sg_maxSize (q_heap q ! r) = q_maxSegmentSize q"
    "os_faults w = []" "dir_ok w" "length rs = length L"
proof -
  obtain r rs where "segs q = r # rs"
    using assms by (cases "segs q") (auto simp: queue_rep_def)
  then show thesis
    using assms that by (auto simp: queue_rep_def segs_rep_def list_all2_lengthD)
qed

lemma Queue_Current_eof:
  assumes "queue_rep (q, w) ((dn, []) # L)"
  shows "Queue_Current (q, w) = (Inl EOF, q, w)"
  using assms
  by (elim queue_rep_head) (simp add: Queue_Current_def on_seg_def segment_current_eof)

lemma Queue_Current_ok:
  assumes rep: "queue_rep (q, w) ((dn, b # pd) # L)"
  shows "\<exists>q'. Queue_Current (q, w) =
      (if int (length b) > q_maxSegmentSize q then Inl RecordOutOfRange
       else if int (length b) > 512 * 1024 then Inl RecordTooBig else Inr b, q', w)
    \<and> queue_rep (q', w) ((dn, b # pd) # L) \<and> same_config (q, w) (q', w)"
proof -
  from rep obtain r rs where q: "segs q = r # rs" "q_head q = Some r" "r < length (q_heap q)"
    "seg_rep (q_heap q ! r) w dn (b # pd)" "sg_maxSize (q_heap q ! r) = q_maxSegmentSize q"
    "os_faults w = []" "dir_ok w" "length rs = length L" by (rule queue_rep_head)
  obtain h where h: "fname h = sg_path (q_heap q ! r)"
    "segment_current (q_heap q ! r, w) =
      (if int (length b) > q_maxSegmentSize q then Inl RecordOutOfRange
       else if int (length b) > 512 * 1024 then Inl RecordTooBig
       else Inr b, (q_heap q ! r)\<lparr>sg_file := Some h\<rparr>, w)"
    using segment_current_pending [OF q(4,6)] q(5) by auto
  have "queue_rep (q\<lparr>q_heap := (q_heap q)[segs q ! 0 := (q_heap q ! r)\<lparr>sg_file := Some h\<rparr>]\<rparr>, w)
      (((dn, b # pd) # L)[0 := (dn, b # pd)])"
    by (rule queue_rep_update [OF rep])
      (use q h rep in \<open>auto simp: queue_rep_def intro!: seg_rep_handle\<close>)
  then show ?thesis
    using q(1,2) h(2) by (auto simp: Queue_Current_def on_seg_def same_config_def)
qed

text \<open>
  \<open>Advance\<close> consumes the head block. A head segment without further blocks is removed,
  unless it is the only one.
\<close>

definition advanced :: "(byte list list \<times> byte list list) list \<Rightarrow> (byte list list \<times> byte list list) list" where
  "advanced L =
     (case L of (dn, b # pd) # L' \<Rightarrow>
        if pd = [] \<and> L' \<noteq> [] then L' else (dn @ [b], pd) # L'
      | (dn, []) # L' \<Rightarrow> if L' \<noteq> [] then L' else L
      | [] \<Rightarrow> [])"

lemma trimHead_queue:
  assumes rep: "queue_rep (q, w) (p # L)"
  shows "\<exists>st'. trimHead (q, w) = (Inr (), st')
    \<and> queue_rep st' (if L = [] then [p] else L) \<and> same_config (q, w) st'"
proof (cases L)
  case Nil
  then have "length (segs q) = 1"
    using rep segs_rep_length by (fastforce simp: queue_rep_def)
  then show ?thesis using rep Nil by (simp add: trimHead_def same_config_def)
next
  case (Cons p2 L')
  have sr: "segs_rep (q_heap q) w (segs q) (q_maxSegmentSize q) (p # L)"
    using rep by (simp add: queue_rep_def)
  obtain r r2 rs where sg: "segs q = r # r2 # rs"
    using segs_rep_length [OF sr] Cons by (cases "segs q" rule: remdups_adj.cases) auto
  have rh: "q_head q = Some r" "os_faults w = []" "dir_ok w"
    using rep sg by (auto simp: queue_rep_def)
  obtain s where "trimHead (q, w) = (Inr (),
      q\<lparr>q_segments := Some (r2 # rs), q_heap := (q_heap q)[r := s], q_head := Some r2\<rparr>,
      drop_file (sg_path (q_heap q ! r)) w)"
    "segs_rep ((q_heap q)[r := s]) (drop_file (sg_path (q_heap q ! r)) w) (r2 # rs)
        (q_maxSegmentSize q) L"
    "seg_usage ((q_heap q)[r := s]) (r2 # rs) = seg_usage (q_heap q) (segs q) - sg_size (q_heap q ! r)"
    using trimHead_ok [OF rh(2,3) sg rh(1) refl sr] by auto
  moreover have "8 \<le> sg_size (q_heap q ! r)"
    using seg_size_pos [OF sr] sg by simp
  ultimately show ?thesis
    using rep sg Cons unfolding queue_rep_def same_config_def by (simp del: seg_usage_simps)
qed

lemma on_seg_advance_ok:
  assumes rep: "queue_rep (q, w) ((dn, b # pd) # L)"
  shows "\<exists>st'. on_seg (hd (segs q)) segment_advance (q, w) = (if pd = [] then Inl EOF else Inr (), st')
    \<and> queue_rep st' ((dn @ [b], pd) # L) \<and> same_config (q, w) st'"
proof -
  from rep obtain r rs where q: "segs q = r # rs" "q_head q = Some r" "r < length (q_heap q)"
    "seg_rep (q_heap q ! r) w dn (b # pd)" "sg_maxSize (q_heap q ! r) = q_maxSegmentSize q"
    "os_faults w = []" "dir_ok w" "length rs = length L" by (rule queue_rep_head)
  let ?f = "\<lparr>fcontents = seg_image (dn @ [b]) pd, fmtime = os_clock w\<rparr>"
  let ?w' = "put_file (sg_path (q_heap q ! r)) ?f w"
  obtain s' where s': "segment_advance (q_heap q ! r, w) = (if pd = [] then Inl EOF else Inr (), s', ?w')"
    "seg_rep s' ?w' (dn @ [b]) pd" "sg_path s' = sg_path (q_heap q ! r)"
    "sg_maxSize s' = sg_maxSize (q_heap q ! r)" "sg_size s' = sg_size (q_heap q ! r)"
    using segment_advance_ok [OF q(4,6)] by auto
  obtain f where f: "lookup_file (sg_path (q_heap q ! r)) w = Some f"
    using q(4) by (auto elim: seg_repE)
  have "queue_rep (q\<lparr>q_heap := (q_heap q)[segs q ! 0 := s']\<rparr>, ?w')
      (((dn, b # pd) # L)[0 := (dn @ [b], pd)])"
    by (rule queue_rep_update [OF rep _ s'(2)])
      (use q s' f rep in \<open>auto simp: queue_rep_def\<close>)
  then show ?thesis
    using q(1) s'(1) by (auto simp: on_seg_def same_config_def)
qed

lemma Queue_Advance_ok:
  assumes rep: "queue_rep (q, w) ((dn, pd) # L)"
  shows "\<exists>st'. Queue_Advance (q, w) = (Inr (), st') \<and> queue_rep st' (advanced ((dn, pd) # L))
    \<and> same_config (q, w) st'"
proof (cases pd)
  case Nil
  have head: "q_head q = Some (hd (segs q))"
    using rep by (simp add: queue_rep_def)
  have "on_seg (hd (segs q)) segment_advance (q, w) = (Inl EOF, q, w)"
    using rep Nil by (elim queue_rep_head) (simp add: on_seg_def segment_advance_eof)
  with trimHead_queue [OF rep] show ?thesis
    using Nil head by (auto simp: Queue_Advance_def advanced_def)
next
  case (Cons b pd')
  have head: "q_head q = Some (hd (segs q))"
    using rep by (simp add: queue_rep_def)
  obtain q1 w1 where 1: "on_seg (hd (segs q)) segment_advance (q, w) =
      (if pd' = [] then Inl EOF else Inr (), q1, w1)"
    "queue_rep (q1, w1) ((dn @ [b], pd') # L)" "same_config (q, w) (q1, w1)"
    using on_seg_advance_ok [OF rep [unfolded Cons]] by auto
  then show ?thesis
    using trimHead_queue [OF 1(2)] head Cons
    by (cases "pd' = []") (auto simp: Queue_Advance_def advanced_def same_config_def)
qed

section \<open>The queue keeps the FIFO contract\<close>

text \<open>
  \<open>fifo_rep st bs\<close>: the queue holds the blocks \<open>bs\<close>, none of them above the limits of
  \<open>Current\<close>, and when it has several segments each has pending blocks. \<open>queue_accepts\<close> is
  what a caller has to respect for a write to be delivered: a non-empty block within the
  limits and the room on disk, and, when the tail is full, a head that still has blocks.
\<close>

definition fifo_rep :: "queue_state \<Rightarrow> byte list list \<Rightarrow> bool" where
  "fifo_rep st bs \<longleftrightarrow>
     (\<exists>L. queue_rep st L \<and> bs = concat (map snd L) \<and>
          (length L > 1 \<longrightarrow> [] \<notin> set (map snd L)) \<and>
          (\<forall>b\<in>set bs. int (length b) \<le> 512 * 1024 \<and>
             int (length b) \<le> q_maxSegmentSize (fst st)))"

definition queue_accepts :: "queue_state \<Rightarrow> byte list \<Rightarrow> bool" where
  "queue_accepts st b \<longleftrightarrow>
     b \<noteq> [] \<and> int (length b) \<le> 512 * 1024 \<and>
     int (length b) + 8 \<le> q_maxSegmentSize (fst st) \<and>
     DiskUsage (fst st) + int (length b) \<le> q_maxSize (fst st) \<and>
     int (dir_max (snd st)) + 1 < 2 ^ 64 \<and>
     (sg_size (q_heap (fst st) ! last (segs (fst st))) + int (length b) \<le> q_maxSegmentSize (fst st) \<or>
      sg_pos (q_heap (fst st) ! hd (segs (fst st))) \<noteq>
        sg_size (q_heap (fst st) ! hd (segs (fst st))) - 8)"

lemma queue_rep_nonempty: "queue_rep st L \<Longrightarrow> L \<noteq> []"
  by (auto simp: queue_rep_def dest: segs_rep_length)

lemma fifo_app:
  assumes "fifo_rep st bs" "queue_accepts st b"
  shows "\<exists>st'. Queue_Append b st = (Inr (), st') \<and> fifo_rep st' (bs @ [b])"
proof -
  obtain q w L where st: "st = (q, w)" and rep: "queue_rep (q, w) L" and bs: "bs = concat (map snd L)"
    and multi: "length L > 1 \<longrightarrow> [] \<notin> set (map snd L)"
    and lim: "\<forall>b\<in>set bs. int (length b) \<le> 512 * 1024 \<and> int (length b) \<le> q_maxSegmentSize q"
    using assms(1) by (cases st) (auto simp: fifo_rep_def)
  obtain L0 dn pd where L: "L = L0 @ [(dn, pd)]"
    using queue_rep_nonempty [OF rep] by (metis rev_exhaust surj_pair)
  note acc = assms(2) [unfolded queue_accepts_def st fst_conv snd_conv]
  show ?thesis
  proof (cases "sg_size (q_heap q ! last (segs q)) + int (length b) \<le> q_maxSegmentSize q")
    case True
    then show ?thesis
      using Queue_Append_tail [OF rep [unfolded L]] acc bs multi lim L st
      by (fastforce simp: fifo_rep_def same_config_def)
  next
    case False
    obtain p L1 where L1: "L = p # L1" using queue_rep_nonempty [OF rep] by (cases L) auto
    have "snd p \<noteq> []"
      using False acc rep [unfolded L1]
      by (cases p) (auto elim!: queue_rep_head seg_repE)
    then have "[] \<notin> set (map snd L)"
      using multi L1 by (cases L1) auto
    then show ?thesis
      using Queue_Append_new [OF rep] False acc bs lim st
      by (fastforce simp: fifo_rep_def same_config_def)
  qed
qed

lemma fifo_repE:
  assumes "fifo_rep st bs"
  obtains q w dn pd L where "st = (q, w)" "queue_rep (q, w) ((dn, pd) # L)"
    "bs = pd @ concat (map snd L)" "L \<noteq> [] \<longrightarrow> pd \<noteq> [] \<and> [] \<notin> set (map snd L)"
    "\<forall>b\<in>set bs. int (length b) \<le> 512 * 1024 \<and> int (length b) \<le> q_maxSegmentSize q"
proof -
  obtain q w L where st: "st = (q, w)" and L: "queue_rep (q, w) L" "bs = concat (map snd L)"
    "length L > 1 \<longrightarrow> [] \<notin> set (map snd L)"
    "\<forall>b\<in>set bs. int (length b) \<le> 512 * 1024 \<and> int (length b) \<le> q_maxSegmentSize q"
    using assms by (cases st) (auto simp: fifo_rep_def)
  obtain dn pd L' where "L = (dn, pd) # L'"
    using queue_rep_nonempty [OF L(1)] by (cases L) auto
  then show thesis using that [of q w dn pd L'] st L by auto
qed

lemma fifo_cur_empty: "fifo_rep st [] \<Longrightarrow> Queue_Current st = (Inl EOF, st)"
  by (elim fifo_repE) (auto simp: Queue_Current_eof)

lemma fifo_cur:
  assumes "fifo_rep st (b # bs)"
  shows "\<exists>st'. Queue_Current st = (Inr b, st') \<and> fifo_rep st' (b # bs)"
proof -
  from assms obtain q w dn pd L where f: "st = (q, w)" "queue_rep (q, w) ((dn, pd) # L)"
    "b # bs = pd @ concat (map snd L)" "L \<noteq> [] \<longrightarrow> pd \<noteq> [] \<and> [] \<notin> set (map snd L)"
    "\<forall>c\<in>set (b # bs). int (length c) \<le> 512 * 1024 \<and> int (length c) \<le> q_maxSegmentSize q"
    by (rule fifo_repE)
  then obtain pd' where pd: "pd = b # pd'" by (cases pd) auto
  obtain q' where q': "Queue_Current (q, w) = (Inr b, q', w)" "queue_rep (q', w) ((dn, pd) # L)"
    "same_config (q, w) (q', w)"
    using Queue_Current_ok [OF f(2) [unfolded pd]] f(5) pd by auto
  have "fifo_rep (q', w) (b # bs)"
    unfolding fifo_rep_def
    by (rule exI [where x = "(dn, pd) # L"]) (use f q'(2,3) in \<open>auto simp: same_config_def\<close>)
  then show ?thesis using f(1) q'(1) by auto
qed

lemma fifo_adv:
  assumes "fifo_rep st (b # bs)"
  shows "\<exists>st'. Queue_Advance st = (Inr (), st') \<and> fifo_rep st' bs"
proof -
  from assms obtain q w dn pd L where f: "st = (q, w)" "queue_rep (q, w) ((dn, pd) # L)"
    "b # bs = pd @ concat (map snd L)" "L \<noteq> [] \<longrightarrow> pd \<noteq> [] \<and> [] \<notin> set (map snd L)"
    "\<forall>c\<in>set (b # bs). int (length c) \<le> 512 * 1024 \<and> int (length c) \<le> q_maxSegmentSize q"
    by (rule fifo_repE)
  then obtain pd' where pd: "pd = b # pd'" by (cases pd) auto
  obtain st' where st': "Queue_Advance (q, w) = (Inr (), st')"
    "queue_rep st' (advanced ((dn, pd) # L))" "same_config (q, w) st'"
    using Queue_Advance_ok [OF f(2)] by auto
  have "fifo_rep st' bs"
    unfolding fifo_rep_def
    by (rule exI [where x = "advanced ((dn, pd) # L)"])
      (use f(3-5) pd st'(2,3) in \<open>auto simp: same_config_def advanced_def\<close>)
  then show ?thesis using f(1) st'(1) by auto
qed

interpretation hq: fifo_queue fifo_rep queue_accepts Queue_Append Queue_Current Queue_Advance
  by unfold_locales (fact fifo_app fifo_cur_empty fifo_cur fifo_adv)+

end
