(* ===== verification/Handoff_Restart.thy ===== *)
theory Handoff_Restart
  imports Handoff_Queue
begin

text \<open>
  The hinted-handoff queue across restarts and purges: what \<open>Open\<close> finds in the directory
  (\<open>loadSegments\<close>), that closing (or losing) a queue and opening its directory again keeps
  the pending blocks, that \<open>PurgeOlderThan\<close> returns and drops the old segments, and what
  these methods do in the situations their guards do not cover.
\<close>

section \<open>Loading segments\<close>

text \<open>A directory entry that is a segment file holding the blocks \<open>p\<close>.\<close>

definition entry_image :: "os \<Rightarrow> string \<times> dentry \<Rightarrow> byte list list \<times> byte list list \<Rightarrow> bool" where
  "entry_image w e p \<longleftrightarrow>
     segment_id e \<noteq> None \<and>
     (case lookup_file (fst e) w of None \<Rightarrow> False
      | Some f \<Rightarrow> fcontents f = seg_image (fst p) (snd p) \<and> int (length (fcontents f)) < 2 ^ 62) \<and>
     [] \<notin> set (snd p)"

definition image_usage :: "(byte list list \<times> byte list list) list \<Rightarrow> int" where
  "image_usage L = (\<Sum>p\<leftarrow>L. int (length (seg_image (fst p) (snd p))))"

lemma seg_usage_image: "segs_rep H w rs mx L \<Longrightarrow> seg_usage H rs = image_usage L"
proof -
  assume "segs_rep H w rs mx L"
  then have "list_all2 (\<lambda>r p. seg_rep (H ! r) w (fst p) (snd p)) rs L"
    by (simp add: segs_rep_def)
  then show ?thesis
    by (induction rule: list_all2_induct) (auto simp: image_usage_def seg_rep_def)
qed

lemma load_entries_ok:
  assumes "list_all2 (entry_image w) es Ls" and nofail: "os_faults w = []"
    and "distinct (map fst es)"
    and "segs_rep (q_heap q) w rs (q_maxSegmentSize q) L"
    and "\<forall>r\<in>set rs. sg_path (q_heap q ! r) \<notin> fst ` set es"
  shows "\<exists>H rs'. load_entries es rs (q, w) = (rs', q\<lparr>q_heap := H\<rparr>, w)
    \<and> segs_rep H w rs' (q_maxSegmentSize q) (L @ Ls)"
  using assms(1,3-)
proof (induction es Ls arbitrary: q rs L rule: list_all2_induct)
  case Nil
  then show ?case by (intro exI [where x = "q_heap q"]) simp
next
  case (Cons e es p Ls)
  let ?H = "q_heap q"
  obtain f where f: "lookup_file (fst e) w = Some f" "fcontents f = seg_image (fst p) (snd p)"
    "int (length (fcontents f)) < 2 ^ 62" "[] \<notin> set (snd p)" "segment_id e \<noteq> None"
    using Cons.hyps(1) by (auto simp: entry_image_def split: option.splits)
  obtain s where s: "newSegment (fst e) (q_maxSegmentSize q) w = (Inr s, w)"
    "seg_rep s w (fst p) (snd p)" "sg_path s = fst e" "sg_maxSize s = q_maxSegmentSize q"
    using newSegment_reopen [OF f(1-4) nofail] by auto
  have new: "sg_path s \<notin> (\<lambda>r. sg_path (?H ! r)) ` set rs"
    using Cons.prems(3) s(3) by auto
  have sr: "segs_rep (?H @ [s]) w (rs @ [length ?H]) (q_maxSegmentSize q) (L @ [p])"
    using segs_rep_snoc [OF Cons.prems(2) s(2,4) new refl] by simp
  have "sg_path ((?H @ [s]) ! r) \<notin> fst ` set es" if "r \<in> set (rs @ [length ?H])" for r
  proof (cases "r = length ?H")
    case True
    then show ?thesis using s(3) Cons.prems(1) by simp
  next
    case False
    with that have "r \<in> set rs" by simp
    moreover from this have "r < length ?H"
      using Cons.prems(2) by (simp add: segs_rep_def)
    ultimately show ?thesis
      using Cons.prems(3) by (simp add: nth_append)
  qed
  then show ?case
    using Cons.IH [of "q\<lparr>q_heap := ?H @ [s]\<rparr>" "rs @ [length ?H]" "L @ [p]"] sr f(5) s(1) Cons.prems(1)
    by (auto simp: on_os_def alloc_def)
qed

section \<open>Open and Close\<close>

lemma segs_rep_Nil: "segs_rep [] w [] mx []"
  by (simp add: segs_rep_def)

text \<open>
  \<open>Open\<close> on a directory of segment files: the queue holds their blocks in the order of the
  file names, without a first segment that has nothing pending.
\<close>

lemma Queue_Open_load:
  assumes w: "os_faults w = []" "dir_ok w" "os_dir w = Some d" "distinct (map fst d)"
    and img: "list_all2 (entry_image w) (sort_key fst d) Ls" and ne: "Ls \<noteq> []"
    and size: "image_usage Ls \<le> mx + 16" "mx < 2 ^ 61"
  shows "\<exists>st'. Queue_Open (NewQueue dir mx, w) = (Inr (), st')
    \<and> queue_rep st' (if snd (hd Ls) = [] \<and> tl Ls \<noteq> [] then tl Ls else Ls)
    \<and> same_config (NewQueue dir mx, w) st'"
proof -
  let ?q = "NewQueue dir mx"
  obtain H rs where ld: "load_entries (sort_key fst d) [] (?q, w) = (rs, ?q\<lparr>q_heap := H\<rparr>, w)"
    "segs_rep H w rs (q_maxSegmentSize ?q) Ls"
    using load_entries_ok [OF img w(1), of ?q "[]" "[]"] w(4) segs_rep_Nil
    by (auto simp: sort_key_distinct NewQueue_def)
  obtain p L' where L: "Ls = p # L'" using ne by (cases Ls) auto
  have rs: "rs \<noteq> []" using segs_rep_length [OF ld(2)] ne by auto
  define q1 where "q1 = ?q\<lparr>q_heap := H, q_segments := Some rs, q_head := Some (hd rs), q_tail := Some (last rs)\<rparr>"
  have rep: "queue_rep (q1, w) (p # L')"
    using ld(2) w(1,2) rs size seg_usage_image [OF ld(2)] L
    unfolding queue_rep_def by (simp add: q1_def NewQueue_def segs_def)
  have open_eq: "Queue_Open (?q, w) =
      (case on_seg (hd rs) segment_current (q1, w) of
                (Inl EOF, st) \<Rightarrow> trimHead st
              | (Inl PanicMakeSlice, st) \<Rightarrow> (Inl PanicMakeSlice, st)
              | (_, st) \<Rightarrow> (Inr (), st))"
    using w(1,3) ld(1) rs
    by (simp add: Queue_Open_def loadSegments_def on_os_def read_dir_def q1_def Let_def)
  have cur: "on_seg (hd rs) segment_current (q1, w) = Queue_Current (q1, w)"
    by (simp add: Queue_Current_def q1_def)
  show ?thesis
  proof (cases "snd p")
    case Nil
    then have "Queue_Current (q1, w) = (Inl EOF, q1, w)"
      using Queue_Current_eof rep by (cases p) auto
    then show ?thesis
      using trimHead_queue [OF rep] open_eq cur L Nil by (auto simp: q1_def same_config_def)
  next
    case (Cons b pd)
    then obtain q' where "Queue_Current (q1, w) =
      (if int (length b) > q_maxSegmentSize q1 then Inl RecordOutOfRange
       else if int (length b) > 512 * 1024 then Inl RecordTooBig else Inr b, q', w)"
      "queue_rep (q', w) Ls" "same_config (q1, w) (q', w)"
      using Queue_Current_ok [of q1 w "fst p" b pd L'] rep L by (cases p) auto
    then show ?thesis
      using open_eq cur L Cons by (auto simp: q1_def same_config_def)
  qed
qed

text \<open>\<open>Open\<close> on an empty directory creates the first segment.\<close>

lemma Queue_Open_empty:
  assumes w: "os_faults w = []" "os_dir w = Some []" and size: "-8 \<le> mx" "mx < 2 ^ 61"
  shows "\<exists>st'. Queue_Open (NewQueue dir mx, w) = (Inr (), st') \<and> fifo_rep st' []"
proof -
  let ?q = "(NewQueue dir mx)\<lparr>q_segments := Some []\<rparr>"
  have dir: "dir_ok w" "int (dir_max w) + 1 < 2 ^ 64"
    using w(2) by (simp_all add: dir_ok_def dir_max_def max_segment_id_def)
  have sr: "segs_rep (q_heap ?q) w (segs ?q) (q_maxSegmentSize ?q) []"
    by (simp add: NewQueue_def segs_rep_Nil segs_def)
  obtain s w' where s: "addSegment (?q, w) = (Inr 0, ?q\<lparr>q_heap := [s], q_segments := Some [0]\<rparr>, w')"
    "segs_rep [s] w' [0] (q_maxSegmentSize ?q) [([], [])]"
    "seg_usage [s] [0] = 8" "os_faults w' = []" "dir_ok w'"
    using addSegment_ok [OF sr dir(1) w(1) dir(2)] by (auto simp: NewQueue_def segs_def)
  define q1 where "q1 = ?q\<lparr>q_heap := [s], q_segments := Some [0], q_head := Some 0, q_tail := Some 0\<rparr>"
  have rep: "queue_rep (q1, w') [([], [])]"
    using s(2-) size unfolding queue_rep_def by (simp add: q1_def NewQueue_def segs_def)
  have "on_seg 0 segment_current (q1, w') = (Inl EOF, q1, w')"
    using Queue_Current_eof [OF rep] by (simp add: Queue_Current_def q1_def)
  moreover have "trimHead (q1, w') = (Inr (), q1, w')"
    by (simp add: trimHead_def q1_def)
  moreover have "load_entries [] [] (NewQueue dir mx, w) = ([], NewQueue dir mx, w)" by simp
  ultimately have "Queue_Open (NewQueue dir mx, w) = (Inr (), q1, w')"
    using w s(1)
    by (simp add: Queue_Open_def loadSegments_def on_os_def read_dir_def q1_def Let_def)
  then show ?thesis
    using rep by (force simp: fifo_rep_def)
qed

lemma close_all_ok:
  assumes "os_faults w = []" "distinct rs" "\<forall>r\<in>set rs. sg_file (q_heap q ! r) \<noteq> None"
  shows "\<exists>H. close_all rs (q, w) = (Inr (), q\<lparr>q_heap := H\<rparr>, w)"
  using assms(2,3)
proof (induction rs arbitrary: q)
  case Nil
  then show ?case by (intro exI [where x = "q_heap q"]) simp
next
  case (Cons r rs)
  let ?q = "q\<lparr>q_heap := (q_heap q)[r := (q_heap q ! r)\<lparr>sg_file := None\<rparr>]\<rparr>"
  have "on_seg r segment_close (q, w) = (Inr (), ?q, w)"
    using Cons.prems(2) assms(1) by (auto simp: on_seg_def segment_close_ok)
  moreover have "\<forall>x\<in>set rs. sg_file (q_heap ?q ! x) \<noteq> None"
    using Cons.prems by simp (metis nth_list_update_neq)
  ultimately show ?case
    using Cons.IH [of ?q] Cons.prems(1) by auto
qed

lemma Queue_Close_ok:
  assumes "queue_rep (q, w) L"
  shows "\<exists>q'. Queue_Close (q, w) = (Inr (), q', w) \<and>
    q_head q' = None \<and> q_tail q' = None \<and> q_segments q' = None"
proof -
  have sr: "segs_rep (q_heap q) w (segs q) (q_maxSegmentSize q) L" and "os_faults w = []"
    using assms by (simp_all add: queue_rep_def)
  moreover have "distinct (segs q)" "\<forall>r\<in>set (segs q). sg_file (q_heap q ! r) \<noteq> None"
    using sr segs_rep_open [OF sr] by (auto simp: segs_rep_def)
  ultimately obtain H where "close_all (segs q) (q, w) = (Inr (), q\<lparr>q_heap := H\<rparr>, w)"
    using close_all_ok by blast
  then show ?thesis by (simp add: Queue_Close_def)
qed

text \<open>
  The directory holds exactly the queue's segment files, and their names, compared as
  strings, are in the order of the segments.
\<close>

definition names_in_order :: "queue_state \<Rightarrow> bool" where
  "names_in_order st \<longleftrightarrow>
     (case os_dir (snd st) of None \<Rightarrow> False
      | Some d \<Rightarrow> distinct (map fst d) \<and>
          map fst (sort_key fst d) = map (\<lambda>r. sg_path (q_heap (fst st) ! r)) (segs (fst st)) \<and>
          list_all (\<lambda>e. segment_id e \<noteq> None) d)"

lemma images_of_rep:
  assumes rep: "queue_rep (q, w) L" and ord: "names_in_order (q, w)"
  shows "\<exists>d. os_dir w = Some d \<and> distinct (map fst d) \<and>
    list_all2 (entry_image w) (sort_key fst d) L"
proof -
  obtain d where d: "os_dir w = Some d" "distinct (map fst d)"
    "map fst (sort_key fst d) = map (\<lambda>r. sg_path (q_heap q ! r)) (segs q)"
    "list_all (\<lambda>e. segment_id e \<noteq> None) (sort_key fst d)"
    using ord by (auto simp: names_in_order_def list_all_iff split: option.splits)
  have sr: "segs_rep (q_heap q) w (segs q) (q_maxSegmentSize q) L"
    using rep by (simp add: queue_rep_def)
  have len: "length (sort_key fst d) = length (segs q)" "length L = length (segs q)"
    using arg_cong [OF d(3), of length] segs_rep_length [OF sr] by simp_all
  have "entry_image w (sort_key fst d ! i) (L ! i)" if "i < length (segs q)" for i
  proof -
    have "fst (sort_key fst d ! i) = sg_path (q_heap q ! (segs q ! i))"
      using arg_cong [OF d(3), of "\<lambda>xs. xs ! i"] len that by simp
    moreover have "segment_id (sort_key fst d ! i) \<noteq> None"
      using d(4) len that unfolding list_all_length by simp
    ultimately show ?thesis
      using segs_rep_nth [OF sr that] by (auto simp: entry_image_def seg_rep_def)
  qed
  then show ?thesis using d(1,2) len by (auto simp: list_all2_conv_all_nth)
qed

lemma reopen_ok:
  assumes f: "fifo_rep (q, w) bs" and ord: "names_in_order (q, w)"
  shows "\<exists>st'. Queue_Open (NewQueue dir (q_maxSize q), w) = (Inr (), st') \<and> fifo_rep st' bs"
proof -
  from f obtain L where L: "queue_rep (q, w) L" "bs = concat (map snd L)"
    "length L > 1 \<longrightarrow> [] \<notin> set (map snd L)" "\<forall>b\<in>set bs. int (length b) \<le> 512 * 1024"
    by (auto simp: fifo_rep_def)
  obtain d where d: "os_dir w = Some d" "distinct (map fst d)" "list_all2 (entry_image w) (sort_key fst d) L"
    using images_of_rep [OF L(1) ord] by auto
  have sr: "segs_rep (q_heap q) w (segs q) (q_maxSegmentSize q) L"
    using L(1) by (simp add: queue_rep_def)
  have w: "os_faults w = []" "dir_ok w" "image_usage L \<le> q_maxSize q + 16" "q_maxSize q < 2 ^ 61"
    using L(1) seg_usage_image [OF sr] by (simp_all add: queue_rep_def)
  obtain p L' where pL: "L = p # L'" using queue_rep_nonempty [OF L(1)] by (cases L) auto
  then have all: "(if snd (hd L) = [] \<and> tl L \<noteq> [] then tl L else L) = L"
    using L(3) by (cases L') auto
  obtain st' where st': "Queue_Open (NewQueue dir (q_maxSize q), w) = (Inr (), st')"
    "queue_rep st' L" "same_config (NewQueue dir (q_maxSize q), w) st'"
    using Queue_Open_load [OF w(1,2) d queue_rep_nonempty [OF L(1)] w(3,4), of dir]
    unfolding all by blast
  then have "\<forall>b\<in>set bs. int (length b) \<le> 512 * 1024 \<and> int (length b) \<le> q_maxSegmentSize (fst st')"
    using L(4) by (force simp: same_config_def NewQueue_def defaultSegmentSize_def)
  then have "fifo_rep st' bs"
    unfolding fifo_rep_def using st'(2) L(2,3) by blast
  with st'(1) show ?thesis by blast
qed

section \<open>Purging\<close>

definition mtimes :: "segment list \<Rightarrow> os \<Rightarrow> nat list \<Rightarrow> int list \<Rightarrow> bool" where
  "mtimes H w rs ms \<longleftrightarrow>
     list_all2 (\<lambda>r m. map_option fmtime (lookup_file (sg_path (H ! r)) w) = Some m) rs ms"

text \<open>What a purge leaves: the segments from the first recent one on, or a new empty one.\<close>

definition purged :: "int \<Rightarrow> int list \<Rightarrow> (byte list list \<times> byte list list) list \<Rightarrow>
    (byte list list \<times> byte list list) list" where
  "purged cutoff ms L =
     (if list_all (\<lambda>m. m < cutoff) ms then [([], [])]
      else drop (length (takeWhile (\<lambda>m. m < cutoff) ms)) L)"

text \<open>The part of the invariant that a purge keeps: nothing is said about the tail.\<close>

definition head_rep :: "queue_state \<Rightarrow> (byte list list \<times> byte list list) list \<Rightarrow> bool" where
  "head_rep st L \<longleftrightarrow>
     os_faults (snd st) = [] \<and> dir_ok (snd st) \<and>
     q_head (fst st) = Some (hd (segs (fst st))) \<and>
     segs_rep (q_heap (fst st)) (snd st) (segs (fst st)) (q_maxSegmentSize (fst st)) L"

lemma lastModified_ok:
  assumes "segs_rep (q_heap q) w rs mx L" "r \<in> set rs" "os_faults w = []"
    "map_option fmtime (lookup_file (sg_path (q_heap q ! r)) w) = Some m"
  shows "on_seg r segment_lastModified (q, w) = (Inr m, q, w)"
  using segs_rep_open [OF assms(1,2)] assms(3,4)
  by (auto simp: on_seg_def segment_lastModified_def stat_file_def)

lemma purge_loop_recent:
  assumes "head_rep (q, w) L" "segs q = r # rs" "cutoff \<le> m"
    "map_option fmtime (lookup_file (sg_path (q_heap q ! r)) w) = Some m"
  shows "purge_loop cutoff (q, w) = Some (Inr (), q, w)"
proof -
  have "on_seg r segment_lastModified (q, w) = (Inr m, q, w)"
    using assms(1,2,4) by (intro lastModified_ok) (auto simp: head_rep_def)
  then show ?thesis
    using assms(1-3) by (subst purge_loop.simps) (simp add: head_rep_def)
qed

lemma purge_loop_old:
  assumes "head_rep (q, w) L" "segs q = r # rs" "m < cutoff"
    "map_option fmtime (lookup_file (sg_path (q_heap q ! r)) w) = Some m"
  shows "purge_loop cutoff (q, w) =
    (case (if rs = [] then seqE (addSegment (q, w)) (\<lambda>_ st. (Inr (), st)) else (Inr (), q, w)) of
       (Inl e, st) \<Rightarrow> Some (Inl e, st)
     | (Inr _, st) \<Rightarrow>
         (case trimHead st of
            (Inl e, st) \<Rightarrow> Some (Inl e, st) | (Inr _, st) \<Rightarrow> purge_loop cutoff st))"
proof -
  have "on_seg r segment_lastModified (q, w) = (Inr m, q, w)"
    using assms(1,2,4) by (intro lastModified_ok) (auto simp: head_rep_def)
  then show ?thesis
    using assms(1-3) by (subst purge_loop.simps) (simp add: head_rep_def)
qed

text \<open>A single old segment is replaced by a new one; the tail is left on the closed segment.\<close>

lemma purge_loop_single:
  assumes rep: "head_rep (q, w) [p]" and sg: "segs q = [r]"
    and mt: "map_option fmtime (lookup_file (sg_path (q_heap q ! r)) w) = Some m" "m < cutoff"
    and now: "cutoff \<le> os_clock w" and ids: "int (dir_max w) + 1 < 2 ^ 64"
  shows "\<exists>st'. purge_loop cutoff (q, w) = Some (Inr (), st') \<and> head_rep st' [([], [])] \<and>
    q_tail (fst st') = q_tail q \<and> sg_file (q_heap (fst st') ! r) = None \<and>
    same_config (q, w) st' \<and> DiskUsage (fst st') = 8"
proof -
  let ?n = "length (q_heap q)"
  have hr: "os_faults w = []" "dir_ok w" "q_head q = Some r"
    "segs_rep (q_heap q) w [r] (q_maxSegmentSize q) [p]"
    using rep sg by (auto simp: head_rep_def)
  have r: "r < ?n" using hr(4) by (simp add: segs_rep_def)
  obtain s w' where s: "addSegment (q, w) = (Inr ?n,
        q\<lparr>q_heap := q_heap q @ [s], q_segments := Some [r, ?n]\<rparr>, w')"
    "segs_rep (q_heap q @ [s]) w' [r, ?n] (q_maxSegmentSize q) [p, ([], [])]"
    "os_faults w' = []" "dir_ok w'" "sg_size s = 8" "sg_path s \<noteq> sg_path (q_heap q ! r)"
    "map_option fmtime (lookup_file (sg_path s) w') = Some (os_clock w)"
    using addSegment_ok [of q w "[p]"] hr sg ids by auto
  define q1 where "q1 = q\<lparr>q_heap := q_heap q @ [s], q_segments := Some [r, ?n]\<rparr>"
  let ?w2 = "drop_file (sg_path (q_heap q ! r)) w'"
  obtain s2 where t: "trimHead (q1, w') = (Inr (),
      q1\<lparr>q_segments := Some [?n], q_heap := (q_heap q1)[r := s2], q_head := Some ?n\<rparr>, ?w2)"
    "segs_rep ((q_heap q1)[r := s2]) ?w2 [?n] (q_maxSegmentSize q1) [([], [])]" "sg_file s2 = None"
    using trimHead_ok [of w' q1 r ?n "[]" "[p, ([], [])]" p "[([], [])]"] s r hr(3)
    by (auto simp: q1_def nth_append)
  define q2 where "q2 = q1\<lparr>q_segments := Some [?n], q_heap := (q_heap q1)[r := s2], q_head := Some ?n\<rparr>"
  have h2: "head_rep (q2, ?w2) [([], [])]"
    using t(2) s(3,4) by (simp add: head_rep_def q2_def q1_def)
  have new: "q_heap q2 ! ?n = s" "segs q2 = [?n]"
    using r by (simp_all add: q2_def q1_def nth_list_update)
  have "purge_loop cutoff (q2, ?w2) = Some (Inr (), q2, ?w2)"
    by (rule purge_loop_recent [OF h2, of ?n "[]" _ "os_clock w"])
      (use new now s(6,7) in \<open>simp_all add: lookup_drop_file\<close>)
  then have "purge_loop cutoff (q, w) = Some (Inr (), q2, ?w2)"
    using purge_loop_old [OF rep sg mt(2,1)] s(1) t(1) by (simp add: q1_def q2_def)
  moreover have "DiskUsage q2 = 8"
    using new s(5) by (simp add: DiskUsage_def diskUsage_def i64_id)
  ultimately show ?thesis
    using h2 t(3) r by (auto simp: q2_def q1_def same_config_def)
qed

lemma mtimes_frame:
  assumes "mtimes H w rs ms" "\<And>r. r \<in> set rs \<Longrightarrow> H' ! r = H ! r"
    "\<And>r. r \<in> set rs \<Longrightarrow> lookup_file (sg_path (H ! r)) w' = lookup_file (sg_path (H ! r)) w"
  shows "mtimes H' w' rs ms"
  using assms(1) unfolding mtimes_def by (rule list.rel_mono_strong) (simp add: assms(2,3))

lemma purge_loop_ok:
  assumes "mtimes (q_heap q) w (segs q) ms" "head_rep (q, w) L" "segs q \<noteq> []"
    "cutoff \<le> os_clock w" "int (dir_max w) + 1 < 2 ^ 64"
  shows "\<exists>st'. purge_loop cutoff (q, w) = Some (Inr (), st') \<and>
    head_rep st' (purged cutoff ms L) \<and> q_tail (fst st') = q_tail q"
  using assms
proof (induction ms arbitrary: q w L)
  case Nil
  then show ?case by (simp add: mtimes_def)
next
  case (Cons m ms)
  obtain r rs where sg: "segs q = r # rs" using Cons.prems(3) by (cases "segs q") auto
  have sr: "segs_rep (q_heap q) w (r # rs) (q_maxSegmentSize q) L" "os_faults w = []" "dir_ok w"
    "q_head q = Some r"
    using Cons.prems(2) sg by (auto simp: head_rep_def)
  have mt: "map_option fmtime (lookup_file (sg_path (q_heap q ! r)) w) = Some m"
    "mtimes (q_heap q) w rs ms"
    using Cons.prems(1) sg by (auto simp: mtimes_def)
  obtain p L' where L: "L = p # L'"
    using segs_rep_length [OF sr(1)] by (cases L) auto
  show ?case
  proof (cases "m < cutoff")
    case False
    then show ?thesis
      using purge_loop_recent [OF Cons.prems(2) sg _ mt(1)] Cons.prems(2) by (simp add: purged_def)
  next
    case old: True
    show ?thesis
    proof (cases rs)
      case Nil
      then have "L = [p]" "ms = []"
        using segs_rep_length [OF sr(1)] L mt(2) by (auto simp: mtimes_def)
      then show ?thesis
        using purge_loop_single [of q w p r m cutoff] Cons.prems sg Nil mt(1) old
        by (auto simp: purged_def)
    next
      case (Cons r2 rs')
      obtain s where t: "trimHead (q, w) = (Inr (),
          q\<lparr>q_segments := Some rs, q_heap := (q_heap q)[r := s], q_head := Some r2\<rparr>,
          drop_file (sg_path (q_heap q ! r)) w)"
        "segs_rep ((q_heap q)[r := s]) (drop_file (sg_path (q_heap q ! r)) w) rs (q_maxSegmentSize q) L'"
        using trimHead_ok [OF sr(2,3) _ sr(4) L] sr(1) sg Cons by auto
      define q1 where "q1 = q\<lparr>q_segments := Some rs, q_heap := (q_heap q)[r := s], q_head := Some r2\<rparr>"
      let ?w1 = "drop_file (sg_path (q_heap q ! r)) w"
      have other: "r \<notin> set rs" "sg_path (q_heap q ! r) \<notin> (\<lambda>x. sg_path (q_heap q ! x)) ` set rs"
        using sr(1) by (simp_all add: segs_rep_def)
      have "mtimes (q_heap q1) ?w1 rs ms"
        by (rule mtimes_frame [OF mt(2)])
          (use other in \<open>auto simp: q1_def image_iff intro!: lookup_drop_file nth_list_update_neq\<close>)
      moreover have "head_rep (q1, ?w1) L'"
        using t(2) sr(2,3) Cons by (simp add: head_rep_def q1_def)
      ultimately have "\<exists>st'. purge_loop cutoff (q1, ?w1) = Some (Inr (), st') \<and>
          head_rep st' (purged cutoff ms L') \<and> q_tail (fst st') = q_tail q1"
        using Cons.IH [of q1 ?w1 L'] Cons.prems(4,5) dir_max_drop [of "sg_path (q_heap q ! r)" w] Cons
        by (simp add: q1_def)
      moreover have "purged cutoff (m # ms) L = purged cutoff ms L'"
        using old L by (simp add: purged_def)
      ultimately show ?thesis
        using purge_loop_old [OF Cons.prems(2) sg old mt(1)] t(1) Cons by (simp add: q1_def)
    qed
  qed
qed

end
