(* ===== verification/Replayer.thy ===== *)
theory Replayer
  imports Handoff_Restart
begin

text \<open>
  \<open>internal/handoff/write_replayer.go\<close>: the replayer appends every batch of points, encoded, to
  the disk queue and sends the blocks of the queue to the node it stands for. The gob
  encoding of a batch (\<open>enc\<close>) and the TCP client (\<open>cl\<close>, with a state of its own) are
  parameters. Metrics are recorded in the order of the calls. The goroutine \<open>run\<close> is a
  transition system.
\<close>

section \<open>The struct and its methods\<close>

datatype replayer_metric =
    QueueErrors | DiskUsageBytes int | QueuedBytes nat
  | ReadErrors | ReplayErrors | ReplayedBytes nat

record replayer =
  wr_PurgeInterval :: int
  wr_RetryInterval :: int
  wr_RetryMaxInterval :: int
  wr_MaxSize :: int
  wr_MaxAge :: int
  wr_dir :: string
  wr_done :: bool
  wr_queue :: "queue option"
  wr_metrics :: "replayer_metric list"

type_synonym replayer_state = "replayer \<times> os"

definition GiB :: int where
  "GiB = 2 ^ 30"

text \<open>The defaults, in nanoseconds: an hour, 10 milliseconds, 10 seconds, 7 days.\<close>

definition NewWriteReplayer :: "string \<Rightarrow> replayer" where
  "NewWriteReplayer d =
     \<lparr>wr_PurgeInterval = 3600 * 10 ^ 9, wr_RetryInterval = 10 * 10 ^ 6,
      wr_RetryMaxInterval = 10 * 10 ^ 9, wr_MaxSize = 10 * GiB,
      wr_MaxAge = 7 * 24 * 3600 * 10 ^ 9, wr_dir = d, wr_done = False, wr_queue = None,
      wr_metrics = []\<rparr>"

definition WithWriteReplayerMaxQueueSize :: "int \<Rightarrow> replayer \<Rightarrow> replayer" where
  "WithWriteReplayerMaxQueueSize mx r = r\<lparr>wr_MaxSize := mx\<rparr>"

definition record_metrics :: "replayer_metric list \<Rightarrow> replayer \<Rightarrow> replayer" where
  "record_metrics ms r = r\<lparr>wr_metrics := wr_metrics r @ ms\<rparr>"

text \<open>A call of a method of the queue; on the nil queue it panics.\<close>

definition on_queue ::
    "(queue_state \<Rightarrow> (herr + 'a) \<times> queue_state) \<Rightarrow> replayer_state \<Rightarrow> (herr + 'a) \<times> replayer_state" where
  "on_queue f st =
     (case wr_queue (fst st) of
        None \<Rightarrow> (Inl PanicNil, st)
      | Some q \<Rightarrow> (case f (q, snd st) of (x, q', w') \<Rightarrow> (x, (fst st)\<lparr>wr_queue := Some q'\<rparr>, w')))"

definition WriteReplayer_Open :: "replayer_state \<Rightarrow> (herr + unit) \<times> replayer_state" where
  "WriteReplayer_Open st =
     (if wr_done (fst st) then (Inr (), st)
      else let r = (fst st)\<lparr>wr_done := True\<rparr>
           in (case mkdir_all (snd st) of
                 (Inl e, w) \<Rightarrow> (Inl e, r, w)
               | (Inr _, w) \<Rightarrow>
                   (case Queue_Open (NewQueue (wr_dir r) (wr_MaxSize r), w) of
                      (Inl e, _, w) \<Rightarrow> (Inl e, r, w)
                    | (Inr _, q, w) \<Rightarrow> (Inr (), r\<lparr>wr_queue := Some q\<rparr>, w))))"

definition WriteReplayer_close :: "replayer_state \<Rightarrow> (herr + unit) \<times> replayer_state" where
  "WriteReplayer_close st = on_queue Queue_Close st"

definition WriteReplayer_Write ::
    "('p \<Rightarrow> byte list option) \<Rightarrow> 'p \<Rightarrow> replayer_state \<Rightarrow> (herr + unit) \<times> replayer_state" where
  "WriteReplayer_Write enc points st =
     (if \<not> wr_done (fst st) then (Inl ReplayerClosed, st)
      else (case enc points of
              None \<Rightarrow> (Inl EncodeError, st)
            | Some payload \<Rightarrow>
                (case on_queue (Queue_Append payload) st of
                   (Inl PanicNil, st) \<Rightarrow> (Inl PanicNil, st)
                 | (Inl e, r, w) \<Rightarrow> (Inl e, record_metrics [QueueErrors] r, w)
                 | (Inr _, r, w) \<Rightarrow>
                     (Inr (), record_metrics
                        [DiskUsageBytes (case wr_queue r of None \<Rightarrow> 0 | Some q \<Rightarrow> DiskUsage q),
                         QueuedBytes (length payload)] r, w))))"

text \<open>\<open>SendWrite\<close>: one attempt to send the current block; on success the queue advances.\<close>

definition SendWrite ::
    "(byte list \<Rightarrow> 'c \<Rightarrow> (herr + nat) \<times> 'c) \<Rightarrow> replayer_state \<Rightarrow> 'c \<Rightarrow>
     (herr + nat) \<times> replayer_state \<times> 'c" where
  "SendWrite cl st c =
     (case on_queue Queue_Current st of
        (Inl EOF, st) \<Rightarrow> (Inl EOF, st, c)
      | (Inl PanicNil, st) \<Rightarrow> (Inl PanicNil, st, c)
      | (Inl PanicMakeSlice, st) \<Rightarrow> (Inl PanicMakeSlice, st, c)
      | (Inl e, r, w) \<Rightarrow> (Inl e, (record_metrics [ReadErrors] r, w), c)
      | (Inr payload, r, w) \<Rightarrow>
          (case cl payload c of
             (Inl e, c) \<Rightarrow> (Inl e, (record_metrics [ReplayErrors] r, w), c)
           | (Inr bytesWritten, c) \<Rightarrow>
               (case on_queue Queue_Advance (record_metrics [ReplayedBytes bytesWritten] r, w) of
                  (_, st) \<Rightarrow> (Inr (length payload), st, c))))"

section \<open>The goroutine\<close>

text \<open>
  Every turn of the loop of \<open>run\<close> starts both timers anew and takes the one that fires
  first, so a purge needs \<open>PurgeInterval \<le> currInterval\<close>. Durations are int64 nanoseconds.
\<close>

definition first_interval :: "replayer \<Rightarrow> int" where
  "first_interval r =
     (if wr_RetryInterval r > wr_RetryMaxInterval r then wr_RetryMaxInterval r
      else wr_RetryInterval r)"

definition next_interval :: "replayer \<Rightarrow> int \<Rightarrow> bool \<Rightarrow> int" where
  "next_interval r ci ok =
     (if ok then wr_RetryInterval r
      else let c = i64 (ci * 2) in if c > wr_RetryMaxInterval r then wr_RetryMaxInterval r else c)"

datatype run_event = Sent bool | Purged | Stopped

inductive run_step ::
    "(byte list \<Rightarrow> 'c \<Rightarrow> (herr + nat) \<times> 'c) \<Rightarrow> run_event \<Rightarrow>
     replayer_state \<times> 'c \<times> int \<Rightarrow> replayer_state \<times> 'c \<times> int \<Rightarrow> bool"
  for cl where
  send: "ci \<le> wr_PurgeInterval (fst st) \<Longrightarrow> SendWrite cl st c = (res, st', c') \<Longrightarrow>
     run_step cl (Sent (\<not> isl res)) (st, c, ci)
       (st', c', next_interval (fst st) ci (\<not> isl res))"
| purge: "wr_PurgeInterval (fst st) \<le> ci \<Longrightarrow> wr_queue (fst st) = Some q \<Longrightarrow>
     PurgeOlderThan (os_clock (snd st) - wr_MaxAge (fst st)) (q, snd st) = Some (res, q', w') \<Longrightarrow>
     run_step cl Purged (st, c, ci) (((fst st)\<lparr>wr_queue := Some q'\<rparr>, w'), c, ci)"
| stop: "WriteReplayer_close st = (res, st') \<Longrightarrow> run_step cl Stopped (st, c, ci) (st', c, ci)"

inductive run_trace ::
    "(byte list \<Rightarrow> 'c \<Rightarrow> (herr + nat) \<times> 'c) \<Rightarrow> replayer_state \<times> 'c \<times> int \<Rightarrow> run_event list \<Rightarrow>
     replayer_state \<times> 'c \<times> int \<Rightarrow> bool"
  for cl where
  start: "run_trace cl x [] x"
| more: "run_trace cl x es y \<Longrightarrow> Stopped \<notin> set es \<Longrightarrow> run_step cl e y z \<Longrightarrow> run_trace cl x (es @ [e]) z"

inductive_cases run_stepE: "run_step cl e (st, c, ci) y"

section \<open>Delivery\<close>

text \<open>The replayer is open and its queue holds the blocks \<open>bs\<close>.\<close>

definition replayer_rep :: "replayer_state \<Rightarrow> byte list list \<Rightarrow> bool" where
  "replayer_rep st bs \<longleftrightarrow>
     wr_done (fst st) \<and>
     (case wr_queue (fst st) of None \<Rightarrow> False | Some q \<Rightarrow> fifo_rep (q, snd st) bs)"

lemma replayer_repE:
  assumes "replayer_rep st bs"
  obtains r w q where "st = (r, w)" "wr_done r" "wr_queue r = Some q" "fifo_rep (q, w) bs"
  using assms by (cases st) (auto simp: replayer_rep_def split: option.splits)

lemma replayer_repI [intro]:
  "wr_done r \<Longrightarrow> wr_queue r = Some q \<Longrightarrow> fifo_rep (q, w) bs \<Longrightarrow> replayer_rep (r, w) bs"
  by (simp add: replayer_rep_def)

lemma record_metrics_fields [simp]:
  "wr_queue (record_metrics ms r) = wr_queue r"
  "wr_done (record_metrics ms r) = wr_done r"
  "wr_PurgeInterval (record_metrics ms r) = wr_PurgeInterval r"
  "wr_RetryInterval (record_metrics ms r) = wr_RetryInterval r"
  "wr_RetryMaxInterval (record_metrics ms r) = wr_RetryMaxInterval r"
  by (simp_all add: record_metrics_def)

lemma SendWrite_empty:
  assumes "replayer_rep st []"
  shows "SendWrite cl st c = (Inl EOF, st, c)"
  using assms
  by (elim replayer_repE) (simp add: SendWrite_def on_queue_def fifo_cur_empty)

lemma SendWrite_block:
  assumes rep: "replayer_rep st (b # bs)"
  shows "\<exists>st'. SendWrite cl st c =
      (case fst (cl b c) of Inl e \<Rightarrow> Inl e | Inr _ \<Rightarrow> Inr (length b), st', snd (cl b c))
    \<and> replayer_rep st' (if isl (fst (cl b c)) then b # bs else bs)"
proof -
  from rep obtain r w q where st: "st = (r, w)" "wr_done r" "wr_queue r = Some q"
    "fifo_rep (q, w) (b # bs)" by (rule replayer_repE)
  obtain q1 w1 where cur: "Queue_Current (q, w) = (Inr b, q1, w1)" "fifo_rep (q1, w1) (b # bs)"
    using fifo_cur [OF st(4)] by auto
  obtain q2 w2 where adv: "Queue_Advance (q1, w1) = (Inr (), q2, w2)" "fifo_rep (q2, w2) bs"
    using fifo_adv [OF cur(2)] by auto
  show ?thesis
    using st cur adv
    by (auto simp: SendWrite_def on_queue_def split: sum.splits prod.splits)
qed

lemma WriteReplayer_Write_ok:
  assumes "replayer_rep (r, w) bs" "wr_queue r = Some q" "enc pts = Some b" "queue_accepts (q, w) b"
  shows "\<exists>r' w'. WriteReplayer_Write enc pts (r, w) = (Inr (), r', w') \<and> replayer_rep (r', w') (bs @ [b])
    \<and> last (wr_metrics r') = QueuedBytes (length b)"
proof -
  have rep: "wr_done r" "fifo_rep (q, w) bs"
    using assms(1,2) by (auto simp: replayer_rep_def)
  obtain q' w' where "Queue_Append b (q, w) = (Inr (), q', w')" "fifo_rep (q', w') (bs @ [b])"
    using fifo_app [OF rep(2) assms(4)] by auto
  then show ?thesis
    using assms rep by (auto simp: WriteReplayer_Write_def on_queue_def record_metrics_def replayer_rep_def)
qed

text \<open>A number of calls of \<open>SendWrite\<close> in a row, whatever they return.\<close>

fun send_n ::
    "(byte list \<Rightarrow> 'c \<Rightarrow> (herr + nat) \<times> 'c) \<Rightarrow> nat \<Rightarrow> replayer_state \<Rightarrow> 'c \<Rightarrow> replayer_state \<times> 'c" where
  "send_n cl 0 st c = (st, c)"
| "send_n cl (Suc n) st c = (case SendWrite cl st c of (_, st', c') \<Rightarrow> send_n cl n st' c')"

text \<open>Any client, with the list of the blocks it has acknowledged.\<close>

definition logged ::
    "(byte list \<Rightarrow> 'c \<Rightarrow> (herr + nat) \<times> 'c) \<Rightarrow> byte list \<Rightarrow> 'c \<times> byte list list \<Rightarrow>
     (herr + nat) \<times> 'c \<times> byte list list" where
  "logged cl b c =
     (case cl b (fst c) of
        (Inl e, c') \<Rightarrow> (Inl e, c', snd c) | (Inr n, c') \<Rightarrow> (Inr n, c', snd c @ [b]))"

lemma send_n_acknowledged:
  assumes "replayer_rep st bs"
  shows "\<exists>rest. replayer_rep (fst (send_n (logged cl) n st (c, lg))) rest
    \<and> snd (snd (send_n (logged cl) n st (c, lg))) @ rest = lg @ bs"
  using assms
proof (induction n arbitrary: st bs c lg)
  case (Suc n)
  show ?case
  proof (cases bs)
    case Nil
    then show ?thesis
      using Suc.IH [of st "[]" c lg] Suc.prems by (simp add: SendWrite_empty)
  next
    case (Cons b bs')
    obtain st' where st': "SendWrite (logged cl) st (c, lg) =
        (case fst (logged cl b (c, lg)) of Inl e \<Rightarrow> Inl e | Inr _ \<Rightarrow> Inr (length b), st',
         snd (logged cl b (c, lg)))"
      "replayer_rep st' (if isl (fst (logged cl b (c, lg))) then b # bs' else bs')"
      using SendWrite_block [of st b bs' "logged cl" "(c, lg)"] Suc.prems Cons by auto
    show ?thesis
    proof (cases "cl b c")
      case (Pair res c')
      then have "logged cl b (c, lg) = (res, c', case res of Inl _ \<Rightarrow> lg | Inr _ \<Rightarrow> lg @ [b])"
        by (simp add: logged_def split: sum.splits)
      then show ?thesis
        using st' Suc.IH [of st' "b # bs'" c' lg] Suc.IH [of st' bs' c' "lg @ [b]"] Cons
        by (cases res) auto
    qed
  qed
qed auto

section \<open>The purge timer\<close>

lemma SendWrite_config:
  assumes "SendWrite cl st c = (res, st', c')"
  shows "wr_PurgeInterval (fst st') = wr_PurgeInterval (fst st)"
    "wr_RetryInterval (fst st') = wr_RetryInterval (fst st)"
    "wr_RetryMaxInterval (fst st') = wr_RetryMaxInterval (fst st)"
  using assms
  by (auto simp: SendWrite_def on_queue_def split: sum.splits prod.splits option.splits herr.splits)

text \<open>The retry interval stays below the larger of the two configured ones.\<close>

definition interval_inv :: "int \<Rightarrow> replayer_state \<times> 'c \<times> int \<Rightarrow> bool" where
  "interval_inv m x \<longleftrightarrow>
     snd (snd x) \<le> m \<and> wr_RetryInterval (fst (fst x)) \<le> m \<and>
     wr_RetryMaxInterval (fst (fst x)) \<le> m \<and> m < wr_PurgeInterval (fst (fst x))"

lemma interval_inv_step:
  assumes "run_step cl e x y" "interval_inv m x"
  shows "e \<noteq> Purged \<and> interval_inv m y"
  using assms
proof (cases rule: run_step.cases)
  case (send ci st c res st' c')
  then show ?thesis
    using assms(2) SendWrite_config [OF send(5)]
    by (auto simp: interval_inv_def next_interval_def Let_def)
next
  case (purge st ci q res q' w' c)
  then show ?thesis using assms(2) by (simp add: interval_inv_def)
next
  case (stop st res st' c ci)
  then show ?thesis
    using assms(2)
    by (auto simp: interval_inv_def WriteReplayer_close_def on_queue_def
        split: option.splits prod.splits)
qed

lemma interval_inv_trace:
  "run_trace cl x es y \<Longrightarrow> interval_inv m x \<Longrightarrow> Purged \<notin> set es \<and> interval_inv m y"
  by (induction rule: run_trace.induct) (auto dest: interval_inv_step)

end
