(* ===== verification/Handoff_Correct.thy ===== *)
theory Handoff_Correct
  imports Replayer
begin

text \<open>
  The properties of the hinted-handoff component: order and durability of the queue, its
  bounds and error paths, the purge, and the delivery by the replayer; and the cases in
  which the code does less than it means to. The example states at the start are the ones
  at which the properties are applied.
\<close>

section \<open>Example states\<close>

definition ex_os :: os where
  "ex_os = \<lparr>os_dir = Some [], os_clock = 10000000000, os_faults = []\<rparr>"

definition ex_queue :: queue_state where
  "ex_queue = snd (Queue_Open (NewQueue ''hh'' 1000, ex_os))"

definition ex_ops :: "qop list" where
  "ex_ops = [Put [1, 2], Put [3], Take, Put [4], Take]"

definition ex_replayer :: replayer_state where
  "ex_replayer = (\<lparr>wr_PurgeInterval = 3600, wr_RetryInterval = 1, wr_RetryMaxInterval = 10,
     wr_MaxSize = 1000, wr_MaxAge = 100, wr_dir = ''hh'', wr_done = True,
     wr_queue = Some (fst (snd (Queue_Append [3] (snd (Queue_Append [1, 2] ex_queue))))),
     wr_metrics = []\<rparr>, snd (snd (Queue_Append [3] (snd (Queue_Append [1, 2] ex_queue)))))"

text \<open>A client that fails on every other call.\<close>

definition ex_client :: "byte list \<Rightarrow> nat \<Rightarrow> (herr + nat) \<times> nat" where
  "ex_client b n = (if n mod 2 = 0 then Inl ClientError else Inr (length b), n + 1)"

lemma ex_queue_rep: "fifo_rep ex_queue []"
  using Queue_Open_empty [of ex_os 1000 "''hh''"] by (auto simp: ex_queue_def ex_os_def)

lemma ex_queue_rep2: "fifo_rep (snd (Queue_Append [3] (snd (Queue_Append [1, 2] ex_queue)))) [[1, 2], [3]]"
proof -
  have "queue_accepts ex_queue [1, 2]" "queue_accepts (snd (Queue_Append [1, 2] ex_queue)) [3]"
    by code_simp+
  then show ?thesis
    using fifo_app [OF ex_queue_rep, of "[1, 2]"] fifo_app [of _ "[[1, 2]]" "[3]"] by fastforce
qed

lemma ex_replayer_rep: "replayer_rep ex_replayer [[1, 2], [3]]"
  using ex_queue_rep2 by (simp add: replayer_rep_def ex_replayer_def)

section \<open>Order and durability\<close>

text \<open>
  C1: Under any interleaving of \<open>Append\<close> and of \<open>Current\<close>/\<open>Advance\<close> in which the appended
  blocks are within the limits (\<open>queue_accepts\<close>), the blocks read from the disk queue,
  followed by those still in it, are the blocks it held followed by the blocks appended:
  nothing is lost, repeated or reordered, across segment files and their removal.
\<close>

theorem queue_run_in_order:
  assumes "fifo_rep st bs"
    and "accepted queue_accepts Queue_Append Queue_Current Queue_Advance ops st"
  shows "\<exists>rest. fifo_rep (snd (run_ops Queue_Append Queue_Current Queue_Advance ops st)) rest
    \<and> fst (run_ops Queue_Append Queue_Current Queue_Advance ops st) @ rest = bs @ puts ops"
  using assms by (rule hq.run_in_order)

theorem queue_run_in_order_witness:
  "\<exists>rest. fifo_rep (snd (run_ops Queue_Append Queue_Current Queue_Advance ex_ops ex_queue)) rest
    \<and> fst (run_ops Queue_Append Queue_Current Queue_Advance ex_ops ex_queue) @ rest = [[1, 2], [3], [4]]"
proof -
  have "accepted queue_accepts Queue_Append Queue_Current Queue_Advance ex_ops ex_queue"
    by code_simp
  from queue_run_in_order [OF ex_queue_rep this] show ?thesis by (simp add: ex_ops_def)
qed



text \<open>A directory with one segment, file 9, that holds the block \<open>[1]\<close>.\<close>

definition nine :: os where
  "nine = \<lparr>os_dir = Some [(''9'', File \<lparr>fcontents = seg_image [] [[1]], fmtime = 1\<rparr>)],
     os_clock = 3, os_faults = []\<rparr>"

definition nine_then_ten :: queue_state where
  "nine_then_ten =
     snd (Queue_Append [2, 2] (snd (Queue_SetMaxSegmentSize 18
       (snd (Queue_Open (NewQueue ''hh'' 1000, nine))))))"


section \<open>Bounds and errors\<close>

text \<open>
  C19: A block that would bring the segment files above \<open>maxSize\<close> is refused with
  \<open>ErrQueueFull\<close> and nothing changes, and the files of a queue whose writes were accepted
  never take more than \<open>maxSize + 16\<close> bytes (the block's length header and a new
  segment's footer are not counted by the check).
\<close>

theorem queue_disk_bound:
  assumes "fifo_rep st bs"
    and "accepted queue_accepts Queue_Append Queue_Current Queue_Advance ops st"
    and "st' = snd (run_ops Queue_Append Queue_Current Queue_Advance ops st)"
    and "int (length b) < 2 ^ 62"
  shows "DiskUsage (fst st') \<le> q_maxSize (fst st') + 16
    \<and> (DiskUsage (fst st') + int (length b) > q_maxSize (fst st') \<longrightarrow>
        Queue_Append b st' = (Inl ErrQueueFull, st'))"
proof -
  obtain L where L: "queue_rep st' L"
    using hq.run_in_order [OF assms(1,2)] assms(3) by (auto simp: fifo_rep_def)
  have "DiskUsage (fst st') \<le> q_maxSize (fst st') + 16"
    using DiskUsage_usage [OF L] L by (simp add: queue_rep_def)
  then show ?thesis
    using Queue_Append_full [of "fst st'" "snd st'" L b] L assms(4) by simp
qed

theorem queue_disk_bound_witness:
  "Queue_Append (replicate 980 7) (snd (run_ops Queue_Append Queue_Current Queue_Advance ex_ops ex_queue)) =
     (Inl ErrQueueFull, snd (run_ops Queue_Append Queue_Current Queue_Advance ex_ops ex_queue))"
proof -
  let ?st = "snd (run_ops Queue_Append Queue_Current Queue_Advance ex_ops ex_queue)"
  have "accepted queue_accepts Queue_Append Queue_Current Queue_Advance ex_ops ex_queue"
    "DiskUsage (fst ?st) = 36" "q_maxSize (fst ?st) = 1000"
    by code_simp+
  then show ?thesis
    using queue_disk_bound [OF ex_queue_rep _ refl, of ex_ops "replicate 980 7"] by simp
qed

text \<open>
  C23: A head segment that is read to its end but is the only one stays the head. When the
  next block does not fit it, the block goes to a second segment and \<open>Append\<close> succeeds,
  but \<open>Current\<close> keeps returning \<open>io.EOF\<close> and changes nothing: the block is not delivered
  before the queue is opened again.
\<close>

theorem drained_head_hides_blocks:
  assumes "queue_rep (q, w) [(dn, [])]" and "b \<noteq> []"
    and "DiskUsage q + int (length b) \<le> q_maxSize q"
    and "sg_size (q_heap q ! last (segs q)) + int (length b) > q_maxSegmentSize q"
    and "int (length b) + 8 \<le> q_maxSegmentSize q" and "int (dir_max w) + 1 < 2 ^ 64"
  shows "\<exists>st'. Queue_Append b (q, w) = (Inr (), st') \<and> queue_rep st' [(dn, []), ([], [b])]
    \<and> Queue_Current st' = (Inl EOF, st')"
proof -
  obtain q' w' where "Queue_Append b (q, w) = (Inr (), q', w')"
    "queue_rep (q', w') [(dn, []), ([], [b])]"
    using Queue_Append_new [OF assms(1-3) _ assms(5,6)] assms(4) by auto
  then show ?thesis using Queue_Current_eof by blast
qed

text \<open>The queue of the example after one block was written and read, with small segments.\<close>

definition ex_drained :: queue_state where
  "ex_drained = snd (Queue_Advance (snd (Queue_Append [1, 2] (snd (Queue_SetMaxSegmentSize 20 ex_queue)))))"

lemma ex_drained_rep: "queue_rep ex_drained [([[1, 2]], [])]"
proof -
  have "segs_rep (q_heap (fst ex_drained)) (snd ex_drained) (segs (fst ex_drained)) 20 [([[1, 2]], [])]"
    by code_simp
  moreover have "os_faults (snd ex_drained) = [] \<and> dir_ok (snd ex_drained) \<and> segs (fst ex_drained) = [0] \<and>
     q_head (fst ex_drained) = Some 0 \<and> q_tail (fst ex_drained) = Some 0 \<and>
     q_maxSegmentSize (fst ex_drained) = 20 \<and> q_maxSize (fst ex_drained) = 1000 \<and>
     seg_usage (q_heap (fst ex_drained)) [0] = 18"
    by code_simp
  ultimately show ?thesis by (simp add: queue_rep_def)
qed

theorem drained_head_hides_blocks_witness:
  "\<exists>st'. Queue_Append [3, 4, 5] ex_drained = (Inr (), st') \<and> Queue_Current st' = (Inl EOF, st')"
proof -
  have "DiskUsage (fst ex_drained) = 18 \<and> q_maxSize (fst ex_drained) = 1000 \<and> dir_max (snd ex_drained) = 1 \<and>
     sg_size (q_heap (fst ex_drained) ! last (segs (fst ex_drained))) = 18 \<and>
     q_maxSegmentSize (fst ex_drained) = 20"
    by code_simp
  then show ?thesis
    using drained_head_hides_blocks [of "fst ex_drained" "snd ex_drained" "[[1, 2]]" "[3, 4, 5]"]
      ex_drained_rep by auto
qed


lemma ex_queue_rep1: "queue_rep ex_queue [([], [])]"
proof -
  have "segs_rep (q_heap (fst ex_queue)) (snd ex_queue) (segs (fst ex_queue)) defaultSegmentSize [([], [])]"
    by code_simp
  moreover have "os_faults (snd ex_queue) = [] \<and> dir_ok (snd ex_queue) \<and> segs (fst ex_queue) = [0] \<and>
     q_head (fst ex_queue) = Some 0 \<and> q_tail (fst ex_queue) = Some 0 \<and>
     q_maxSegmentSize (fst ex_queue) = defaultSegmentSize \<and> q_maxSize (fst ex_queue) = 1000 \<and>
     seg_usage (q_heap (fst ex_queue)) [0] = 8"
    by code_simp
  ultimately show ?thesis by (simp add: queue_rep_def)
qed

lemma ex_queue_facts:
  "DiskUsage (fst ex_queue) = 8" "q_maxSize (fst ex_queue) = 1000" "dir_max (snd ex_queue) = 1"
  "sg_size (q_heap (fst ex_queue) ! last (segs (fst ex_queue))) = 8"
  "q_maxSegmentSize (fst ex_queue) = 10485760" "os_faults (snd ex_queue) = []"
  "os_clock (snd ex_queue) = 10000000000"
  by code_simp+


section \<open>Purging\<close>

text \<open>
  C18: \<open>PurgeOlderThan\<close>, called with a time that is not in the future, returns, and leaves
  the segments from the first one modified since the cutoff on, with all their blocks;
  when all are older, a new empty segment.
\<close>

theorem purge_drops_old_segments:
  assumes "queue_rep (q, w) L" and "mtimes (q_heap q) w (segs q) ms"
    and "when \<le> os_clock w" and "int (dir_max w) + 1 < 2 ^ 64"
  shows "\<exists>st'. PurgeOlderThan when (q, w) = Some (Inr (), st')
    \<and> head_rep st' (purged (when - when mod 1000000000) ms L)"
proof -
  have "head_rep (q, w) L" "segs q \<noteq> []" "when - when mod 1000000000 \<le> os_clock w"
    using assms(1,3) pos_mod_sign [of 1000000000 "when"] by (auto simp: queue_rep_def head_rep_def)
  then show ?thesis
    using purge_loop_ok [OF assms(2) _ _ _ assms(4)] by (fastforce simp: PurgeOlderThan_def)
qed

definition ex_later :: queue_state where
  "ex_later = (fst ex_queue, (snd ex_queue)\<lparr>os_clock := 90000000000\<rparr>)"

lemma ex_later_rep: "queue_rep ex_later [([], [])]"
  using ex_queue_rep1
  by (simp add: queue_rep_def ex_later_def dir_ok_def segs_rep_def seg_rep_def lookup_file_def)

lemma ex_later_facts:
  "mtimes (q_heap (fst ex_later)) (snd ex_later) (segs (fst ex_later)) [10000000000]"
  "dir_max (snd ex_later) = 1" "os_clock (snd ex_later) = 90000000000"
  "q_maxSize (fst ex_later) = 1000" "length (segs (fst ex_later)) = 1"
  by code_simp+

theorem purge_drops_old_segments_witness:
  "\<exists>st'. PurgeOlderThan 60000000001 ex_later = Some (Inr (), st') \<and> head_rep st' [([], [])]"
  using purge_drops_old_segments [of "fst ex_later" "snd ex_later" "[([], [])]" "[10000000000]" 60000000001]
    ex_later_rep ex_later_facts by (simp add: purged_def)

text \<open>
  C22: A purge of a queue with one, old, segment leaves \<open>tail\<close> on the segment it closed and
  removed. The next \<open>Append\<close> is refused there (\<open>ErrNotOpen\<close>), returns nil all the same,
  and the block is nowhere: the state is the one before the call.
\<close>

theorem purge_loses_writes:
  assumes "queue_rep (q, w) [p]" and "mtimes (q_heap q) w (segs q) [m]"
    and "m < when - when mod 1000000000" and "when \<le> os_clock w" and "int (dir_max w) + 1 < 2 ^ 64"
    and "8 + int (length b) \<le> q_maxSize q"
  shows "\<exists>st'. PurgeOlderThan when (q, w) = Some (Inr (), st') \<and> head_rep st' [([], [])]
    \<and> Queue_Append b st' = (Inr (), st')"
proof -
  have sr: "segs_rep (q_heap q) w (segs q) (q_maxSegmentSize q) [p]" "q_maxSize q < 2 ^ 61"
    using assms(1) by (simp_all add: queue_rep_def)
  then obtain r where sg: "segs q = [r]"
    using segs_rep_length [OF sr(1)] by (cases "segs q") auto
  have "head_rep (q, w) [p]" "q_tail q = Some r" "when - when mod 1000000000 \<le> os_clock w"
    using assms(1,4) sg pos_mod_sign [of 1000000000 "when"] by (auto simp: queue_rep_def head_rep_def)
  then obtain st' where st': "purge_loop (when - when mod 1000000000) (q, w) = Some (Inr (), st')"
    "head_rep st' [([], [])]" "q_tail (fst st') = Some r" "sg_file (q_heap (fst st') ! r) = None"
    "same_config (q, w) st'" "DiskUsage (fst st') = 8"
    using purge_loop_single [of q w p r m "when - when mod 1000000000"] sg assms(2-5)
    by (auto simp: mtimes_def)
  have "i64 (8 + int (length b)) = 8 + int (length b)"
    using assms(6) sr(2) by (intro i64_id) auto
  then have "Queue_Append b st' = (Inr (), st')"
    using st'(3-6) assms(6)
    by (cases st') (simp add: Queue_Append_def on_seg_def segment_append_def same_config_def)
  then show ?thesis
    using st'(1,2) sg by (auto simp: PurgeOlderThan_def)
qed

theorem purge_loses_writes_witness:
  "\<exists>st'. PurgeOlderThan 60000000001 ex_later = Some (Inr (), st') \<and> head_rep st' [([], [])]
    \<and> Queue_Append [1, 2, 3] st' = (Inr (), st')"
  using purge_loses_writes [of "fst ex_later" "snd ex_later" "([], [])" 10000000000 60000000001 "[1, 2, 3]"]
    ex_later_rep ex_later_facts by simp

section \<open>The replayer\<close>

text \<open>
  C3: However the node's client answers, after any number of calls of \<open>SendWrite\<close> the
  blocks the client acknowledged, followed by those still queued, are the blocks that were
  queued: a failed send keeps its block at the head, and a successful one removes it.
\<close>

theorem replay_acknowledged_in_order:
  assumes "replayer_rep st bs"
  shows "\<exists>rest. replayer_rep (fst (send_n (logged cl) n st (c, []))) rest
    \<and> snd (snd (send_n (logged cl) n st (c, []))) @ rest = bs"
  using send_n_acknowledged [OF assms, of cl n c "[]"] by simp

theorem replay_acknowledged_in_order_witness:
  "snd (snd (send_n (logged ex_client) 3 ex_replayer (0, []))) = [[1, 2]]
   \<and> (\<exists>rest. replayer_rep (fst (send_n (logged ex_client) 3 ex_replayer (0, []))) rest \<and> rest = [[3]])"
proof -
  have "snd (snd (send_n (logged ex_client) 3 ex_replayer (0, []))) = [[1, 2]]"
    by code_simp
  then show ?thesis
    using replay_acknowledged_in_order [OF ex_replayer_rep, of ex_client 3 0] by auto
qed



text \<open>
  C21: A purge never happens: every turn of \<open>run\<close> starts the purge timer anew next to the
  retry timer, and the retry interval never exceeds the configured ones, so with both
  below \<open>PurgeInterval\<close>, as in the defaults, no run of the goroutine purges.
\<close>

theorem replayer_never_purges:
  assumes "run_trace cl (st, c, first_interval (fst st)) es y"
    and "wr_RetryInterval (fst st) < wr_PurgeInterval (fst st)"
    and "wr_RetryMaxInterval (fst st) < wr_PurgeInterval (fst st)"
  shows "Purged \<notin> set es"
proof -
  have "interval_inv (max (wr_RetryInterval (fst st)) (wr_RetryMaxInterval (fst st)))
      (st, c, first_interval (fst st))"
    using assms(2,3) by (auto simp: interval_inv_def first_interval_def)
  from interval_inv_trace [OF assms(1) this] show ?thesis by simp
qed

theorem replayer_never_purges_witness:
  "\<exists>y. run_trace ex_client (ex_replayer, 0, first_interval (fst ex_replayer)) [Sent False] y
     \<and> Purged \<notin> set [Sent False]"
proof -
  let ?x = "(ex_replayer, 0, first_interval (fst ex_replayer))"
  obtain res st' c' where s: "SendWrite ex_client ex_replayer 0 = (res, st', c')"
    by (metis prod_cases3)
  moreover have "isl (fst (SendWrite ex_client ex_replayer 0))"
    by code_simp
  ultimately have "isl res" by simp
  have "first_interval (fst ex_replayer) \<le> wr_PurgeInterval (fst ex_replayer)"
    by (simp add: first_interval_def ex_replayer_def)
  from run_step.send [OF this s] \<open>isl res\<close>
  have "\<exists>y. run_trace ex_client ?x [Sent False] y"
    using run_trace.more [OF run_trace.start] by fastforce
  then obtain y where t: "run_trace ex_client ?x [Sent False] y" ..
  have "Purged \<notin> set [Sent False]"
    by (rule replayer_never_purges [OF t]) (simp_all add: ex_replayer_def)
  with t show ?thesis by blast
qed

text \<open>
  C26: \<open>Open\<close> marks the replayer open before it opens the queue. When that fails, a second
  \<open>Open\<close> reports success without doing anything, and \<open>Write\<close> dereferences the nil queue.
\<close>

theorem failed_open_leaves_nil_queue:
  assumes "wr_queue r = None" and "WriteReplayer_Open (r, w) = (Inl e, st')" and "enc pts = Some b"
  shows "WriteReplayer_Open st' = (Inr (), st') \<and> WriteReplayer_Write enc pts st' = (Inl PanicNil, st')"
proof -
  have "wr_done (fst st')" "wr_queue (fst st') = None"
    using assms(1,2)
    by (auto simp: WriteReplayer_Open_def Let_def split: if_splits sum.splits prod.splits)
  then show ?thesis
    using assms(3) by (simp add: WriteReplayer_Open_def WriteReplayer_Write_def on_queue_def)
qed

theorem failed_open_leaves_nil_queue_witness:
  "WriteReplayer_Write (\<lambda>pts. Some pts) [1]
     ((NewWriteReplayer ''hh'')\<lparr>wr_done := True\<rparr>, ex_os) =
   (Inl PanicNil, (NewWriteReplayer ''hh'')\<lparr>wr_done := True\<rparr>, ex_os)"
proof -
  have "WriteReplayer_Open (NewWriteReplayer ''hh'', ex_os\<lparr>os_faults := [Some 0]\<rparr>) =
      (Inl IOError, (NewWriteReplayer ''hh'')\<lparr>wr_done := True\<rparr>, ex_os)"
    by (simp add: WriteReplayer_Open_def NewWriteReplayer_def mkdir_all_def pop_fault_def ex_os_def)
  from failed_open_leaves_nil_queue [OF _ this, of "\<lambda>pts. Some pts" "[1]" "[1]"]
  show ?thesis by (simp add: NewWriteReplayer_def)
qed

end
