(* ===== verification/Batching.thy ===== *)
theory Batching
  imports Handoff_Correct Points "HOL-Library.Sublist"
begin

text \<open>
  How points leave a node: the batcher (\<open>internal/batch/batcher.go\<close>) collects the points it
  polls from a ring buffer and hands batches to a writer through a channel, and the writer of
  a remote node (\<open>createWriter\<close> of \<open>internal/storage/remote_appender.go\<close>) sends a batch over the
  connection or gives it to the write replayer. The ring buffer (a diode) is seen through
  what a poll returns; the gob encoding and the TCP client are parameters.
\<close>

section \<open>The batcher\<close>

definition CHANNEL_SIZE :: nat where
  "CHANNEL_SIZE = 512"

text \<open>\<open>ba_output\<close> is the channel and \<open>ba_written\<close> what the writer has been called with.\<close>

record batcher =
  ba_maxSizeInBytes :: nat
  ba_size :: nat
  ba_points :: "point list"
  ba_output :: "point list list"
  ba_written :: "point list list"
  ba_dropped :: nat
  ba_stopped :: bool

definition NewBatcher :: "nat \<Rightarrow> batcher" where
  "NewBatcher maxSizeInBytes =
     \<lparr>ba_maxSizeInBytes = maxSizeInBytes, ba_size = 0, ba_points = [], ba_output = [], ba_written = [],
      ba_dropped = 0, ba_stopped = False\<rparr>"

definition estimatePointSize :: "point \<Rightarrow> nat" where
  "estimatePointSize p =
     foldl (\<lambda>size kv. size + (length (fst kv) + length (snd kv))) (0 + length (p_Name p) + 16) (p_Labels p)"

text \<open>A full channel drops the batch; either way the next batch starts empty.\<close>

definition writeToChannelOrDiscard :: "batcher \<Rightarrow> batcher" where
  "writeToChannelOrDiscard b =
     (if length (ba_output b) < CHANNEL_SIZE
      then b\<lparr>ba_output := ba_output b @ [ba_points b], ba_points := []\<rparr>
      else b\<lparr>ba_dropped := ba_dropped b + length (ba_points b), ba_points := []\<rparr>)"

text \<open>What the \<open>select\<close> of a turn of the loop takes: the done channel, the timer, or neither.\<close>

datatype choice = ChooseDone | ChooseTimer | ChooseDefault

definition poll :: "point option \<Rightarrow> batcher \<Rightarrow> batcher" where
  "poll data b =
     (case data of
        None \<Rightarrow> b
      | Some p \<Rightarrow> b\<lparr>ba_size := ba_size b + estimatePointSize p, ba_points := ba_points b @ [p]\<rparr>)"

fun select_turn :: "choice \<Rightarrow> batcher \<Rightarrow> batcher" where
  "select_turn ChooseDone b = (writeToChannelOrDiscard b)\<lparr>ba_stopped := True\<rparr>"
| "select_turn ChooseTimer b = (if length (ba_points b) > 0 then writeToChannelOrDiscard b else b)\<lparr>ba_size := 0\<rparr>"
| "select_turn ChooseDefault b =
     (if ba_size b \<ge> ba_maxSizeInBytes b then (writeToChannelOrDiscard b)\<lparr>ba_size := 0\<rparr> else b)"

text \<open>
  The two goroutines: a turn of the loop of \<open>Start\<close>, and \<open>pointWriter\<close> taking a batch from the
  channel.
\<close>

datatype batch_event = Turn "point option" choice | Take

inductive batch_step :: "batcher \<Rightarrow> batch_event \<Rightarrow> batcher \<Rightarrow> bool" where
  turn: "\<not> ba_stopped b \<Longrightarrow> batch_step b (Turn data c) (select_turn c (poll data b))"
| take: "ba_output b = ps # rest \<Longrightarrow>
    batch_step b Take (b\<lparr>ba_output := rest, ba_written := ba_written b @ [ps]\<rparr>)"

inductive_cases batch_step_cases: "batch_step b e b'"

inductive batch_run :: "batcher \<Rightarrow> batch_event list \<Rightarrow> batcher \<Rightarrow> bool" where
  start: "batch_run b [] b"
| step: "batch_run b es b1 \<Longrightarrow> batch_step b1 e b2 \<Longrightarrow> batch_run b (es @ [e]) b2"

section \<open>The writer of a remote node\<close>

text \<open>
  The encoding has no state; an error of the replayer is logged and the batch is lost.
  \<open>Some True\<close> is a batch the client took, \<open>Some False\<close> one the replayer took.
\<close>

record 'c remoteWriter =
  rw_replayer :: replayer_state
  rw_client :: 'c
  rw_distributed :: nat

definition remote_writer ::
    "(point list \<Rightarrow> byte list option) \<Rightarrow> (byte list \<Rightarrow> 'c \<Rightarrow> (herr + nat) \<times> 'c) \<Rightarrow> point list \<Rightarrow> 'c remoteWriter \<Rightarrow>
     bool option \<times> 'c remoteWriter" where
  "remote_writer enc client points a =
     (case enc points of
        None \<Rightarrow> (None, a)
      | Some payload \<Rightarrow>
          (case client payload (rw_client a) of
             (Inl e, c) \<Rightarrow>
               (case WriteReplayer_Write enc points (rw_replayer a) of
                  (Inl e, r) \<Rightarrow> (None, a\<lparr>rw_client := c, rw_replayer := r\<rparr>)
                | (Inr _, r) \<Rightarrow> (Some False, a\<lparr>rw_client := c, rw_replayer := r\<rparr>))
           | (Inr bytesWritten, c) \<Rightarrow>
               (Some True, a\<lparr>rw_client := c, rw_distributed := rw_distributed a + length points\<rparr>)))"

section \<open>Batches\<close>

text \<open>The points a run polled, and where they are.\<close>

definition polled :: "batch_event list \<Rightarrow> point list" where
  "polled es = concat (map (\<lambda>e. case e of Turn (Some p) _ \<Rightarrow> [p] | _ \<Rightarrow> []) es)"

definition held :: "batcher \<Rightarrow> point list" where
  "held b = concat (ba_written b) @ concat (ba_output b) @ ba_points b"

definition batch_size :: "point list \<Rightarrow> nat" where
  "batch_size ps = sum_list (map estimatePointSize ps)"

text \<open>A batch without its last point is below the limit.\<close>

definition batch_ok :: "nat \<Rightarrow> point list \<Rightarrow> bool" where
  "batch_ok mx ps \<longleftrightarrow> batch_size (butlast ps) < mx"

definition batcher_inv :: "nat \<Rightarrow> point list \<Rightarrow> batcher \<Rightarrow> bool" where
  "batcher_inv mx ps b \<longleftrightarrow>
     ba_maxSizeInBytes b = mx \<and> subseq (held b) ps \<and> length ps = length (held b) + ba_dropped b \<and>
     length (ba_output b) \<le> CHANNEL_SIZE \<and> list_all (batch_ok mx) (ba_written b @ ba_output b) \<and>
     (if ba_stopped b then ba_points b = [] else ba_size b = batch_size (ba_points b) \<and> ba_size b < mx)"

lemma batch_size_snoc: "batch_size (ps @ [p]) = batch_size ps + estimatePointSize p"
  by (simp add: batch_size_def)

lemma subseq_drop_middle: "subseq (xs @ ys) zs \<Longrightarrow> subseq xs zs"
  by (metis subseq_order.order_trans subseq_rev_drop_many subseq_order.refl append_Nil2 list_emb_append2 subseq_append_iff prefix_imp_subseq prefixI)

text \<open>After the poll, before the choice: at most the last point makes the batch too large.\<close>

definition polled_inv :: "nat \<Rightarrow> point list \<Rightarrow> batcher \<Rightarrow> bool" where
  "polled_inv mx ps b \<longleftrightarrow>
     ba_maxSizeInBytes b = mx \<and> subseq (held b) ps \<and> length ps = length (held b) + ba_dropped b \<and>
     length (ba_output b) \<le> CHANNEL_SIZE \<and> list_all (batch_ok mx) (ba_written b @ ba_output b @ [ba_points b]) \<and>
     ba_size b = batch_size (ba_points b) \<and> \<not> ba_stopped b"

lemma poll_inv:
  assumes "batcher_inv mx ps b" "\<not> ba_stopped b"
  shows "polled_inv mx (ps @ (case data of None \<Rightarrow> [] | Some p \<Rightarrow> [p])) (poll data b)"
proof (cases data)
  case None
  have "batch_size (butlast (ba_points b)) \<le> batch_size (ba_points b)"
    by (cases "ba_points b" rule: rev_cases) (simp_all add: batch_size_snoc)
  then show ?thesis
    using assms None by (auto simp: batcher_inv_def polled_inv_def poll_def batch_ok_def)
next
  case (Some p)
  have "held (poll data b) = held b @ [p]" by (simp add: Some poll_def held_def)
  moreover have "subseq (held b @ [p]) (ps @ [p])"
    using assms by (simp add: batcher_inv_def)
  ultimately show ?thesis
    using assms Some by (auto simp: batcher_inv_def polled_inv_def poll_def batch_ok_def batch_size_snoc)
qed

lemma discard_inv:
  assumes "polled_inv mx ps b"
  shows "let b' = writeToChannelOrDiscard b in
    ba_maxSizeInBytes b' = mx \<and> subseq (held b') ps \<and> length ps = length (held b') + ba_dropped b' \<and>
    length (ba_output b') \<le> CHANNEL_SIZE \<and> list_all (batch_ok mx) (ba_written b' @ ba_output b') \<and> ba_points b' = []
    \<and> ba_stopped b' = ba_stopped b"
proof (cases "length (ba_output b) < CHANNEL_SIZE")
  case True
  then show ?thesis
    using assms by (auto simp: polled_inv_def writeToChannelOrDiscard_def held_def)
next
  case False
  have "held b = (concat (ba_written b) @ concat (ba_output b)) @ ba_points b" by (simp add: held_def)
  then have "subseq (concat (ba_written b) @ concat (ba_output b)) ps"
    using assms subseq_drop_middle unfolding polled_inv_def by metis
  then show ?thesis
    using assms False by (auto simp: polled_inv_def writeToChannelOrDiscard_def held_def)
qed

lemma select_inv:
  assumes mx: "0 < mx" and p: "polled_inv mx ps b"
  shows "batcher_inv mx ps (select_turn c b)"
proof -
  note d = discard_inv [OF p, unfolded Let_def]
  have h: "held (x\<lparr>ba_size := n\<rparr>) = held x" "held (x\<lparr>ba_stopped := s\<rparr>) = held x" for x :: batcher and n s
    by (simp_all add: held_def)
  show ?thesis
  proof (cases c)
    case ChooseDone
    then show ?thesis using d by (simp add: batcher_inv_def h)
  next
    case ChooseTimer
    then show ?thesis
      using d p mx by (auto simp: batcher_inv_def polled_inv_def h batch_size_def)
  next
    case ChooseDefault
    then show ?thesis
      using d p mx by (auto simp: batcher_inv_def polled_inv_def h batch_size_def)
  qed
qed

lemma batch_step_inv:
  assumes mx: "0 < mx" and inv: "batcher_inv mx ps b" and s: "batch_step b e b'"
  shows "batcher_inv mx (ps @ polled [e]) b'"
  using s
proof cases
  case (turn data c)
  have "polled [e] = (case data of None \<Rightarrow> [] | Some p \<Rightarrow> [p])"
    using turn by (cases data) (simp_all add: polled_def)
  then show ?thesis
    using select_inv [OF mx poll_inv [OF inv turn(3)]] turn(2) by simp
next
  case (take ps' rest)
  then have "held b' = held b" by (simp add: held_def)
  then show ?thesis using inv take by (auto simp: batcher_inv_def polled_def)
qed


definition tiny :: "string \<Rightarrow> point" where
  "tiny n = \<lparr>p_Name = n, p_Timestamp = 1, p_Value = Fin 0, p_Labels = [(''k'', ''v'')]\<rparr>"


section \<open>Batches for a remote node\<close>

definition remote_writes ::
    "(point list \<Rightarrow> byte list option) \<Rightarrow> (byte list \<Rightarrow> 'c \<Rightarrow> (herr + nat) \<times> 'c) \<Rightarrow> point list list \<Rightarrow> 'c remoteWriter \<Rightarrow> 'c remoteWriter" where
  "remote_writes enc client pss a = foldl (\<lambda>a ps. snd (remote_writer enc client ps a)) a pss"

text \<open>Every batch can be encoded, and the disk queue takes those the client fails to send.\<close>

fun writes_accepted ::
    "(point list \<Rightarrow> byte list option) \<Rightarrow> (byte list \<Rightarrow> 'c \<Rightarrow> (herr + nat) \<times> 'c) \<Rightarrow> point list list \<Rightarrow> 'c remoteWriter \<Rightarrow> bool" where
  "writes_accepted enc client [] a = True"
| "writes_accepted enc client (ps # pss) a =
     (case enc ps of
        None \<Rightarrow> False
      | Some b \<Rightarrow>
          (isl (fst (client b (rw_client a))) \<longrightarrow>
             (case wr_queue (fst (rw_replayer a)) of
                None \<Rightarrow> False | Some q \<Rightarrow> queue_accepts (q, snd (rw_replayer a)) b)) \<and>
          writes_accepted enc client pss (snd (remote_writer enc client ps a)))"

lemma remote_writer_step:
  assumes rep: "replayer_rep (rw_replayer a) bs" and c: "rw_client a = (c, lg)" and b: "enc ps = Some b"
    and acc: "isl (fst (logged cl b (c, lg))) \<longrightarrow>
      (case wr_queue (fst (rw_replayer a)) of None \<Rightarrow> False | Some q \<Rightarrow> queue_accepts (q, snd (rw_replayer a)) b)"
  shows "\<exists>c'. let a' = snd (remote_writer enc (logged cl) ps a) in
    (replayer_rep (rw_replayer a') bs \<and> rw_client a' = (c', lg @ [b])) \<or>
    (replayer_rep (rw_replayer a') (bs @ [b]) \<and> rw_client a' = (c', lg))"
proof -
  obtain res c' where cl: "cl b c = (res, c')" by fastforce
  show ?thesis
  proof (cases res)
    case (Inr n)
    then show ?thesis using b c cl rep by (simp add: remote_writer_def logged_def)
  next
    case (Inl e)
    obtain r w q where st: "rw_replayer a = (r, w)" "wr_queue r = Some q" using rep by (auto elim: replayer_repE)
    then have "queue_accepts (q, w) b" using acc Inl cl by (simp add: logged_def)
    then obtain r' w' where "WriteReplayer_Write enc ps (r, w) = (Inr (), r', w')" "replayer_rep (r', w') (bs @ [b])"
      using WriteReplayer_Write_ok [where enc = enc and pts = ps, OF rep [unfolded st(1)] st(2) b] by blast
    then show ?thesis using b c cl Inl st by (simp add: remote_writer_def logged_def)
  qed
qed


text \<open>A toy encoding: the number of points and a mark.\<close>

definition ex_enc :: "point list \<Rightarrow> byte list option" where
  "ex_enc ps = Some [word_of_nat (length ps), 7]"

definition ex_writer :: "(nat \<times> byte list list) remoteWriter" where
  "ex_writer = \<lparr>rw_replayer = ex_replayer, rw_client = (0, []), rw_distributed = 0\<rparr>"


end
