(* ===== verification/Rollups.thy ===== *)
theory Rollups
  imports Points
begin

text \<open>
  Rollups of timers (\<open>internal/nozzle/rollup\<close>): timers are counted and their durations observed
  per source and per values of the configured tags, and once per interval the totals of the
  combinations seen in the interval become points. A combination is kept as one CSV record, so
  the reader and the writer of \<open>encoding/csv\<close> are modelled here; a histogram of Prometheus is a
  parameter.
\<close>

section \<open>CSV\<close>

abbreviation QUOTE :: char where "QUOTE \<equiv> CHR 0x22"
abbreviation COMMA :: char where "COMMA \<equiv> CHR 0x2C"
abbreviation CR :: char where "CR \<equiv> CHR 0x0D"
abbreviation LF :: char where "LF \<equiv> CHR 0x0A"

text \<open>Whether the first rune, in UTF-8, is a space for \<open>unicode.IsSpace\<close>.\<close>

definition space_prefixes :: "string list" where
  "space_prefixes =
     [[CHR 0x09], [CHR 0x0A], [CHR 0x0B], [CHR 0x0C], [CHR 0x0D], [CHR 0x20], [CHR 0xC2, CHR 0x85], [CHR 0xC2, CHR 0xA0],
      [CHR 0xE1, CHR 0x9A, CHR 0x80]] @
     map (\<lambda>n. [CHR 0xE2, CHR 0x80, char_of (n :: nat)]) ([0x80..<0x8B] @ [0xA8, 0xA9, 0xAF]) @
     [[CHR 0xE2, CHR 0x81, CHR 0x9F], [CHR 0xE3, CHR 0x80, CHR 0x80]]"

definition starts_with_space :: "string \<Rightarrow> bool" where
  "starts_with_space s \<longleftrightarrow> list_ex (\<lambda>p. take (length p) s = p) space_prefixes"

definition fieldNeedsQuotes :: "string \<Rightarrow> bool" where
  "fieldNeedsQuotes f \<longleftrightarrow>
     f \<noteq> [] \<and> (f = [CHR 0x5C, CHR 0x2E] \<or> COMMA \<in> set f \<or> QUOTE \<in> set f \<or> CR \<in> set f \<or> LF \<in> set f \<or> starts_with_space f)"

definition csv_field :: "string \<Rightarrow> string" where
  "csv_field f =
     (if fieldNeedsQuotes f then [QUOTE] @ concat (map (\<lambda>c. if c = QUOTE then [QUOTE, QUOTE] else [c]) f) @ [QUOTE] else f)"

fun csv_Write :: "string list \<Rightarrow> string" where
  "csv_Write [] = [LF]"
| "csv_Write [f] = csv_field f @ [LF]"
| "csv_Write (f # fs) = csv_field f @ [COMMA] @ csv_Write fs"

datatype csverr = CsvEOF | ErrBareQuote | ErrQuote

fun crlf :: "string \<Rightarrow> string" where
  "crlf [] = []"
| "crlf [c] = (if c = CR then [] else [c])"
| "crlf (c # d # s) = (if c = CR \<and> d = LF then LF # crlf s else c # crlf (d # s))"

text \<open>The rest of a quoted field: its contents and what follows the closing quote.\<close>

fun csv_quoted :: "string \<Rightarrow> (string \<times> string) option" where
  "csv_quoted [] = None"
| "csv_quoted [c] = (if c = QUOTE then Some ([], []) else None)"
| "csv_quoted (c # d # s) =
     (if c = QUOTE
      then if d = QUOTE then map_option (\<lambda>(f, r). (QUOTE # f, r)) (csv_quoted s) else Some ([], d # s)
      else map_option (\<lambda>(f, r). (c # f, r)) (csv_quoted (d # s)))"

lemma csv_quoted_shorter: "csv_quoted s = Some (f, r) \<Longrightarrow> length r < length s"
  by (induction s arbitrary: f r rule: csv_quoted.induct) (fastforce split: if_splits)+

function csv_fields :: "string \<Rightarrow> csverr + string list" where
  "csv_fields s =
     (if s \<noteq> [] \<and> hd s = QUOTE
      then (case csv_quoted (tl s) of
              None \<Rightarrow> Inl ErrQuote
            | Some (f, r) \<Rightarrow>
                (if r = [] \<or> hd r = LF then Inr [f]
                 else if hd r = COMMA then map_sum id (\<lambda>fs. f # fs) (csv_fields (tl r))
                 else Inl ErrQuote))
      else let f = takeWhile (\<lambda>c. c \<noteq> COMMA \<and> c \<noteq> LF) s; r = dropWhile (\<lambda>c. c \<noteq> COMMA \<and> c \<noteq> LF) s
           in if QUOTE \<in> set f then Inl ErrBareQuote
              else if r \<noteq> [] \<and> hd r = COMMA then map_sum id (\<lambda>fs. f # fs) (csv_fields (tl r))
              else Inr [f])"
  by pat_completeness auto
termination
proof (relation "measure length", goal_cases)
  case (2 s x f r)
  then show ?case using csv_quoted_shorter [of "tl s" f r] by (cases s; cases r) auto
next
  case (3 s x xa)
  then have "length xa \<le> length s" "xa \<noteq> []" by (simp_all add: length_dropWhile_le)
  then show ?case by (cases xa) auto
qed simp

declare csv_fields.simps [simp del]

definition csv_Read :: "string \<Rightarrow> csverr + string list" where
  "csv_Read s =
     (let s = dropWhile (\<lambda>c. c = LF) (crlf s) in if s = [] then Inl CsvEOF else csv_fields s)"

lemma crlf_id: "CR \<notin> set s \<Longrightarrow> crlf s = s"
  by (induction s rule: crlf.induct) auto

lemma csv_quoted_field:
  "d \<noteq> QUOTE \<Longrightarrow>
   csv_quoted (concat (map (\<lambda>c. if c = QUOTE then [QUOTE, QUOTE] else [c]) f) @ QUOTE # d # s) = Some (f, d # s)"
proof (induction f)
  case (Cons c f)
  have "concat (map (\<lambda>c. if c = QUOTE then [QUOTE, QUOTE] else [c]) f) @ QUOTE # d # s \<noteq> []" by simp
  then obtain x xs where "concat (map (\<lambda>c. if c = QUOTE then [QUOTE, QUOTE] else [c]) f) @ QUOTE # d # s = x # xs"
    by (cases "concat (map (\<lambda>c. if c = QUOTE then [QUOTE, QUOTE] else [c]) f) @ QUOTE # d # s") auto
  then show ?case using Cons by auto
qed simp

lemma csv_field_read:
  "csv_fields (csv_field f @ COMMA # s) = map_sum id (\<lambda>fs. f # fs) (csv_fields s)"
  "csv_fields (csv_field f @ [LF]) = Inr [f]"
proof -
  have plain: "takeWhile (\<lambda>c. c \<noteq> COMMA \<and> c \<noteq> LF) (f @ d # t) = f \<and> dropWhile (\<lambda>c. c \<noteq> COMMA \<and> c \<noteq> LF) (f @ d # t) = d # t"
    if "\<not> fieldNeedsQuotes f" "d = COMMA \<or> d = LF" for d t
  proof -
    have "\<forall>c \<in> set f. c \<noteq> COMMA \<and> c \<noteq> LF" using that(1) by (auto simp: fieldNeedsQuotes_def)
    then show ?thesis using that(2) by (auto simp: takeWhile_append2 dropWhile_append2)
  qed
  have nq: "QUOTE \<notin> set f \<and> hd (f @ d # t) \<noteq> QUOTE" if "\<not> fieldNeedsQuotes f" "d \<noteq> QUOTE" for d t
    using that by (cases f) (auto simp: fieldNeedsQuotes_def)
  show "csv_fields (csv_field f @ COMMA # s) = map_sum id (\<lambda>fs. f # fs) (csv_fields s)"
    using csv_quoted_field [of COMMA f s] plain [of COMMA s] nq [of COMMA s]
    by (subst csv_fields.simps) (auto simp: csv_field_def Let_def)
  show "csv_fields (csv_field f @ [LF]) = Inr [f]"
    using csv_quoted_field [of LF f "[]"] plain [of LF "[]"] nq [of LF "[]"]
    by (subst csv_fields.simps) (auto simp: csv_field_def Let_def)
qed

text \<open>A record of fields without carriage returns survives, but for a single empty field.\<close>

lemma csv_roundtrip:
  assumes "\<forall>f \<in> set fs. CR \<notin> set f" "fs \<noteq> []" "fs \<noteq> [[]]"
  shows "csv_Read (csv_Write fs) = Inr fs"
proof -
  have "csv_fields (csv_Write fs) = Inr fs" using assms(2)
    by (induction fs rule: csv_Write.induct) (simp_all add: csv_field_read)
  moreover have "CR \<notin> set (csv_Write fs)" using assms(1)
    by (induction fs rule: csv_Write.induct) (auto simp: csv_field_def split: if_splits)
  moreover have "hd (csv_Write fs) \<noteq> LF"
  proof -
    have h: "csv_field f = [] \<longleftrightarrow> f = []" "csv_field f \<noteq> [] \<Longrightarrow> hd (csv_field f) \<noteq> LF" for f
      by (cases f; auto simp: csv_field_def fieldNeedsQuotes_def)+
    show ?thesis
    proof (cases fs rule: csv_Write.cases)
      case (2 f)
      then show ?thesis using assms(3) h [of f] by simp
    next
      case (3 f f' fs')
      then show ?thesis using h [of f] by (cases "f = []") simp_all
    qed (use assms(2) in simp)
  qed
  moreover have "csv_Write fs \<noteq> []" by (cases fs rule: csv_Write.cases) auto
  ultimately show ?thesis by (cases "csv_Write fs") (simp_all add: csv_Read_def crlf_id)
qed

section \<open>Keys\<close>

definition keyFromTags :: "string list \<Rightarrow> string \<Rightarrow> string gomap \<Rightarrow> string" where
  "keyFromTags rollupTags sourceId tags = csv_Write (sourceId # map (gm_get [] tags) rollupTags)"

text \<open>
  \<open>None\<close> is an error. A key with a wrong number of parts gives no labels and no error.
\<close>

definition labelsFromKey :: "string \<Rightarrow> string \<Rightarrow> string list \<Rightarrow> string gomap option" where
  "labelsFromKey key nodeIndex rollupTags =
     (case csv_Read key of
        Inl _ \<Rightarrow> None
      | Inr keyParts \<Rightarrow>
          (if length keyParts \<noteq> length rollupTags + 1 then Some []
           else let labels = foldl (\<lambda>m (tagName, v). if v \<noteq> [] then gm_set m tagName v else m) [] (zip rollupTags (tl keyParts))
                in Some (gm_set (gm_set labels ''source_id'' (hd keyParts)) ''node_index'' nodeIndex)))"

text \<open>What a source with tags reports, as labels.\<close>

definition rollup_labels :: "string \<Rightarrow> string list \<Rightarrow> string \<Rightarrow> string gomap \<Rightarrow> string \<Rightarrow> string option" where
  "rollup_labels nodeIndex rollupTags sourceId tags l =
     (if l = ''node_index'' then Some nodeIndex
      else if l = ''source_id'' then Some sourceId
      else if l \<in> set rollupTags \<and> gm_get [] tags l \<noteq> [] then Some (gm_get [] tags l) else None)"

definition clean :: "string list \<Rightarrow> string \<times> string gomap \<Rightarrow> bool" where
  "clean rollupTags st \<longleftrightarrow>
     CR \<notin> set (fst st) \<and> (\<forall>t \<in> set rollupTags. CR \<notin> set (gm_get [] (snd st) t)) \<and> (rollupTags = [] \<longrightarrow> fst st \<noteq> [])"

lemma labelsFromKey_ok:
  assumes "clean rollupTags (sourceId, tags)"
  shows "\<exists>ls. labelsFromKey (keyFromTags rollupTags sourceId tags) nodeIndex rollupTags = Some ls
    \<and> map_of ls = rollup_labels nodeIndex rollupTags sourceId tags"
proof -
  have "csv_Read (keyFromTags rollupTags sourceId tags) = Inr (sourceId # map (gm_get [] tags) rollupTags)"
    unfolding keyFromTags_def using assms by (intro csv_roundtrip) (auto simp: clean_def)
  moreover have "map_of (foldl (\<lambda>m (tagName, v). if v \<noteq> [] then gm_set m tagName v else m) m (zip ts (map (gm_get [] tags) ts))) l =
      (if l \<in> set ts \<and> gm_get [] tags l \<noteq> [] then Some (gm_get [] tags l) else map_of m l)" for m ts l
    by (induction ts arbitrary: m) (auto simp: update_conv')
  ultimately show ?thesis
    by (auto simp: labelsFromKey_def Let_def update_conv' rollup_labels_def fun_eq_iff)
qed

lemma keyFromTags_inject:
  assumes "clean rollupTags (s, t)" "clean rollupTags (s', t')"
  shows "keyFromTags rollupTags s t = keyFromTags rollupTags s' t' \<longleftrightarrow>
    s = s' \<and> (\<forall>l \<in> set rollupTags. gm_get [] t l = gm_get [] t' l)"
proof -
  have "csv_Read (keyFromTags rollupTags s t) = Inr (s # map (gm_get [] t) rollupTags)"
    "csv_Read (keyFromTags rollupTags s' t') = Inr (s' # map (gm_get [] t') rollupTags)"
    unfolding keyFromTags_def using assms by (auto intro!: csv_roundtrip simp: clean_def)
  then show ?thesis by (auto simp: keyFromTags_def) (metis sum.inject(2) list.inject map_eq_conv)+
qed

section \<open>Counters\<close>

record pointsBatch =
  pb_Points :: "point list"
  pb_Size :: nat

record counterRollup =
  cr_nodeIndex :: string
  cr_metricName :: string
  cr_rollupTags :: "string list"
  cr_totalsForInterval :: "string list"
  cr_totals :: "int gomap"

definition NewCounterRollup :: "string \<Rightarrow> string \<Rightarrow> string list \<Rightarrow> counterRollup" where
  "NewCounterRollup nodeIndex metricName rollupTags =
     \<lparr>cr_nodeIndex = nodeIndex, cr_metricName = metricName, cr_rollupTags = rollupTags, cr_totalsForInterval = [], cr_totals = []\<rparr>"

definition counter_Record :: "string \<Rightarrow> string gomap \<Rightarrow> int \<Rightarrow> counterRollup \<Rightarrow> counterRollup" where
  "counter_Record sourceId tags v r =
     (let key = keyFromTags (cr_rollupTags r) sourceId tags
      in r\<lparr>cr_totalsForInterval := List.insert key (cr_totalsForInterval r),
           cr_totals := gm_set (cr_totals r) key (i64 (gm_get 0 (cr_totals r) key + v))\<rparr>)"

definition counter_batch :: "int \<Rightarrow> counterRollup \<Rightarrow> string \<Rightarrow> pointsBatch option" where
  "counter_batch timestamp r k =
     (case labelsFromKey k (cr_nodeIndex r) (cr_rollupTags r) of
        None \<Rightarrow> None
      | Some labels \<Rightarrow>
          let p = \<lparr>p_Name = cr_metricName r @ ''_total'', p_Timestamp = timestamp,
                   p_Value = Fin (of_int (gm_get 0 (cr_totals r) k)), p_Labels = labels\<rparr>
          in Some \<lparr>pb_Points = [p], pb_Size = EstimatePointSize p\<rparr>)"

text \<open>\<open>ord\<close> is the order in which the range loop meets the keys.\<close>

definition counter_Rollup :: "(string list \<Rightarrow> string list) \<Rightarrow> int \<Rightarrow> counterRollup \<Rightarrow> pointsBatch list \<times> counterRollup" where
  "counter_Rollup ord timestamp r =
     (List.map_filter (counter_batch timestamp r) (ord (cr_totalsForInterval r)), r\<lparr>cr_totalsForInterval := []\<rparr>)"

section \<open>Histograms\<close>

text \<open>
  A histogram of Prometheus: a new one, an observation, and what \<open>Write\<close> reports, the buckets
  with their upper bounds and cumulative counts, the count and the sum. \<open>fmt\<close> is
  \<open>strconv.FormatFloat\<close> with the shortest decimals.
\<close>

record 'h histogram_ops =
  ho_New :: 'h
  ho_Observe :: "real \<Rightarrow> 'h \<Rightarrow> 'h"
  ho_Write :: "'h \<Rightarrow> (real \<times> nat) list \<times> nat \<times> real"

record 'h histogramRollup =
  hr_nodeIndex :: string
  hr_metricName :: string
  hr_rollupTags :: "string list"
  hr_histogramsInInterval :: "string list"
  hr_histograms :: "'h gomap"

definition NewHistogramRollup :: "string \<Rightarrow> string \<Rightarrow> string list \<Rightarrow> 'h histogramRollup" where
  "NewHistogramRollup nodeIndex metricName rollupTags =
     \<lparr>hr_nodeIndex = nodeIndex, hr_metricName = metricName, hr_rollupTags = rollupTags,
      hr_histogramsInInterval = [], hr_histograms = []\<rparr>"

text \<open>\<open>float64(ns) / 1e9\<close>, without the rounding of float64.\<close>

definition NanosecondsToSeconds :: "int \<Rightarrow> real" where
  "NanosecondsToSeconds ns = of_int (i64 (ns * 1)) / 1000000000"

definition histogram_Record ::
    "'h histogram_ops \<Rightarrow> string \<Rightarrow> string gomap \<Rightarrow> int \<Rightarrow> 'h histogramRollup \<Rightarrow> 'h histogramRollup" where
  "histogram_Record ho sourceId tags timeInNanoseconds h =
     (let key = keyFromTags (hr_rollupTags h) sourceId tags;
          hs = (if map_of (hr_histograms h) key = None then gm_set (hr_histograms h) key (ho_New ho) else hr_histograms h)
      in h\<lparr>hr_histograms := gm_set hs key (ho_Observe ho (NanosecondsToSeconds timeInNanoseconds) (gm_get (ho_New ho) hs key)),
           hr_histogramsInInterval := List.insert key (hr_histogramsInInterval h)\<rparr>)"

definition histogram_points ::
    "(real \<Rightarrow> string) \<Rightarrow> string \<Rightarrow> int \<Rightarrow> string gomap \<Rightarrow> (real \<times> nat) list \<times> nat \<times> real \<Rightarrow> point list" where
  "histogram_points fmt name timestamp labels m =
     (case m of (buckets, sampleCount, sampleSum) \<Rightarrow>
        map (\<lambda>(upperBound, cumulativeCount).
               \<lparr>p_Name = name @ ''_duration_seconds_bucket'', p_Timestamp = timestamp,
                p_Value = Fin (of_nat cumulativeCount), p_Labels = gm_set labels ''le'' (fmt upperBound)\<rparr>) buckets @
        [\<lparr>p_Name = name @ ''_duration_seconds_bucket'', p_Timestamp = timestamp, p_Value = Fin (of_nat sampleCount),
          p_Labels = gm_set labels ''le'' ''+Inf''\<rparr>,
         \<lparr>p_Name = name @ ''_duration_seconds_count'', p_Timestamp = timestamp, p_Value = Fin (of_nat sampleCount), p_Labels = labels\<rparr>,
         \<lparr>p_Name = name @ ''_duration_seconds_sum'', p_Timestamp = timestamp, p_Value = Fin sampleSum, p_Labels = labels\<rparr>])"

definition histogram_batch ::
    "'h histogram_ops \<Rightarrow> (real \<Rightarrow> string) \<Rightarrow> int \<Rightarrow> 'h histogramRollup \<Rightarrow> string \<Rightarrow> pointsBatch option" where
  "histogram_batch ho fmt timestamp h k =
     (case labelsFromKey k (hr_nodeIndex h) (hr_rollupTags h) of
        None \<Rightarrow> None
      | Some labels \<Rightarrow>
          let points = histogram_points fmt (hr_metricName h) timestamp labels (ho_Write ho (gm_get (ho_New ho) (hr_histograms h) k))
          in Some \<lparr>pb_Points = points, pb_Size = foldl (\<lambda>sz p. sz + EstimatePointSize p) 0 points\<rparr>)"

definition histogram_Rollup ::
    "'h histogram_ops \<Rightarrow> (real \<Rightarrow> string) \<Rightarrow> (string list \<Rightarrow> string list) \<Rightarrow> int \<Rightarrow> 'h histogramRollup \<Rightarrow>
     pointsBatch list \<times> 'h histogramRollup" where
  "histogram_Rollup ho fmt ord timestamp h =
     (List.map_filter (histogram_batch ho fmt timestamp h) (ord (hr_histogramsInInterval h)), h\<lparr>hr_histogramsInInterval := []\<rparr>)"

section \<open>The interface of the rollups\<close>

text \<open>A run of a rollup, and what was recorded in it since the last time it was rolled up.\<close>

datatype rollup_event = Recorded string "string gomap" int | Rolled int

fun rollup_step :: "(string \<Rightarrow> string gomap \<Rightarrow> int \<Rightarrow> 'r \<Rightarrow> 'r) \<Rightarrow> (int \<Rightarrow> 'r \<Rightarrow> pointsBatch list \<times> 'r) \<Rightarrow> 'r \<Rightarrow> rollup_event \<Rightarrow> 'r" where
  "rollup_step rec roll r (Recorded s t v) = rec s t v r"
| "rollup_step rec roll r (Rolled ts) = snd (roll ts r)"

definition rollup_run :: "(string \<Rightarrow> string gomap \<Rightarrow> int \<Rightarrow> 'r \<Rightarrow> 'r) \<Rightarrow> (int \<Rightarrow> 'r \<Rightarrow> pointsBatch list \<times> 'r) \<Rightarrow> rollup_event list \<Rightarrow> 'r \<Rightarrow> 'r" where
  "rollup_run rec roll evs r = foldl (rollup_step rec roll) r evs"

definition in_interval :: "rollup_event list \<Rightarrow> (string \<times> string gomap \<times> int) list" where
  "in_interval evs = foldl (\<lambda>rs e. case e of Recorded s t v \<Rightarrow> rs @ [(s, t, v)] | Rolled _ \<Rightarrow> []) [] evs"

definition recorded :: "rollup_event list \<Rightarrow> (string \<times> string gomap \<times> int) list" where
  "recorded evs = concat (map (\<lambda>e. case e of Recorded s t v \<Rightarrow> [(s, t, v)] | Rolled _ \<Rightarrow> []) evs)"

text \<open>
  The interface \<open>Rollup\<close> of \<open>rollup.go\<close>: recording adds the key of a source to the interval, and
  rolling up makes a batch of every decodable key of the interval and starts a new interval.
\<close>

locale interval_rollup =
  fixes rec :: "string \<Rightarrow> string gomap \<Rightarrow> int \<Rightarrow> 'r \<Rightarrow> 'r"
    and roll :: "int \<Rightarrow> 'r \<Rightarrow> pointsBatch list \<times> 'r"
    and okr :: "string list \<Rightarrow> 'r \<Rightarrow> bool"
    and ikeys :: "'r \<Rightarrow> string list"
    and batch_of :: "int \<Rightarrow> 'r \<Rightarrow> string \<Rightarrow> pointsBatch option"
  assumes record_ok: "okr tags r \<Longrightarrow> okr tags (rec s t v r) \<and> set (ikeys (rec s t v r)) = insert (keyFromTags tags s t) (set (ikeys r))"
    and rollup_ok: "okr tags r \<Longrightarrow> okr tags (snd (roll ts r)) \<and> ikeys (snd (roll ts r)) = []
      \<and> mset (fst (roll ts r)) = mset (List.map_filter (batch_of ts r) (ikeys r))"
    and keys_distinct: "okr tags r \<Longrightarrow> distinct (ikeys r)"
    and batch_made: "okr tags r \<Longrightarrow> clean tags (s, t) \<Longrightarrow> batch_of ts r (keyFromTags tags s t) \<noteq> None"
begin

lemma run_ok:
  assumes "okr tags r" "ikeys r = []"
  shows "okr tags (rollup_run rec roll evs r)
    \<and> set (ikeys (rollup_run rec roll evs r)) = (\<lambda>(s, t, v). keyFromTags tags s t) ` set (in_interval evs)"
proof (induction evs rule: rev_induct)
  case Nil
  then show ?case using assms by (simp add: rollup_run_def in_interval_def)
next
  case (snoc e evs)
  then show ?case
    using record_ok [of tags "rollup_run rec roll evs r"] rollup_ok [of tags "rollup_run rec roll evs r"]
    by (cases e) (auto simp: rollup_run_def in_interval_def)
qed

text \<open>One batch for each combination recorded since the last rollup, and for no other.\<close>

lemma interval_batches:
  assumes "okr tags r" "set (ikeys r) = (\<lambda>(s, t, v). keyFromTags tags s t) ` set recs" "\<forall>(s, t, v) \<in> set recs. clean tags (s, t)"
  shows "length (fst (roll ts r)) = card ((\<lambda>(s, t, v). keyFromTags tags s t) ` set recs)
    \<and> set (fst (roll ts r)) = (\<lambda>(s, t, v). the (batch_of ts r (keyFromTags tags s t))) ` set recs"
proof -
  have some: "\<forall>k \<in> set (ikeys r). batch_of ts r k \<noteq> None"
    using assms(3) batch_made [OF assms(1)] unfolding assms(2) by fastforce
  then have "filter (\<lambda>k. batch_of ts r k \<noteq> None) (ikeys r) = ikeys r" by (simp add: filter_id_conv)
  then have m: "mset (fst (roll ts r)) = mset (map (\<lambda>k. the (batch_of ts r k)) (ikeys r))"
    using rollup_ok [OF assms(1), of ts] by (simp add: List.map_filter_def comp_def)
  have "length (fst (roll ts r)) = length (ikeys r)" using m by (metis length_map size_mset)
  also have "\<dots> = card (set (ikeys r))" using keys_distinct [OF assms(1)] by (simp add: distinct_card)
  finally have "length (fst (roll ts r)) = card (set (ikeys r))" .
  moreover have "set (fst (roll ts r)) = (\<lambda>k. the (batch_of ts r k)) ` set (ikeys r)"
    using m by (metis list.set_map mset_eq_setD)
  ultimately show ?thesis unfolding assms(2) by (simp add: image_image case_prod_beta)
qed

end

interpretation counter: interval_rollup counter_Record "counter_Rollup ord"
    "\<lambda>tags r. (\<forall>ks. mset (ord ks) = mset ks) \<and> distinct (cr_totalsForInterval r) \<and> cr_rollupTags r = tags"
    cr_totalsForInterval counter_batch
  for ord
proof (unfold_locales, goal_cases)
  case (2 tags r ts)
  then show ?case by (simp add: counter_Rollup_def List.map_filter_def)
next
  case (4 tags r s t ts)
  then show ?case using labelsFromKey_ok [of tags s t "cr_nodeIndex r"] by (auto simp: counter_batch_def Let_def)
qed (auto simp: counter_Record_def Let_def)

interpretation histogram: interval_rollup "histogram_Record ho" "histogram_Rollup ho fmt ord"
    "\<lambda>tags h. (\<forall>ks. mset (ord ks) = mset ks) \<and> distinct (hr_histogramsInInterval h) \<and> hr_rollupTags h = tags"
    hr_histogramsInInterval "histogram_batch ho fmt"
  for ho fmt ord
proof (unfold_locales, goal_cases)
  case (2 tags r ts)
  then show ?case by (simp add: histogram_Rollup_def List.map_filter_def)
next
  case (4 tags r s t ts)
  then show ?case using labelsFromKey_ok [of tags s t "hr_nodeIndex r"] by (auto simp: histogram_batch_def Let_def)
qed (auto simp: histogram_Record_def Let_def)

section \<open>Totals\<close>

lemma i64_add_left: "i64 (i64 a + b) = i64 (a + b)"
  unfolding i64_def by (metis signed_take_bit_add signed_take_bit_signed_take_bit min.idem)

definition counter_after :: "(string list \<Rightarrow> string list) \<Rightarrow> string \<Rightarrow> string \<Rightarrow> string list \<Rightarrow> rollup_event list \<Rightarrow> counterRollup" where
  "counter_after ord ni name tags evs = rollup_run counter_Record (counter_Rollup ord) evs (NewCounterRollup ni name tags)"

lemma counter_totals:
  "gm_get 0 (cr_totals (counter_after ord ni name tags evs)) k =
     i64 (\<Sum>(s, t, v) \<leftarrow> recorded evs. if keyFromTags tags s t = k then v else 0)
   \<and> cr_nodeIndex (counter_after ord ni name tags evs) = ni \<and> cr_metricName (counter_after ord ni name tags evs) = name
   \<and> cr_rollupTags (counter_after ord ni name tags evs) = tags"
  unfolding counter_after_def
proof (induction evs arbitrary: k rule: rev_induct)
  case Nil
  then show ?case by (simp add: rollup_run_def recorded_def NewCounterRollup_def gm_get_def i64_def)
next
  case (snoc e evs)
  show ?case
  proof (cases e)
    case (Recorded s t v)
    then show ?thesis using snoc [of k] snoc [of "keyFromTags tags s t"]
      by (auto simp: rollup_run_def recorded_def counter_Record_def Let_def gm_get_def update_conv' i64_add_left)
  next
    case (Rolled ts)
    then show ?thesis using snoc [of k] by (simp add: rollup_run_def recorded_def counter_Rollup_def)
  qed
qed

lemma in_interval_recorded: "set (in_interval evs) \<subseteq> set (recorded evs)"
  by (induction evs rule: rev_induct) (auto simp: in_interval_def recorded_def split: rollup_event.splits)

lemma card_keys:
  assumes "\<forall>(s, t, v) \<in> A. clean tags (s, t)"
  shows "card ((\<lambda>(s, t, v). keyFromTags tags s t) ` A) = card ((\<lambda>(s, t, v). (s, map (gm_get [] t) tags)) ` A)"
proof -
  have "inj_on (\<lambda>(s, vs). csv_Write (s # vs)) ((\<lambda>(s, t, v). (s, map (gm_get [] t) tags)) ` A)"
  proof (rule inj_onI, clarify)
    fix s t v s' t' v'
    assume "(s, t, v) \<in> A" "(s', t', v') \<in> A" and eq: "csv_Write (s # map (gm_get [] t) tags) = csv_Write (s' # map (gm_get [] t') tags)"
    then have "clean tags (s, t)" "clean tags (s', t')" using assms by auto
    then show "s = s' \<and> map (gm_get [] t) tags = map (gm_get [] t') tags"
      using keyFromTags_inject [of tags s t s' t'] eq by (simp add: keyFromTags_def)
  qed
  then have "card ((\<lambda>(s, vs). csv_Write (s # vs)) ` (\<lambda>(s, t, v). (s, map (gm_get [] t) tags)) ` A) =
      card ((\<lambda>(s, t, v). (s, map (gm_get [] t) tags)) ` A)" by (rule card_image)
  then show ?thesis by (simp add: image_image case_prod_beta keyFromTags_def)
qed

lemma counter_batch_ok:
  assumes "clean tags (s, t)" "\<forall>(s, t, v) \<in> set (recorded evs). clean tags (s, t)"
  shows "\<exists>p. counter_batch ts (counter_after ord ni name tags evs) (keyFromTags tags s t) =
      Some \<lparr>pb_Points = [p], pb_Size = EstimatePointSize p\<rparr>
    \<and> p_Name p = name @ ''_total'' \<and> p_Timestamp p = ts \<and> map_of (p_Labels p) = rollup_labels ni tags s t
    \<and> p_Value p = Fin (of_int (i64 (\<Sum>(s', t', v') \<leftarrow> recorded evs.
        if s' = s \<and> map (gm_get [] t') tags = map (gm_get [] t) tags then v' else 0)))"
proof -
  let ?r = "counter_after ord ni name tags evs"
  obtain ls where ls: "labelsFromKey (keyFromTags tags s t) ni tags = Some ls" "map_of ls = rollup_labels ni tags s t"
    using labelsFromKey_ok [OF assms(1)] by blast
  have "(\<Sum>(s', t', v') \<leftarrow> recorded evs. if keyFromTags tags s' t' = keyFromTags tags s t then v' else 0) =
      (\<Sum>(s', t', v') \<leftarrow> recorded evs. if s' = s \<and> map (gm_get [] t') tags = map (gm_get [] t) tags then v' else 0)"
    using assms keyFromTags_inject by (intro arg_cong [where f = sum_list] map_cong) auto
  then show ?thesis
    using ls counter_totals [of ord ni name tags evs "keyFromTags tags s t"] by (simp add: counter_batch_def Let_def)
qed


definition ex_events :: "rollup_event list" where
  "ex_events =
     [Recorded ''app,1'' [(''code'', ''200'')] 1, Recorded ''b'' [(''code'', ''200'')] 1, Rolled 60,
      Recorded ''app,1'' [(''code'', ''200''), (''x'', ''y'')] 1, Recorded ''app,1'' [] 1]"


end
