(* ===== verification/Nozzle.thy ===== *)
theory Nozzle
  imports Rollups Lean_Streams
begin

text \<open>
  The nozzle (\<open>internal/nozzle/nozzle.go\<close>) turns envelopes of the log system into points: gauges
  and counters at once, timers of one metric through the rollups. Batches of points go through a
  bounded channel to workers that write them with the ingress client (\<open>pkg/ingressclient\<close>).
\<close>

section \<open>Envelopes\<close>

text \<open>A gauge maps names to a unit and a value.\<close>

datatype message =
    Gauge "(string \<times> float64) gomap" | Timer string int int | Counter string int | OtherMessage

record envelope =
  e_Timestamp :: int
  e_SourceId :: string
  e_Tags :: "string gomap"
  e_Message :: message

definition with_tags :: "string gomap \<Rightarrow> string gomap \<Rightarrow> string gomap" where
  "with_tags labels tags = foldl (\<lambda>m (k, v). gm_set m k v) labels tags"

definition createPointsFromGauge :: "envelope \<Rightarrow> (string \<times> float64) gomap \<Rightarrow> point list" where
  "createPointsFromGauge e metrics =
     map (\<lambda>(name, u, v).
            \<lparr>p_Name = name, p_Timestamp = e_Timestamp e, p_Value = v,
             p_Labels = with_tags [(''source_id'', e_SourceId e), (''unit'', u)] (e_Tags e)\<rparr>) metrics"

text \<open>\<open>float64(total)\<close> is exact in the model.\<close>

definition createPointFromCounter :: "envelope \<Rightarrow> string \<Rightarrow> int \<Rightarrow> point" where
  "createPointFromCounter e name tot =
     \<lparr>p_Name = name, p_Timestamp = e_Timestamp e, p_Value = Fin (of_int tot),
      p_Labels = with_tags [(''source_id'', e_SourceId e)] (e_Tags e)\<rparr>"

text \<open>
  \<open>strings.ToLower\<close> as far as it can give letters of ASCII: of the others, only the dotted
  capital I and the Kelvin sign become one.
\<close>

fun ToLower :: "string \<Rightarrow> string" where
  "ToLower [] = []"
| "ToLower (c # s) =
     (if is_upper c then char_of (of_char c + (32 :: nat)) # ToLower s
      else if take 2 (c # s) = [CHR 0xC4, CHR 0xB0] then CHR ''i'' # ToLower (drop 1 s)
      else if take 3 (c # s) = [CHR 0xE2, CHR 0x84, CHR 0xAA] then CHR ''k'' # ToLower (drop 2 s)
      else c # ToLower s)"

text \<open>The second result is what is set into the timer buffer.\<close>

definition convertEnvelopeToPoints ::
    "string \<Rightarrow> ((string \<times> float64) gomap \<Rightarrow> (string \<times> float64) gomap) \<Rightarrow> envelope \<Rightarrow> point list \<times> envelope list" where
  "convertEnvelopeToPoints rollupMetricName ord e =
     (case e_Message e of
        Gauge metrics \<Rightarrow> (createPointsFromGauge e (ord metrics), [])
      | Timer name _ _ \<Rightarrow>
          (if name \<noteq> rollupMetricName then ([], [])
           else if e_SourceId e = ''gorouter'' \<and> ToLower (gm_get [] (e_Tags e) ''peer_type'') = ''client'' then ([], [])
           else ([], [e]))
      | Counter name tot \<Rightarrow> ([createPointFromCounter e name tot], [])
      | OtherMessage \<Rightarrow> ([], []))"

definition convertEnvelopesToPoints ::
    "string \<Rightarrow> ((string \<times> float64) gomap \<Rightarrow> (string \<times> float64) gomap) \<Rightarrow> envelope list \<Rightarrow> point list" where
  "convertEnvelopesToPoints rollupMetricName ord es = concat (map (\<lambda>e. fst (convertEnvelopeToPoints rollupMetricName ord e)) es)"

section \<open>The goroutines\<close>

definition BATCH_CHANNEL_SIZE :: nat where
  "BATCH_CHANNEL_SIZE = 512"

definition MAX_BATCH_SIZE_IN_BYTES :: nat where
  "MAX_BATCH_SIZE_IN_BYTES = 32 * 1024"

text \<open>
  The rollups are those of \<open>WithNozzleTimerRollup\<close>, \<open>None\<close> without it (\<open>NullRollup\<close>).
  \<open>nz_points\<close> and \<open>nz_size\<close> belong to the batcher, \<open>nz_ch\<close> is the channel.
\<close>

record 'h nozzle =
  nz_rollupMetricName :: string
  nz_totalRollup :: "counterRollup option"
  nz_durationRollup :: "'h histogramRollup option"
  nz_timerBuffer :: "envelope list"
  nz_points :: "point list"
  nz_size :: nat
  nz_ch :: "point list list"
  nz_dropped :: nat
  nz_egressErrors :: nat
  nz_egressPoints :: nat

definition NewNozzle :: "('h nozzle \<Rightarrow> 'h nozzle) list \<Rightarrow> 'h nozzle" where
  "NewNozzle opts =
     foldl (\<lambda>n opt. opt n)
       \<lparr>nz_rollupMetricName = [], nz_totalRollup = None, nz_durationRollup = None, nz_timerBuffer = [], nz_points = [],
        nz_size = 0, nz_ch = [], nz_dropped = 0, nz_egressErrors = 0, nz_egressPoints = 0\<rparr> opts"

definition WithNozzleTimerRollup :: "nat \<Rightarrow> string \<Rightarrow> string list \<Rightarrow> string list \<Rightarrow> 'h nozzle \<Rightarrow> 'h nozzle" where
  "WithNozzleTimerRollup nodeIndex metricName totalRollupTags durationRollupTags n =
     n\<lparr>nz_rollupMetricName := metricName,
       nz_totalRollup := Some (NewCounterRollup (format_uint nodeIndex) metricName totalRollupTags),
       nz_durationRollup := Some (NewHistogramRollup (format_uint nodeIndex) metricName durationRollupTags)\<rparr>"

definition nozzle_writeToChannelOrDiscard :: "point list \<Rightarrow> 'h nozzle \<Rightarrow> 'h nozzle" where
  "nozzle_writeToChannelOrDiscard points n =
     (if length (nz_ch n) < BATCH_CHANNEL_SIZE then n\<lparr>nz_ch := nz_ch n @ [points]\<rparr>
      else n\<lparr>nz_dropped := nz_dropped n + length points\<rparr>)"

text \<open>One turn of the batcher: it polls an envelope or finds none, and the timer has fired or not.\<close>

definition batcher_poll ::
    "((string \<times> float64) gomap \<Rightarrow> (string \<times> float64) gomap) \<Rightarrow> envelope option \<Rightarrow> 'h nozzle \<Rightarrow> 'h nozzle" where
  "batcher_poll ord found n =
     (case found of
        None \<Rightarrow> n
      | Some e \<Rightarrow>
          (case convertEnvelopeToPoints (nz_rollupMetricName n) ord e of (ps, timers) \<Rightarrow>
             n\<lparr>nz_points := nz_points n @ ps, nz_size := foldl (\<lambda>sz p. sz + EstimatePointSize p) (nz_size n) ps,
               nz_timerBuffer := nz_timerBuffer n @ timers\<rparr>))"

definition pointBatcher_turn ::
    "((string \<times> float64) gomap \<Rightarrow> (string \<times> float64) gomap) \<Rightarrow> envelope option \<Rightarrow> bool \<Rightarrow> 'h nozzle \<Rightarrow> 'h nozzle" where
  "pointBatcher_turn ord found timer n =
     (let n = batcher_poll ord found n in
      if timer
      then (if length (nz_points n) > 0 then (nozzle_writeToChannelOrDiscard (nz_points n) n)\<lparr>nz_points := []\<rparr> else n)\<lparr>nz_size := 0\<rparr>
      else if nz_size n \<ge> MAX_BATCH_SIZE_IN_BYTES
      then (nozzle_writeToChannelOrDiscard (nz_points n) n)\<lparr>nz_points := [], nz_size := 0\<rparr> else n)"

definition pointWriter_turn :: "(point list \<Rightarrow> 'c \<Rightarrow> (unit + unit) \<times> 'c) \<Rightarrow> 'h nozzle \<times> 'c \<Rightarrow> 'h nozzle \<times> 'c" where
  "pointWriter_turn client nc =
     (case nz_ch (fst nc) of
        [] \<Rightarrow> nc
      | points # ch \<Rightarrow>
          (let n = (fst nc)\<lparr>nz_ch := ch\<rparr> in
           case client points (snd nc) of
             (Inl _, c) \<Rightarrow> (n\<lparr>nz_egressErrors := nz_egressErrors n + 1\<rparr>, c)
           | (Inr _, c) \<Rightarrow> (n\<lparr>nz_egressPoints := nz_egressPoints n + length points\<rparr>, c)))"

definition timerProcessor_turn :: "'h histogram_ops \<Rightarrow> 'h nozzle \<Rightarrow> 'h nozzle" where
  "timerProcessor_turn ho n =
     (case nz_timerBuffer n of
        [] \<Rightarrow> n
      | e # es \<Rightarrow>
          (let d = (case e_Message e of Timer _ start stop \<Rightarrow> i64 (stop - start) | _ \<Rightarrow> 0) in
           n\<lparr>nz_timerBuffer := es,
             nz_totalRollup := map_option (counter_Record (e_SourceId e) (e_Tags e) 1) (nz_totalRollup n),
             nz_durationRollup := map_option (histogram_Record ho (e_SourceId e) (e_Tags e) d) (nz_durationRollup n)\<rparr>))"

text \<open>The loops over the batches of the rollups: the points not yet sent, and their size.\<close>

fun emit_batches :: "pointsBatch list \<Rightarrow> point list \<times> nat \<Rightarrow> 'h nozzle \<Rightarrow> (point list \<times> nat) \<times> 'h nozzle" where
  "emit_batches [] ps n = (ps, n)"
| "emit_batches (b # bs) ps n =
     (let points = fst ps @ pb_Points b; sz = snd ps + pb_Size b in
      if sz \<ge> MAX_BATCH_SIZE_IN_BYTES then emit_batches bs ([], 0) (nozzle_writeToChannelOrDiscard points n)
      else emit_batches bs (points, sz) n)"

definition rollup_opt :: "('r \<Rightarrow> pointsBatch list \<times> 'r) \<Rightarrow> 'r option \<Rightarrow> pointsBatch list \<times> 'r option" where
  "rollup_opt f r = (case r of None \<Rightarrow> ([], None) | Some r \<Rightarrow> map_prod id Some (f r))"

definition timerEmitter_turn ::
    "'h histogram_ops \<Rightarrow> (real \<Rightarrow> string) \<Rightarrow> (string list \<Rightarrow> string list) \<Rightarrow> int \<Rightarrow> 'h nozzle \<Rightarrow> 'h nozzle" where
  "timerEmitter_turn ho fmt ord timestampNano n =
     (case rollup_opt (counter_Rollup ord timestampNano) (nz_totalRollup n) of (totals, tr) \<Rightarrow>
        (case emit_batches totals ([], 0) (n\<lparr>nz_totalRollup := tr\<rparr>) of (ps, n) \<Rightarrow>
           (case rollup_opt (histogram_Rollup ho fmt ord timestampNano) (nz_durationRollup n) of (durations, dr) \<Rightarrow>
              (case emit_batches durations ps (n\<lparr>nz_durationRollup := dr\<rparr>) of (ps, n) \<Rightarrow>
                 if length (fst ps) > 0 then nozzle_writeToChannelOrDiscard (fst ps) n else n))))"

section \<open>Points are sent or counted as dropped\<close>

definition accounted :: "'h nozzle \<Rightarrow> nat" where
  "accounted n = length (concat (nz_ch n)) + nz_dropped n"

lemma write_accounted:
  "accounted (nozzle_writeToChannelOrDiscard ps n) = accounted n + length ps"
  "nz_durationRollup (nozzle_writeToChannelOrDiscard ps n) = nz_durationRollup n"
  by (simp_all add: accounted_def nozzle_writeToChannelOrDiscard_def)

lemma emit_batches_accounted:
  assumes "emit_batches bs ps n = (ps', n')"
  shows "accounted n' + length (fst ps') = accounted n + length (fst ps) + length (concat (map pb_Points bs))
    \<and> nz_durationRollup n' = nz_durationRollup n"
  using assms
proof (induction bs ps n rule: emit_batches.induct)
  case (2 b bs ps n)
  then show ?case
    by (auto simp: Let_def write_accounted split: if_splits)
qed simp

text \<open>No point of a rollup gets lost uncounted.\<close>

lemma timerEmitter_accounted:
  "accounted (timerEmitter_turn ho fmt ord ts n) = accounted n
     + length (concat (map pb_Points (fst (rollup_opt (counter_Rollup ord ts) (nz_totalRollup n)))))
     + length (concat (map pb_Points (fst (rollup_opt (histogram_Rollup ho fmt ord ts) (nz_durationRollup n)))))"
proof -
  obtain totals tr where t: "rollup_opt (counter_Rollup ord ts) (nz_totalRollup n) = (totals, tr)" by fastforce
  obtain ps1 n1 where e1: "emit_batches totals ([], 0) (n\<lparr>nz_totalRollup := tr\<rparr>) = (ps1, n1)" by fastforce
  obtain ds dr where d: "rollup_opt (histogram_Rollup ho fmt ord ts) (nz_durationRollup n1) = (ds, dr)" by fastforce
  obtain ps2 n2 where e2: "emit_batches ds ps1 (n1\<lparr>nz_durationRollup := dr\<rparr>) = (ps2, n2)" by fastforce
  have "accounted (n\<lparr>nz_totalRollup := tr\<rparr>) = accounted n" "accounted (n1\<lparr>nz_durationRollup := dr\<rparr>) = accounted n1"
    by (simp_all add: accounted_def)
  then show ?thesis
    using t e1 d e2 emit_batches_accounted [OF e1] emit_batches_accounted [OF e2]
    by (auto simp: timerEmitter_turn_def write_accounted)
qed

section \<open>The ingress client\<close>

definition NewIngressClient ::
    "string \<Rightarrow> int \<Rightarrow> int \<Rightarrow> nat list \<Rightarrow> network \<Rightarrow> (neterr + tcpClient) \<times> network" where
  "NewIngressClient ingressAddress dialTimeout now took w =
     DialTCPUntilConnected \<lparr>cfg_MaxMessageSize = 2 * MAX_BATCH_SIZE_IN_BYTES, cfg_Address = ingressAddress\<rparr> (now + dialTimeout) now took w"

text \<open>\<open>enc\<close> is the gob encoding of a batch, \<open>None\<close> when it fails.\<close>

definition IngressClient_Write ::
    "(point list \<Rightarrow> byte list option) \<Rightarrow> point list \<Rightarrow> tcpClient \<times> network \<Rightarrow> (neterr option + unit) \<times> tcpClient \<times> network" where
  "IngressClient_Write enc points st =
     (case enc points of
        None \<Rightarrow> (Inl None, st)
      | Some payload \<Rightarrow>
          (case TCPClient_Write payload st of
             (_, Some e, st') \<Rightarrow> (Inl (Some e), st')
           | (_, None, st') \<Rightarrow> (Inr (), st')))"

lemma IngressClient_Write_delivers:
  assumes "net_ok sz w" "enc points = Some payload" "fits sz payload" "IngressClient_Write enc points (c, w) = (r, c', w')"
  shows "net_ok sz w' \<and> (\<exists>k \<le> 2. delivered sz w' = delivered sz w @ replicate k payload \<and> (r = Inr () \<longrightarrow> 1 \<le> k))"
proof -
  obtain n e c1 w1 where wr: "TCPClient_Write payload (c, w) = (n, e, c1, w1)" by (metis prod_cases4)
  then have "w1 = w'" "r = Inr () \<longleftrightarrow> e = None"
    using assms(2,4) by (auto simp: IngressClient_Write_def split: option.splits)
  with TCPClient_Write_delivers [OF assms(1,3) wr] show ?thesis by auto
qed

text \<open>The client that \<open>NewIngressClient\<close> returns is connected.\<close>

lemma NewIngressClient_ok:
  assumes "NewIngressClient addr timeout now took w0 = (Inr c, w)" "nw_sent w0 = []"
  shows "net_ok sz w \<and> delivered sz w = []"
proof -
  have "nw_sent w0 = [] \<Longrightarrow> DialTCPUntilConnected cfg dl now took w0 = (Inr c, w) \<Longrightarrow> net_ok sz w \<and> delivered sz w = []" for cfg dl
  proof (induction cfg dl now took w0 rule: DialTCPUntilConnected.induct)
    case (1 cfg dl now took w0)
    obtain r w1 where d: "DialTCP cfg w0 = (r, w1)" by fastforce
    show ?case
    proof (cases r)
      case (Inl e)
      then have "nw_sent w1 = []" using d "1.prems"(1)
        by (auto simp: DialTCP_def TCPClient_Open_def newTCPClient_def Let_def split: if_splits list.splits option.splits)
      then show ?thesis using 1 d Inl by (auto simp: DialTCPUntilConnected.simps [of cfg dl now] split: if_splits)
    next
      case (Inr c1)
      then have "c1 = c" "w1 = w" using "1.prems"(2) d by (auto simp: DialTCPUntilConnected.simps [of cfg dl now] split: if_splits)
      then show ?thesis using dialled_ok [OF _ "1.prems"(1)] d Inr by blast
    qed
  qed
  then show ?thesis using assms by (simp add: NewIngressClient_def)
qed

end
