(* ===== verification/Auth.thy ===== *)
theory Auth
  imports Series_Set
begin

text \<open>
  Who may query (\<open>pkg/auth\<close>, \<open>pkg/cfauthproxy/query_parsing.go\<close>): the proxy in front of the store
  reads the token of a request with the keys of the UAA (\<open>uaa_client.go\<close>), finds the source ids
  in its query, asks the cloud controller which of them the user may see (\<open>capi_client.go\<close>) and
  passes the request on or refuses it (\<open>cf_auth_middleware.go\<close>). HTTP, JSON, JWT, RSA and the
  PromQL parser are arguments, kept in the record \<open>auth_env\<close>; \<open>'w\<close> is the state of the world
  behind HTTP and \<open>'k\<close> a public key.
\<close>

record jose_header =
  jh_alg :: "string option"
  jh_kid :: "string option"

text \<open>
  \<open>http_Do\<close> takes the URL and the \<open>Authorization\<close> header and gives an error, or a status and a
  body. \<open>jose_headers\<close> and \<open>jose_verify\<close> are the two halves of \<open>jose.Decode\<close>, \<open>parse_query\<close>
  gives the label matchers of the selectors in the order of \<open>promql.Walk\<close>.
\<close>

record ('w, 'k) auth_env =
  http_Do :: "string \<Rightarrow> string \<Rightarrow> 'w \<Rightarrow> (string + int \<times> string) \<times> 'w"
  json_keys :: "string \<Rightarrow> (string \<times> string) list option"
  rsa_key :: "string \<Rightarrow> 'k option"
  jose_headers :: "string \<Rightarrow> jose_header option"
  jose_verify :: "'k \<Rightarrow> string \<Rightarrow> string option"
  json_token :: "string \<Rightarrow> (string list \<times> int) option"
  json_apps :: "string \<Rightarrow> ((string \<times> string) list \<times> string) option"
  next_page :: "string \<Rightarrow> string \<Rightarrow> string option"
  parse_query :: "string \<Rightarrow> string + matcher list list"

section \<open>Tokens\<close>

record 'k uaaClient =
  ua_url :: string
  ua_publicKeys :: "'k gomap"
  ua_minimumRefreshInterval :: int
  ua_lastQueryTime :: int

text \<open>\<open>url\<close> is the address of the UAA with \<open>token_keys\<close> for its path.\<close>

definition NewUAAClient :: "string \<Rightarrow> ('k uaaClient \<Rightarrow> 'k uaaClient) list \<Rightarrow> 'k uaaClient" where
  "NewUAAClient url opts =
     foldl (\<lambda>u opt. opt u)
       \<lparr>ua_url = url, ua_publicKeys = [], ua_minimumRefreshInterval = 30 * 1000000000, ua_lastQueryTime = 0\<rparr> opts"

definition WithMinimumRefreshInterval :: "int \<Rightarrow> 'k uaaClient \<Rightarrow> 'k uaaClient" where
  "WithMinimumRefreshInterval interval u = u\<lparr>ua_minimumRefreshInterval := interval\<rparr>"

definition uaa_doRequest :: "('w, 'k) auth_env \<Rightarrow> string \<Rightarrow> 'w \<Rightarrow> (string + string) \<times> 'w" where
  "uaa_doRequest env url w =
     (case http_Do env url [] w of
        (Inl e, w') \<Rightarrow> (Inl e, w')
      | (Inr (status, body), w') \<Rightarrow> (if status \<noteq> 200 then Inl ''unexpected response code'' else Inr body, w'))"

definition unmarshalTokenKeys :: "('w, 'k) auth_env \<Rightarrow> string \<Rightarrow> string + (string \<times> string) list" where
  "unmarshalTokenKeys env body =
     (case json_keys env body of None \<Rightarrow> Inl ''unable to decode json token keys from UAA'' | Some ks \<Rightarrow> Inr ks)"

text \<open>
  The loop over the keys from the UAA: it stores them one by one and stops at the first bad one,
  with the keys before it stored. \<open>current\<close> are the ids known before and not met so far.
\<close>

fun store_keys ::
    "('w, 'k) auth_env \<Rightarrow> (string \<times> string) list \<Rightarrow> 'k gomap \<times> string list \<Rightarrow> string option \<times> 'k gomap \<times> string list" where
  "store_keys env [] st = (None, st)"
| "store_keys env ((kid, v) # ks) st =
     (if v = [] then (Some ''received an empty token key from UAA'', st)
      else (case rsa_key env v of
              None \<Rightarrow> (Some ''not an RSA key'', st)
            | Some k \<Rightarrow> store_keys env ks (gm_set (fst st) kid k, remove1 kid (snd st))))"

definition RefreshTokenKeys ::
    "('w, 'k) auth_env \<Rightarrow> int \<Rightarrow> 'k uaaClient \<times> 'w \<Rightarrow> string option \<times> 'k uaaClient \<times> 'w" where
  "RefreshTokenKeys env now st =
     (case st of (u, w) \<Rightarrow>
        (if now < ua_lastQueryTime u + ua_minimumRefreshInterval u then (None, u, w)
         else let u = u\<lparr>ua_lastQueryTime := now\<rparr> in
              case uaa_doRequest env (ua_url u) w of
                (Inl e, w') \<Rightarrow> (Some e, u, w')
              | (Inr body, w') \<Rightarrow>
                  (case unmarshalTokenKeys env body of
                     Inl e \<Rightarrow> (Some e, u, w')
                   | Inr ks \<Rightarrow>
                       (case store_keys env ks (ua_publicKeys u, map fst (ua_publicKeys u)) of
                          (Some e, keys, _) \<Rightarrow> (Some e, u\<lparr>ua_publicKeys := keys\<rparr>, w')
                        | (None, keys, current) \<Rightarrow>
                            (None, u\<lparr>ua_publicKeys := foldl gm_delete keys current\<rparr>, w')))))"

definition loadOrFetchPublicKey ::
    "('w, 'k) auth_env \<Rightarrow> int \<Rightarrow> string \<Rightarrow> 'k uaaClient \<times> 'w \<Rightarrow> 'k option \<times> 'k uaaClient \<times> 'w" where
  "loadOrFetchPublicKey env now keyID st =
     (case map_of (ua_publicKeys (fst st)) keyID of
        Some k \<Rightarrow> (Some k, st)
      | None \<Rightarrow>
          (case RefreshTokenKeys env now st of
             (_, st') \<Rightarrow> (map_of (ua_publicKeys (fst st')) keyID, st')))"

text \<open>The regular expression \<open>(?i)^bearer\s+\<close>.\<close>

definition trimBearer :: "string \<Rightarrow> string" where
  "trimBearer s =
     (let sp = (\<lambda>c. c \<in> {CHR 0x09, CHR 0x0A, CHR 0x0C, CHR 0x0D, CHR 0x20});
          low = (\<lambda>c. if is_upper c then char_of (of_char c + (32 :: nat)) else c)
      in if map low (take 6 s) = ''bearer'' \<and> length s > 6 \<and> sp (s ! 6) then dropWhile sp (drop 6 s) else s)"

record clientContext =
  cx_IsAdmin :: bool
  cx_Token :: string
  cx_ExpiresAt :: int

datatype read_error = MissingToken | AlgorithmError string | UnknownTokenKey string | VerificationError | BadPayload | Expired

text \<open>
  The last component tells whether a refresh of the keys is started in the background. A token
  whose header has no algorithm or no key id panics.
\<close>

definition uaa_Read ::
    "('w, 'k) auth_env \<Rightarrow> int \<Rightarrow> string \<Rightarrow> 'k uaaClient \<times> 'w \<Rightarrow> ((read_error + clientContext) \<times> ('k uaaClient \<times> 'w) \<times> bool) outcome" where
  "uaa_Read env now token st =
     (if token = [] then Returns (Inl MissingToken, st, False)
      else (case jose_headers env (trimBearer token) of
              None \<Rightarrow> Returns (Inl VerificationError, st, True)
            | Some h \<Rightarrow>
                if jh_alg h \<noteq> Some ''RS256''
                then (case jh_alg h of None \<Rightarrow> Panics | Some a \<Rightarrow> Returns (Inl (AlgorithmError a), st, False))
                else (case jh_kid h of
                        None \<Rightarrow> Panics
                      | Some kid \<Rightarrow>
                          (case loadOrFetchPublicKey env now kid st of
                             (None, st) \<Rightarrow> Returns (Inl (UnknownTokenKey kid), st, False)
                           | (Some k, st) \<Rightarrow>
                               (case jose_verify env k (trimBearer token) of
                                  None \<Rightarrow> Returns (Inl VerificationError, st, True)
                                | Some payload \<Rightarrow>
                                    (case json_token env payload of
                                       None \<Rightarrow> Returns (Inl BadPayload, st, False)
                                     | Some (scope, ex) \<Rightarrow>
                                         if now > ex * 1000000000 then Returns (Inl Expired, st, False)
                                         else Returns (Inr \<lparr>cx_IsAdmin = list_ex (\<lambda>s. s = ''doppler.firehose'' \<or> s = ''logs.admin'') scope,
                                                            cx_Token = token, cx_ExpiresAt = ex * 1000000000\<rparr>, st, False)))))))"

section \<open>Source ids of a query\<close>

fun addSourceIdsFromLabelMatcher :: "string list \<Rightarrow> matcher \<Rightarrow> string + string list" where
  "addSourceIdsFromLabelMatcher ids m =
     (case m_Type m of
        MatchRegexp \<Rightarrow> Inl ''only strict equality is allowed on source id''
      | MatchNotRegexp \<Rightarrow> Inl ''only strict equality is allowed on source id''
      | MatchNotEqual \<Rightarrow> Inl ''only strict equality is allowed on source id''
      | MatchEqual \<Rightarrow> Inr (List.insert (m_Value m) ids)
      | MatchOther _ \<Rightarrow> Inr ids)"

fun matchers_loop :: "matcher list \<Rightarrow> bool \<times> string list \<Rightarrow> string + bool \<times> string list" where
  "matchers_loop [] st = Inr st"
| "matchers_loop (m # ms) st =
     (if m_Name m = ''source_id'' \<and> m_Value m \<noteq> []
      then (case addSourceIdsFromLabelMatcher (snd st) m of Inl e \<Rightarrow> Inl e | Inr ids \<Rightarrow> matchers_loop ms (True, ids))
      else matchers_loop ms st)"

definition addSourceIdsFromMatchers :: "matcher list \<Rightarrow> string list \<Rightarrow> string + string list" where
  "addSourceIdsFromMatchers ms ids =
     (case matchers_loop ms (False, ids) of
        Inl e \<Rightarrow> Inl e
      | Inr (found, ids) \<Rightarrow> if found then Inr ids else Inl ''one or more terms lack a sourceId'')"

fun visit_all :: "matcher list list \<Rightarrow> string list \<Rightarrow> string + string list" where
  "visit_all [] ids = Inr ids"
| "visit_all (s # ss) ids = (case addSourceIdsFromMatchers s ids of Inl e \<Rightarrow> Inl e | Inr ids \<Rightarrow> visit_all ss ids)"

text \<open>\<open>ord\<close> is the order in which the range loop meets the ids.\<close>

definition ExtractSourceIds :: "('w, 'k) auth_env \<Rightarrow> (string list \<Rightarrow> string list) \<Rightarrow> string \<Rightarrow> string + string list" where
  "ExtractSourceIds env ord query =
     (case parse_query env query of
        Inl e \<Rightarrow> Inl e
      | Inr sels \<Rightarrow> (case visit_all sels [] of Inl e \<Rightarrow> Inl e | Inr ids \<Rightarrow> Inr (ord ids)))"

section \<open>The cloud controller\<close>

definition MAX_RETRIES :: nat where
  "MAX_RETRIES = 3"

record authorizedSourceIds =
  as_sourceIds :: "string list"
  as_retryCount :: nat
  as_expiresAt :: int

record capiClient =
  ca_externalCapi :: string
  ca_tokenCache :: "authorizedSourceIds gomap"
  ca_cacheExpirationInterval :: int

definition NewCAPIClient :: "string \<Rightarrow> (capiClient \<Rightarrow> capiClient) list \<Rightarrow> capiClient" where
  "NewCAPIClient addr opts =
     foldl (\<lambda>c opt. opt c)
       \<lparr>ca_externalCapi = addr, ca_tokenCache = [], ca_cacheExpirationInterval = 60 * 1000000000\<rparr> opts"

definition WithCacheExpirationInterval :: "int \<Rightarrow> capiClient \<Rightarrow> capiClient" where
  "WithCacheExpirationInterval interval c = c\<lparr>ca_cacheExpirationInterval := interval\<rparr>"

text \<open>A page of resources, as guids and names, and the URL of the next one on the same host.\<close>

definition doResourceRequest ::
    "('w, 'k) auth_env \<Rightarrow> string \<Rightarrow> string \<Rightarrow> 'w \<Rightarrow> (string + (string \<times> string) list \<times> string option) \<times> 'w" where
  "doResourceRequest env url authToken w =
     (case http_Do env url authToken w of
        (Inl e, w') \<Rightarrow> (Inl e, w')
      | (Inr (status, body), w') \<Rightarrow>
          (if status \<noteq> 200 then (Inl ''failed CAPI request'', w')
           else (case json_apps env body of
                   None \<Rightarrow> (Inl ''failed to decode resource list request'', w')
                 | Some (resources, href) \<Rightarrow>
                     (if href = [] then (Inr (resources, None), w')
                      else (case next_page env url href of
                              None \<Rightarrow> (Inl ''failed to parse URL'', w')
                            | Some u \<Rightarrow> (Inr (resources, Some u), w'))))))"

text \<open>The loop over the pages need not end: \<open>None\<close>.\<close>

partial_function (option) doPaginatedResourceRequest ::
    "('w, 'k) auth_env \<Rightarrow> string \<Rightarrow> string \<Rightarrow> (string \<times> string) list \<Rightarrow> 'w \<Rightarrow> ((string + (string \<times> string) list) \<times> 'w) option" where
  "doPaginatedResourceRequest env url authToken acc w =
     (case doResourceRequest env url authToken w of
        (Inl e, w') \<Rightarrow> Some (Inl e, w')
      | (Inr (page, None), w') \<Rightarrow> Some (Inr (acc @ page), w')
      | (Inr (page, Some u), w') \<Rightarrow> doPaginatedResourceRequest env u authToken (acc @ page) w')"

definition AvailableSourceIDs ::
    "('w, 'k) auth_env \<Rightarrow> string \<Rightarrow> string \<Rightarrow> 'w \<Rightarrow> (string list \<times> 'w) option" where
  "AvailableSourceIDs env capi authToken w =
     (case doPaginatedResourceRequest env (capi @ ''/v3/apps'') authToken [] w of
        None \<Rightarrow> None
      | Some (Inl _, w) \<Rightarrow> Some ([], w)
      | Some (Inr apps, w) \<Rightarrow>
          (case doPaginatedResourceRequest env (capi @ ''/v3/service_instances'') authToken [] w of
             None \<Rightarrow> None
           | Some (Inl _, w) \<Rightarrow> Some ([], w)
           | Some (Inr services, w) \<Rightarrow> Some (map fst apps @ map fst services, w)))"

definition isContained :: "string list \<Rightarrow> string \<Rightarrow> bool" where
  "isContained sourceIds sourceId = list_ex (\<lambda>s. s = sourceId) sourceIds"

text \<open>\<open>moments\<close>: when the cache is looked at, and when the answer is stored.\<close>

definition fetch_sources ::
    "('w, 'k) auth_env \<Rightarrow> int \<Rightarrow> nat \<Rightarrow> string \<Rightarrow> string \<Rightarrow> capiClient \<times> 'w \<Rightarrow> (bool \<times> capiClient \<times> 'w) option" where
  "fetch_sources env now retryCount sourceId clientToken st =
     (case AvailableSourceIDs env (ca_externalCapi (fst st)) clientToken (snd st) of
        None \<Rightarrow> None
      | Some (ids, w) \<Rightarrow>
          Some (isContained ids sourceId,
            (fst st)\<lparr>ca_tokenCache := gm_set (ca_tokenCache (fst st)) clientToken
               \<lparr>as_sourceIds = ids, as_retryCount = retryCount, as_expiresAt = now + ca_cacheExpirationInterval (fst st)\<rparr>\<rparr>, w))"

definition IsAuthorized ::
    "('w, 'k) auth_env \<Rightarrow> int \<times> int \<Rightarrow> string \<Rightarrow> string \<Rightarrow> capiClient \<times> 'w \<Rightarrow> (bool \<times> capiClient \<times> 'w) option" where
  "IsAuthorized env moments sourceId clientToken st =
     (case map_of (ca_tokenCache (fst st)) clientToken of
        Some s \<Rightarrow>
          if fst moments < as_expiresAt s
          then if isContained (as_sourceIds s) sourceId then Some (True, st)
               else if as_retryCount s \<ge> MAX_RETRIES then Some (False, st)
               else fetch_sources env (snd moments) (as_retryCount s + 1) sourceId clientToken st
          else fetch_sources env (snd moments) 0 sourceId clientToken st
      | None \<Rightarrow> fetch_sources env (snd moments) 0 sourceId clientToken st)"

definition pruneTokens :: "int \<Rightarrow> capiClient \<Rightarrow> capiClient" where
  "pruneTokens now c = c\<lparr>ca_tokenCache := filter (\<lambda>(_, s). \<not> now > as_expiresAt s) (ca_tokenCache c)\<rparr>"

definition TokenCacheSize :: "capiClient \<Rightarrow> nat" where
  "TokenCacheSize c = length (ca_tokenCache c)"

section \<open>The middleware\<close>

record request =
  rq_path :: string
  rq_authorization :: string
  rq_urlQuery :: string
  rq_body :: string

datatype route = QueryRoute | AdminRoute | HealthRoute | NoRoute

text \<open>The routes: \<open>/api/v1/label/{metric_name:[^/]*}/values\<close> among them.\<close>

definition is_label_values :: "string \<Rightarrow> bool" where
  "is_label_values p \<longleftrightarrow>
     take 14 p = ''/api/v1/label/'' \<and> dropWhile (\<lambda>c. c \<noteq> CHR ''/'') (drop 14 p) = ''/values''"

definition route_of :: "string \<Rightarrow> route" where
  "route_of p =
     (if p = ''/api/v1/query'' \<or> p = ''/api/v1/query_range'' then QueryRoute
      else if p \<in> {''/api/v1/labels'', ''/api/v1/series'', ''/api/v1/rules'', ''/api/v1/alerts''} \<or> is_label_values p then AdminRoute
      else if p = ''/health'' then HealthRoute
      else if take 7 p = ''/rules/'' then AdminRoute
      else NoRoute)"

datatype response = Forwarded | QueryError int

fun authorized ::
    "('w, 'k) auth_env \<Rightarrow> (int \<times> int) list \<Rightarrow> string list \<Rightarrow> string \<Rightarrow> capiClient \<times> 'w \<Rightarrow> (bool \<times> capiClient \<times> 'w) option" where
  "authorized env clock [] token st = Some (True, st)"
| "authorized env clock (s # ss) token st =
     (case IsAuthorized env (hd clock) s token st of
        None \<Rightarrow> None
      | Some (False, st) \<Rightarrow> Some (False, st)
      | Some (True, st) \<Rightarrow> authorized env (tl clock) ss token st)"

type_synonym ('w, 'k) auth_state = "'k uaaClient \<times> capiClient \<times> 'w"

definition read_token ::
    "('w, 'k) auth_env \<Rightarrow> int \<Rightarrow> string \<Rightarrow> ('w, 'k) auth_state \<Rightarrow> ((read_error + clientContext) \<times> ('w, 'k) auth_state) outcome" where
  "read_token env now token st =
     (case st of (u, c, w) \<Rightarrow>
        (case uaa_Read env now token (u, w) of
           Returns (r, (u, w), _) \<Rightarrow> Returns (r, u, c, w)
         | Panics \<Rightarrow> Panics
         | Blocks \<Rightarrow> Blocks))"

definition handleOnlyAdmin ::
    "('w, 'k) auth_env \<Rightarrow> int \<Rightarrow> request \<Rightarrow> ('w, 'k) auth_state \<Rightarrow> (response \<times> ('w, 'k) auth_state) outcome" where
  "handleOnlyAdmin env now r st =
     (case read_token env now (rq_authorization r) st of
        Returns (Inl _, st) \<Rightarrow> Returns (QueryError 404, st)
      | Returns (Inr cx, st) \<Rightarrow> Returns (if cx_IsAdmin cx then Forwarded else QueryError 404, st)
      | Panics \<Rightarrow> Panics
      | Blocks \<Rightarrow> Blocks)"

definition handleQuery ::
    "('w, 'k) auth_env \<Rightarrow> (string list \<Rightarrow> string list) \<Rightarrow> int \<Rightarrow> (int \<times> int) list \<Rightarrow> request \<Rightarrow> ('w, 'k) auth_state \<Rightarrow>
     (response \<times> ('w, 'k) auth_state) outcome" where
  "handleQuery env ord now clock r st =
     (if rq_authorization r = [] then Returns (QueryError 404, st)
      else (case read_token env now (rq_authorization r) st of
              Returns (Inl _, st) \<Rightarrow> Returns (QueryError 404, st)
            | Returns (Inr cx, u, c, w) \<Rightarrow>
                if cx_IsAdmin cx then Returns (Forwarded, u, c, w)
                else (case ExtractSourceIds env ord (rq_urlQuery r) of
                        Inl _ \<Rightarrow> Returns (QueryError 422, u, c, w)
                      | Inr ids \<Rightarrow>
                          (case authorized env clock ids (cx_Token cx) (c, w) of
                             None \<Rightarrow> Blocks
                           | Some (ok, c, w) \<Rightarrow> Returns (if ok then Forwarded else QueryError 401, u, c, w)))
            | Panics \<Rightarrow> Panics
            | Blocks \<Rightarrow> Blocks))"

definition Middleware ::
    "('w, 'k) auth_env \<Rightarrow> (string list \<Rightarrow> string list) \<Rightarrow> int \<Rightarrow> (int \<times> int) list \<Rightarrow> request \<Rightarrow> ('w, 'k) auth_state \<Rightarrow>
     (response \<times> ('w, 'k) auth_state) outcome" where
  "Middleware env ord now clock r st =
     (case route_of (rq_path r) of
        QueryRoute \<Rightarrow> handleQuery env ord now clock r st
      | AdminRoute \<Rightarrow> handleOnlyAdmin env now r st
      | HealthRoute \<Rightarrow> Returns (Forwarded, st)
      | NoRoute \<Rightarrow> Returns (QueryError 404, st))"

section \<open>Only authorised requests are forwarded\<close>

text \<open>A selector is bound to sources: some \<open>source_id\<close> matcher with a value, and every such one an equality.\<close>

definition bound_to :: "(string \<Rightarrow> bool) \<Rightarrow> matcher list \<Rightarrow> bool" where
  "bound_to P sel \<longleftrightarrow>
     (\<exists>m \<in> set sel. m_Name m = ''source_id'' \<and> m_Value m \<noteq> []) \<and>
     (\<forall>m \<in> set sel. m_Name m = ''source_id'' \<and> m_Value m \<noteq> [] \<longrightarrow> m_Type m = MatchEqual \<and> P (m_Value m))"

definition known_types :: "matcher list \<Rightarrow> bool" where
  "known_types sel \<longleftrightarrow> (\<forall>m \<in> set sel. m_Type m \<in> {MatchEqual, MatchNotEqual, MatchRegexp, MatchNotRegexp})"

lemma matchers_loop_ok:
  assumes "matchers_loop ms (found, ids) = Inr (found', ids')" "known_types ms"
  shows "set ids \<subseteq> set ids'
    \<and> (found' \<longrightarrow> found \<or> (\<exists>m \<in> set ms. m_Name m = ''source_id'' \<and> m_Value m \<noteq> []))
    \<and> (\<forall>m \<in> set ms. m_Name m = ''source_id'' \<and> m_Value m \<noteq> [] \<longrightarrow> m_Type m = MatchEqual \<and> m_Value m \<in> set ids')"
  using assms
proof (induction ms arbitrary: found ids)
  case (Cons m ms)
  have k: "known_types ms" "m_Type m \<in> {MatchEqual, MatchNotEqual, MatchRegexp, MatchNotRegexp}"
    using Cons.prems(2) by (auto simp: known_types_def)
  show ?case
  proof (cases "m_Name m = ''source_id'' \<and> m_Value m \<noteq> []")
    case True
    then have e: "m_Type m = MatchEqual" "matchers_loop ms (True, List.insert (m_Value m) ids) = Inr (found', ids')"
      using Cons.prems(1) k(2) by auto
    then show ?thesis using Cons.IH [OF e(2) k(1)] True by auto
  next
    case False
    then show ?thesis using Cons.IH [of found ids] Cons.prems(1) k(1) by auto
  qed
qed auto

lemma visit_all_bound:
  assumes "visit_all sels ids = Inr ids'" "list_all known_types sels"
  shows "set ids \<subseteq> set ids' \<and> list_all (bound_to (\<lambda>s. s \<in> set ids')) sels"
  using assms
proof (induction sels arbitrary: ids)
  case (Cons sel sels)
  obtain ids1 where a: "addSourceIdsFromMatchers sel ids = Inr ids1" "visit_all sels ids1 = Inr ids'"
    using Cons.prems(1) by (auto split: sum.splits)
  then have l: "matchers_loop sel (False, ids) = Inr (True, ids1)"
    by (auto simp: addSourceIdsFromMatchers_def split: sum.splits if_splits prod.splits)
  have r: "set ids1 \<subseteq> set ids'" "list_all (bound_to (\<lambda>s. s \<in> set ids')) sels"
    using Cons.IH [OF a(2)] Cons.prems(2) by simp_all
  have "set ids \<subseteq> set ids1 \<and> bound_to (\<lambda>s. s \<in> set ids') sel"
    using matchers_loop_ok [OF l] Cons.prems(2) r(1) by (auto simp: bound_to_def)
  then show ?case using r by auto
qed simp

text \<open>What the cloud controller has answered for a token, and a cache that has only such answers.\<close>

definition answered :: "('w, 'k) auth_env \<Rightarrow> string \<Rightarrow> string \<Rightarrow> string list \<Rightarrow> bool" where
  "answered env capi token ids \<longleftrightarrow> (\<exists>w w'. AvailableSourceIDs env capi token w = Some (ids, w'))"

definition cache_ok :: "('w, 'k) auth_env \<Rightarrow> capiClient \<Rightarrow> bool" where
  "cache_ok env c \<longleftrightarrow> (\<forall>(token, s) \<in> set (ca_tokenCache c). answered env (ca_externalCapi c) token (as_sourceIds s))"

definition vouched :: "('w, 'k) auth_env \<Rightarrow> string \<Rightarrow> string \<Rightarrow> string \<Rightarrow> bool" where
  "vouched env capi token sourceId \<longleftrightarrow> (\<exists>ids. answered env capi token ids \<and> sourceId \<in> set ids)"

lemma fetch_sources_ok:
  assumes "fetch_sources env now n sid token (c, w) = Some (b, c', w')" "cache_ok env c"
  shows "cache_ok env c' \<and> ca_externalCapi c' = ca_externalCapi c \<and> (b \<longrightarrow> vouched env (ca_externalCapi c) token sid)"
proof -
  obtain ids where a: "AvailableSourceIDs env (ca_externalCapi c) token w = Some (ids, w')" "b = isContained ids sid"
    "c' = c\<lparr>ca_tokenCache := gm_set (ca_tokenCache c) token \<lparr>as_sourceIds = ids, as_retryCount = n, as_expiresAt = now + ca_cacheExpirationInterval c\<rparr>\<rparr>"
    using assms(1) by (auto simp: fetch_sources_def split: option.splits)
  then have "answered env (ca_externalCapi c) token ids" by (auto simp: answered_def)
  then show ?thesis using a assms(2)
    by (auto simp: cache_ok_def vouched_def isContained_def list_ex_iff dest!: set_update_subset)
qed

lemma IsAuthorized_ok:
  assumes "IsAuthorized env ts sid token (c, w) = Some (b, c', w')" "cache_ok env c"
  shows "cache_ok env c' \<and> ca_externalCapi c' = ca_externalCapi c \<and> (b \<longrightarrow> vouched env (ca_externalCapi c) token sid)"
proof (cases "map_of (ca_tokenCache c) token")
  case None
  then show ?thesis using assms fetch_sources_ok by (simp add: IsAuthorized_def)
next
  case (Some s)
  then have "answered env (ca_externalCapi c) token (as_sourceIds s)"
    using assms(2) map_of_SomeD by (fastforce simp: cache_ok_def)
  then show ?thesis using assms Some fetch_sources_ok [of env _ _ sid token c w b c' w']
    by (auto simp: IsAuthorized_def vouched_def isContained_def list_ex_iff split: if_splits)
qed

lemma authorized_ok:
  assumes "authorized env clock sids token (c, w) = Some (b, c', w')" "cache_ok env c"
  shows "cache_ok env c' \<and> (b \<longrightarrow> (\<forall>sid \<in> set sids. vouched env (ca_externalCapi c) token sid))"
  using assms
proof (induction sids arbitrary: clock c w)
  case (Cons sid sids)
  obtain b1 c1 w1 where i: "IsAuthorized env (hd clock) sid token (c, w) = Some (b1, c1, w1)"
    using Cons.prems(1) by (cases "IsAuthorized env (hd clock) sid token (c, w)") auto
  note ok = IsAuthorized_ok [OF i Cons.prems(2)]
  show ?case
  proof (cases b1)
    case True
    then have "authorized env (tl clock) sids token (c1, w1) = Some (b, c', w')" using Cons.prems(1) i by simp
    from Cons.IH [OF this conjunct1 [OF ok]] ok True show ?thesis by auto
  next
    case False
    then show ?thesis using Cons.prems(1) i ok by auto
  qed
qed simp

text \<open>A token that is signed with a key of the UAA, has not expired, and has these scopes.\<close>

definition token_scopes :: "('w, 'k) auth_env \<Rightarrow> 'k uaaClient \<Rightarrow> int \<Rightarrow> string \<Rightarrow> string list \<Rightarrow> bool" where
  "token_scopes env u now token scope \<longleftrightarrow>
     (\<exists>kid k payload ex. jose_headers env (trimBearer token) = Some \<lparr>jh_alg = Some ''RS256'', jh_kid = Some kid\<rparr>
        \<and> map_of (ua_publicKeys u) kid = Some k \<and> jose_verify env k (trimBearer token) = Some payload
        \<and> json_token env payload = Some (scope, ex) \<and> now \<le> ex * 1000000000)"

abbreviation admin_scope :: "string list \<Rightarrow> bool" where
  "admin_scope scope \<equiv> ''doppler.firehose'' \<in> set scope \<or> ''logs.admin'' \<in> set scope"

lemma loadOrFetch_key: "loadOrFetchPublicKey env now kid st = (Some k, st') \<Longrightarrow> map_of (ua_publicKeys (fst st')) kid = Some k"
  by (auto simp: loadOrFetchPublicKey_def split: option.splits prod.splits)

lemma uaa_Read_ok:
  assumes "uaa_Read env now token st = Returns (Inr cx, st', b)"
  shows "\<exists>scope. token_scopes env (fst st') now token scope \<and> cx_Token cx = token \<and> (cx_IsAdmin cx \<longleftrightarrow> admin_scope scope)"
proof -
  obtain h where h: "jose_headers env (trimBearer token) = Some h" "jh_alg h = Some ''RS256''"
    using assms by (auto simp: uaa_Read_def split: if_splits option.splits)
  then obtain kid k where k: "jh_kid h = Some kid" "loadOrFetchPublicKey env now kid st = (Some k, st')"
    using assms by (auto simp: uaa_Read_def split: if_splits option.splits prod.splits)
  then obtain payload scope ex where p: "jose_verify env k (trimBearer token) = Some payload" "json_token env payload = Some (scope, ex)"
    "\<not> now > ex * 1000000000" "cx_Token cx = token" "cx_IsAdmin cx = list_ex (\<lambda>s. s = ''doppler.firehose'' \<or> s = ''logs.admin'') scope"
    using assms h by (auto simp: uaa_Read_def split: if_splits option.splits prod.splits)
  then have "token_scopes env (fst st') now token scope"
    using h k loadOrFetch_key [OF k(2)] unfolding token_scopes_def by (cases h) auto
  then show ?thesis using p(4,5) by (auto simp: list_ex_iff)
qed

lemma handleQuery_ok:
  assumes "handleQuery env ord now clock r (u, c, w) = Returns (Forwarded, u', c', w')" "cache_ok env c"
    and parser: "\<forall>q sels. parse_query env q = Inr sels \<longrightarrow> list_all known_types sels" and ord: "\<forall>xs. mset (ord xs) = mset xs"
  shows "cache_ok env c' \<and> (\<exists>scope. token_scopes env u' now (rq_authorization r) scope \<and> (admin_scope scope \<or>
    (\<exists>sels. parse_query env (rq_urlQuery r) = Inr sels \<and>
      list_all (bound_to (vouched env (ca_externalCapi c) (rq_authorization r))) sels)))"
proof -
  obtain cx b w1 where rd: "uaa_Read env now (rq_authorization r) (u, w) = Returns (Inr cx, (u', w1), b)"
    using assms(1) by (auto simp: handleQuery_def read_token_def split: if_splits outcome.splits sum.splits prod.splits option.splits)
  obtain scope where sc: "token_scopes env u' now (rq_authorization r) scope" "cx_Token cx = rq_authorization r" "cx_IsAdmin cx \<longleftrightarrow> admin_scope scope"
    using uaa_Read_ok [OF rd] by auto
  show ?thesis
  proof (cases "cx_IsAdmin cx")
    case True
    then show ?thesis using assms(1,2) rd sc by (auto simp: handleQuery_def read_token_def split: if_splits)
  next
    case False
    then obtain ids where ids: "ExtractSourceIds env ord (rq_urlQuery r) = Inr ids"
      "authorized env clock ids (cx_Token cx) (c, w1) = Some (True, c', w')"
      using assms(1) rd by (auto simp: handleQuery_def read_token_def split: if_splits sum.splits option.splits prod.splits)
    then obtain sels ids0 where s: "parse_query env (rq_urlQuery r) = Inr sels" "visit_all sels [] = Inr ids0" "ids = ord ids0"
      by (auto simp: ExtractSourceIds_def split: sum.splits)
    have "set ids = set ids0" using ord s(3) by (metis mset_eq_setD)
    then have "\<forall>sid \<in> set ids0. vouched env (ca_externalCapi c) (rq_authorization r) sid"
      using authorized_ok [OF ids(2) assms(2)] sc(2) by simp
    moreover have "list_all (bound_to (\<lambda>s. s \<in> set ids0)) sels"
      using visit_all_bound [OF s(2)] parser s(1) by blast
    ultimately have "list_all (bound_to (vouched env (ca_externalCapi c) (rq_authorization r))) sels"
      unfolding bound_to_def list_all_iff by blast
    then show ?thesis using sc(1) s(1) authorized_ok [OF ids(2) assms(2)] by blast
  qed
qed

text \<open>
  C4: A request reaches the store only when it may. It is the health check; or its token is
  signed with a key of the UAA, not expired, and has an admin scope; or it is a query, its token
  is signed and not expired, and every selector of the query in its URL has a \<open>source_id\<close> and
  names only ones by equality that the cloud controller has listed for this very token. All
  other requests are refused, and the cache of answers stays one. But the query that is checked
  is the one in the URL: the body, whose query the store prefers, is never looked at.
\<close>

theorem only_authorized_forwarded:
  assumes fwd: "Middleware env ord now clock r (u, c, w) = Returns (Forwarded, u', c', w')" and c: "cache_ok env c"
    and parser: "\<forall>q sels. parse_query env q = Inr sels \<longrightarrow> list_all known_types sels" and ord: "\<forall>xs. mset (ord xs) = mset xs"
  shows "cache_ok env c'
    \<and> (route_of (rq_path r) = HealthRoute \<or> (\<exists>scope. token_scopes env u' now (rq_authorization r) scope \<and>
        (admin_scope scope \<or> route_of (rq_path r) = QueryRoute
          \<and> (\<exists>sels. parse_query env (rq_urlQuery r) = Inr sels
              \<and> list_all (bound_to (vouched env (ca_externalCapi c) (rq_authorization r))) sels))))
    \<and> (\<forall>b. Middleware env ord now clock (r\<lparr>rq_body := b\<rparr>) (u, c, w) = Returns (Forwarded, u', c', w'))"
proof -
  have body: "Middleware env ord now clock (r\<lparr>rq_body := b\<rparr>) (u, c, w) = Middleware env ord now clock r (u, c, w)" for b
  proof -
    have f: "rq_path (r\<lparr>rq_body := b\<rparr>) = rq_path r" "rq_authorization (r\<lparr>rq_body := b\<rparr>) = rq_authorization r"
      "rq_urlQuery (r\<lparr>rq_body := b\<rparr>) = rq_urlQuery r" by simp_all
    show ?thesis unfolding Middleware_def handleQuery_def handleOnlyAdmin_def f ..
  qed
  show ?thesis
  proof (cases "route_of (rq_path r)")
    case QueryRoute
    then show ?thesis using handleQuery_ok [OF _ c parser ord, of now clock r u w u' c' w'] fwd body
      by (simp add: Middleware_def)
  next
    case AdminRoute
    then obtain cx b w1 where "uaa_Read env now (rq_authorization r) (u, w) = Returns (Inr cx, (u', w1), b)" "cx_IsAdmin cx" "c' = c"
      using fwd by (auto simp: Middleware_def handleOnlyAdmin_def read_token_def split: if_splits outcome.splits sum.splits prod.splits)
    then show ?thesis using uaa_Read_ok [of env now "rq_authorization r" "(u, w)" cx "(u', w1)" b] c fwd body AdminRoute by auto
  qed (use fwd c body in \<open>auto simp: Middleware_def\<close>)
qed

text \<open>A token is its own payload here, and a query its source id.\<close>

definition ex_env :: "(nat, nat) auth_env" where
  "ex_env = \<lparr>http_Do = (\<lambda>url auth w. (Inr (200, url), w + 1)), json_keys = (\<lambda>_. None), rsa_key = (\<lambda>_. None),
     jose_headers = (\<lambda>_. Some \<lparr>jh_alg = Some ''RS256'', jh_kid = Some ''key-1''\<rparr>),
     jose_verify = (\<lambda>k tok. if k = 7 then Some tok else None), json_token = (\<lambda>_. Some ([], 100)),
     json_apps = (\<lambda>b. Some (if b = ''capi/v3/apps'' then [(''app-1'', ''dora'')] else [], [])), next_page = (\<lambda>_ _. None),
     parse_query = (\<lambda>q. Inr [[\<lparr>m_Type = MatchEqual, m_Name = ''source_id'', m_Value = q\<rparr>]])\<rparr>"

definition ex_request :: request where
  "ex_request = \<lparr>rq_path = ''/api/v1/query'', rq_authorization = ''bearer t'', rq_urlQuery = ''app-1'', rq_body = []\<rparr>"

theorem only_authorized_forwarded_witness:
  "\<exists>u' c' w'. Middleware ex_env id 50 [(50, 51)] (ex_request\<lparr>rq_body := ''query=all''\<rparr>)
       ((NewUAAClient ''uaa'' [])\<lparr>ua_publicKeys := [(''key-1'', 7)]\<rparr>, NewCAPIClient ''capi'' [], 0) = Returns (Forwarded, u', c', w')
     \<and> list_all (bound_to (vouched ex_env ''capi'' ''bearer t'')) [[\<lparr>m_Type = MatchEqual, m_Name = ''source_id'', m_Value = ''app-1''\<rparr>]]
     \<and> TokenCacheSize c' = 1"
proof -
  let ?u = "(NewUAAClient ''uaa'' [])\<lparr>ua_publicKeys := [(''key-1'', 7)]\<rparr>" and ?c = "NewCAPIClient ''capi'' []"
  let ?c' = "?c\<lparr>ca_tokenCache := [(''bearer t'', \<lparr>as_sourceIds = [''app-1''], as_retryCount = 0, as_expiresAt = 60000000051\<rparr>)]\<rparr>"
  have t: "trimBearer ''bearer t'' = ''t''" "route_of ''/api/v1/query'' = QueryRoute" by code_simp+
  have "doResourceRequest ex_env url tok w = (Inr (if url = ''capi/v3/apps'' then [(''app-1'', ''dora'')] else [], None), w + 1)" for url tok w
    by (simp add: doResourceRequest_def ex_env_def)
  then have "doPaginatedResourceRequest ex_env url tok [] w =
      Some (Inr (if url = ''capi/v3/apps'' then [(''app-1'', ''dora'')] else []), w + 1)" for url tok w
    by (subst doPaginatedResourceRequest.simps) simp
  then have a: "AvailableSourceIDs ex_env ''capi'' ''bearer t'' 0 = Some ([''app-1''], 2)"
    by (simp add: AvailableSourceIDs_def)
  have rd: "uaa_Read ex_env 50 ''bearer t'' (?u, 0) = Returns (Inr \<lparr>cx_IsAdmin = False, cx_Token = ''bearer t'', cx_ExpiresAt = 100000000000\<rparr>, (?u, 0), False)"
    by (simp add: uaa_Read_def loadOrFetchPublicKey_def t ex_env_def)
  have ids: "ExtractSourceIds ex_env id ''app-1'' = Inr [''app-1'']"
    by (simp add: ExtractSourceIds_def addSourceIdsFromMatchers_def ex_env_def)
  have m: "Middleware ex_env id 50 [(50, 51)] ex_request (?u, ?c, 0) = Returns (Forwarded, ?u, ?c', 2)"
    using t(2) a rd ids
    by (simp add: Middleware_def handleQuery_def read_token_def ex_request_def IsAuthorized_def fetch_sources_def isContained_def NewCAPIClient_def)
  have "cache_ok ex_env ?c" by (simp add: cache_ok_def NewCAPIClient_def)
  moreover have "\<forall>q sels. parse_query ex_env q = Inr sels \<longrightarrow> list_all known_types sels" by (auto simp: ex_env_def known_types_def)
  moreover have "\<not> token_scopes ex_env ?u 50 ''bearer t'' scope" if "admin_scope scope" for scope
    using that by (auto simp: token_scopes_def ex_env_def)
  ultimately show ?thesis
    using only_authorized_forwarded [OF m] t(2) by (auto simp: ex_request_def ex_env_def TokenCacheSize_def NewCAPIClient_def)
qed

end
