(* ===== verification/Host_Port.thy ===== *)
theory Host_Port
  imports Go_Prelude
begin

text \<open>
  What the library needs of strings and addresses: \<open>strings.Join\<close> and \<open>strings.Split\<close> at one
  character, and \<open>net.SplitHostPort\<close> of the standard library with its errors.
\<close>

section \<open>Joining and splitting\<close>

fun join_with :: "string \<Rightarrow> string list \<Rightarrow> string" where
  "join_with sep [] = []"
| "join_with sep [x] = x"
| "join_with sep (x # y # ys) = x @ sep @ join_with sep (y # ys)"

fun split_at :: "char \<Rightarrow> string \<Rightarrow> string list" where
  "split_at c [] = [[]]"
| "split_at c (x # xs) =
     (if x = c then [] # split_at c xs
      else (case split_at c xs of [] \<Rightarrow> [[x]] | y # ys \<Rightarrow> (x # y) # ys))"

lemma split_at_plain: "c \<notin> set s \<Longrightarrow> split_at c s = [s]"
  by (induction s) auto

lemma split_at_neq_Nil [simp]: "split_at c s \<noteq> []"
  by (induction s) (auto split: list.splits)

lemma split_at_append: "split_at c (s @ c # t) = split_at c s @ split_at c t"
  by (induction s) (auto split: list.splits)

lemma split_join:
  assumes "xs \<noteq> []" and "list_all (\<lambda>x. c \<notin> set x) xs"
  shows "split_at c (join_with [c] xs) = xs"
  using assms by (induction "[c]" xs rule: join_with.induct) (auto simp: split_at_plain split_at_append)

lemma set_join_with:
  "set (join_with sep xs) \<subseteq> set sep \<union> (\<Union>x \<in> set xs. set x)"
  by (induction sep xs rule: join_with.induct) auto

section \<open>Host and port\<close>

datatype addr_error = MissingPort | TooManyColons | MissingBracket | UnexpectedBracket

text \<open>\<open>i\<close> is the place of the last colon and \<open>e\<close> that of the first closing bracket.\<close>

definition SplitHostPort :: "string \<Rightarrow> addr_error + string \<times> string" where
  "SplitHostPort hostport =
     (if CHR '':'' \<notin> set hostport then Inl MissingPort
      else let port = rev (takeWhile (\<lambda>c. c \<noteq> CHR '':'') (rev hostport));
               i = length hostport - length port - 1
           in if hd hostport = CHR ''[''
              then if CHR '']'' \<notin> set hostport then Inl MissingBracket
                   else let e = length (takeWhile (\<lambda>c. c \<noteq> CHR '']'') hostport)
                        in if e + 1 = length hostport then Inl MissingPort
                           else if e + 1 \<noteq> i
                           then Inl (if hostport ! (e + 1) = CHR '':'' then TooManyColons else MissingPort)
                           else if CHR ''['' \<in> set (drop 1 hostport) \<or> CHR '']'' \<in> set (drop (e + 1) hostport)
                           then Inl UnexpectedBracket
                           else Inr (drop 1 (take e hostport), port)
              else if CHR '':'' \<in> set (take i hostport) then Inl TooManyColons
              else if CHR ''['' \<in> set hostport \<or> CHR '']'' \<in> set hostport then Inl UnexpectedBracket
              else Inr (take i hostport, port))"

lemma after_last:
  assumes "c \<notin> set p"
  shows "rev (takeWhile (\<lambda>x. x \<noteq> c) (rev (h @ c # p))) = p"
proof -
  have "takeWhile (\<lambda>x. x \<noteq> c) (rev p @ c # rev h) = rev p"
    using assms by (subst takeWhile_append2) auto
  then show ?thesis by simp
qed

lemma SplitHostPort_pair:
  assumes "CHR '':'' \<notin> set p" and "CHR ''['' \<notin> set (h @ p)" and "CHR '']'' \<notin> set (h @ p)"
  shows "SplitHostPort (h @ CHR '':'' # p) = (if CHR '':'' \<in> set h then Inl TooManyColons else Inr (h, p))"
proof -
  have "hd (h @ CHR '':'' # p) \<noteq> CHR ''[''" using assms(2) by (cases h) auto
  moreover have "length (h @ CHR '':'' # p) - length p - 1 = length h" by simp
  ultimately show ?thesis
    using assms unfolding SplitHostPort_def after_last [OF assms(1)] by (simp add: Let_def)
qed

end
