(* ===== verification/Access_Log.thy ===== *)
theory Access_Log
  imports Auth Host_Port
begin

text \<open>
  The access log of the proxy (\<^verbatim>\<open>pkg/auth/access_log.go\<close>, \<^verbatim>\<open>access_logger.go\<close>,
  \<^verbatim>\<open>access_middleware.go\<close>): one line in the common event format for each request,
  written before the request is authorised. The line is made by a template of
  \<open>html/template\<close>: the pieces of the template are given as they parse, and every field of the
  request is escaped as HTML text. Writing to the log may fail, after some of the bytes. The theory shows what can be read
  back from the log, and what a request can put into it.
\<close>

section \<open>The line of a request\<close>

record http_request = request +
  rq_Method :: string
  rq_RawQuery :: string
  rq_RemoteAddr :: string
  rq_Header :: "string gomap"

definition Header_Get :: "string gomap \<Rightarrow> string \<Rightarrow> string" where
  "Header_Get h k = gm_get [] h k"

record templateContext =
  tc_Timestamp :: int
  tc_RequestID :: string
  tc_Path :: string
  tc_Method :: string
  tc_SourceHost :: string
  tc_SourcePort :: string
  tc_DestinationHost :: string
  tc_DestinationPort :: string

text \<open>The escapes of HTML text.\<close>

definition html_char :: "char \<Rightarrow> string" where
  "html_char c =
     (if c = CHR 0x00 then [CHR 0xEF, CHR 0xBF, CHR 0xBD]
      else if c = CHR 0x22 then ''&#34;''
      else if c = CHR ''&'' then ''&amp;''
      else if c = CHR 0x27 then ''&#39;''
      else if c = CHR ''+'' then ''&#43;''
      else if c = CHR ''<'' then ''&lt;''
      else if c = CHR ''>'' then ''&gt;''
      else [c])"

definition html_escape :: "string \<Rightarrow> string" where
  "html_escape s = concat (map html_char s)"

text \<open>A template: its text, and the fields in braces.\<close>

datatype piece = Lit string | Act "templateContext \<Rightarrow> string"

fun exec_piece :: "templateContext \<Rightarrow> piece \<Rightarrow> string" where
  "exec_piece ctx (Lit s) = s"
| "exec_piece ctx (Act f) = html_escape (f ctx)"

definition Execute :: "piece list \<Rightarrow> templateContext \<Rightarrow> string" where
  "Execute t ctx = concat (map (exec_piece ctx) t)"

fun join_pieces :: "string \<Rightarrow> piece list list \<Rightarrow> piece list" where
  "join_pieces sep [] = []"
| "join_pieces sep [x] = x"
| "join_pieces sep (x # y # ys) = x @ Lit sep # join_pieces sep (y # ys)"

definition extensions :: "piece list list" where
  "extensions =
     [[Lit ''rt='', Act (\<lambda>c. format_int (tc_Timestamp c))],
      [Lit ''cs1Label=userAuthenticationMechanism''],
      [Lit ''cs1=oauth-access-token''],
      [Lit ''cs2Label=vcapRequestId''],
      [Lit ''cs2='', Act tc_RequestID],
      [Lit ''request='', Act tc_Path],
      [Lit ''requestMethod='', Act tc_Method],
      [Lit ''src='', Act tc_SourceHost],
      [Lit ''spt='', Act tc_SourcePort],
      [Lit ''dst='', Act tc_DestinationHost],
      [Lit ''dpt='', Act tc_DestinationPort]]"

definition setupTemplate :: "piece list" where
  "setupTemplate =
     Lit ''CEF:'' # join_pieces ''|''
       [[Lit ''0''], [Lit ''cloud_foundry''], [Lit ''metric_store''], [Lit ''1.0''],
        [Act tc_Method, Lit '' '', Act tc_Path],
        [Act tc_Method, Lit '' '', Act tc_Path],
        [Lit ''0''],
        join_pieces '' '' extensions]"

definition extractRemoteInfo :: "http_request \<Rightarrow> string \<times> string" where
  "extractRemoteInfo r =
     (let fwd = takeWhile (\<lambda>c. c \<noteq> CHR '','') (Header_Get (rq_Header r) ''X-Forwarded-For'');
          addr = (if fwd = [] then rq_RemoteAddr r else fwd);
          addr = (if CHR '':'' \<notin> set addr then addr @ '':'' else addr)
      in case SplitHostPort addr of Inl _ \<Rightarrow> ([], []) | Inr hp \<Rightarrow> hp)"

definition toMillis :: "int \<Rightarrow> int" where
  "toMillis timestamp = timestamp sdiv 1000000"

definition log_path :: "http_request \<Rightarrow> string" where
  "log_path r = (if rq_RawQuery r \<noteq> [] then rq_path r @ ''?'' @ rq_RawQuery r else rq_path r)"

definition log_context :: "int \<Rightarrow> string \<Rightarrow> string \<Rightarrow> http_request \<Rightarrow> templateContext" where
  "log_context ts host port r =
     (case extractRemoteInfo r of (remoteHost, remotePort) \<Rightarrow>
        \<lparr>tc_Timestamp = toMillis ts, tc_RequestID = Header_Get (rq_Header r) ''X-Vcap-Request-Id'',
         tc_Path = log_path r, tc_Method = rq_Method r, tc_SourceHost = remoteHost, tc_SourcePort = remotePort,
         tc_DestinationHost = host, tc_DestinationPort = port\<rparr>)"

definition AccessLog_String :: "int \<Rightarrow> string \<Rightarrow> string \<Rightarrow> http_request \<Rightarrow> string" where
  "AccessLog_String ts host port r = Execute setupTemplate (log_context ts host port r)"

section \<open>The logger and the handler\<close>

record log_file =
  lf_text :: string
  lf_faults :: "nat option list"

definition log_Write :: "string \<Rightarrow> log_file \<Rightarrow> (string + unit) \<times> log_file" where
  "log_Write s f =
     (case lf_faults f of
        Some n # fs \<Rightarrow> (Inl ''write'', f\<lparr>lf_text := lf_text f @ take n s, lf_faults := fs\<rparr>)
      | fs \<Rightarrow> (Inr (), f\<lparr>lf_text := lf_text f @ s, lf_faults := tl fs\<rparr>))"

datatype access_logger = DefaultAccessLogger | NullAccessLogger

fun LogAccess ::
  "access_logger \<Rightarrow> int \<Rightarrow> http_request \<Rightarrow> string \<Rightarrow> string \<Rightarrow> log_file \<Rightarrow> (string + unit) \<times> log_file" where
  "LogAccess DefaultAccessLogger now r host port f = log_Write (AccessLog_String now host port r @ [CHR 0x0A]) f"
| "LogAccess NullAccessLogger now r host port f = (Inr (), f)"

record 'h accessHandler =
  ah_handler :: 'h
  ah_accessLogger :: access_logger
  ah_host :: string
  ah_port :: string

definition NewAccessMiddleware :: "access_logger \<Rightarrow> string \<Rightarrow> string \<Rightarrow> 'h \<Rightarrow> 'h accessHandler" where
  "NewAccessMiddleware lg host port h = \<lparr>ah_handler = h, ah_accessLogger = lg, ah_host = host, ah_port = port\<rparr>"

definition NewNullAccessMiddleware :: "'h \<Rightarrow> 'h accessHandler" where
  "NewNullAccessMiddleware h = \<lparr>ah_handler = h, ah_accessLogger = NullAccessLogger, ah_host = [], ah_port = []\<rparr>"

definition AccessHandler_ServeHTTP ::
  "(http_request \<Rightarrow> 's \<Rightarrow> 'r) accessHandler \<Rightarrow> int \<Rightarrow> http_request \<Rightarrow> 's \<times> log_file \<Rightarrow> 'r \<times> log_file" where
  "AccessHandler_ServeHTTP h now r s =
     (case s of (st, f) \<Rightarrow>
        (case LogAccess (ah_accessLogger h) now r (ah_host h) (ah_port h) f of
           (_, f) \<Rightarrow> (ah_handler h r st, f)))"

text \<open>The handler of the proxy: the access log around the authorisation.\<close>

type_synonym ('w, 'k) handler =
  "http_request \<Rightarrow> ('w, 'k) auth_state \<Rightarrow> (response \<times> ('w, 'k) auth_state) outcome"

definition proxy_handler ::
  "(('w, 'k) handler \<Rightarrow> ('w, 'k) handler accessHandler) \<Rightarrow> ('w, 'k) auth_env \<Rightarrow>
   (string list \<Rightarrow> string list) \<Rightarrow> int \<Rightarrow> (int \<times> int) list \<Rightarrow> ('w, 'k) handler accessHandler" where
  "proxy_handler accessMiddleware env ord now clock =
     accessMiddleware (\<lambda>r. Middleware env ord now clock (request.truncate r))"

section \<open>Reading the log\<close>

lemma Execute_append: "Execute (t @ u) ctx = Execute t ctx @ Execute u ctx"
  by (simp add: Execute_def)

lemma Execute_Cons: "Execute (p # t) ctx = exec_piece ctx p @ Execute t ctx"
  by (simp add: Execute_def)

lemma Execute_Nil: "Execute [] ctx = []"
  by (simp add: Execute_def)

lemma Execute_join: "Execute (join_pieces sep ts) ctx = join_with sep (map (\<lambda>t. Execute t ctx) ts)"
  by (induction sep ts rule: join_pieces.induct) (simp_all add: Execute_append Execute_Cons Execute_Nil)

lemma html_escape_append: "html_escape (s @ t) = html_escape s @ html_escape t"
  by (simp add: html_escape_def)

definition html_safe :: "char \<Rightarrow> bool" where
  "html_safe c \<longleftrightarrow> html_char c = [c]"

lemma html_escape_safe: "list_all html_safe s \<Longrightarrow> html_escape s = s"
  by (induction s) (auto simp: html_escape_def html_safe_def)

text \<open>A character that is neither escaped nor used to separate fields or lines.\<close>

definition log_safe :: "char \<Rightarrow> bool" where
  "log_safe c \<longleftrightarrow> html_safe c \<and> c \<noteq> CHR 0x0A \<and> c \<noteq> CHR '' '' \<and> c \<noteq> CHR ''|''"

definition safe_context :: "templateContext \<Rightarrow> bool" where
  "safe_context c \<longleftrightarrow>
     list_all (list_all log_safe) [tc_RequestID c, tc_Path c, tc_Method c, tc_SourceHost c, tc_SourcePort c,
       tc_DestinationHost c, tc_DestinationPort c]"

definition log_words :: "templateContext \<Rightarrow> string list" where
  "log_words c =
     [''rt='' @ format_int (tc_Timestamp c), ''cs1Label=userAuthenticationMechanism'', ''cs1=oauth-access-token'',
      ''cs2Label=vcapRequestId'', ''cs2='' @ tc_RequestID c, ''request='' @ tc_Path c, ''requestMethod='' @ tc_Method c,
      ''src='' @ tc_SourceHost c, ''spt='' @ tc_SourcePort c, ''dst='' @ tc_DestinationHost c, ''dpt='' @ tc_DestinationPort c]"

definition read_log :: "string \<Rightarrow> string list list" where
  "read_log text = map (\<lambda>l. split_at CHR '' '' (last (split_at CHR ''|'' l))) (butlast (split_at CHR 0x0A text))"

lemma log_safe_code:
  "log_safe c \<longleftrightarrow> c \<notin> {CHR 0x00, CHR 0x0A, CHR '' '', CHR 0x22, CHR ''&'', CHR 0x27, CHR ''+'', CHR ''<'', CHR ''>'', CHR ''|''}"
  by (simp add: log_safe_def html_safe_def html_char_def)

lemma log_safe_digit:
  assumes "is_digit c"
  shows "log_safe c"
proof -
  have "list_all (\<lambda>c. \<not> is_digit c)
      [CHR 0x00, CHR 0x0A, CHR '' '', CHR 0x22, CHR ''&'', CHR 0x27, CHR ''+'', CHR ''<'', CHR ''>'', CHR ''|'']"
    by code_simp
  then show ?thesis using assms by (auto simp only: log_safe_code list.pred_inject insert_iff empty_iff)
qed

lemma format_int_safe: "list_all log_safe (format_int n)"
proof -
  have "log_safe CHR ''-''" by code_simp
  moreover have "list_all log_safe (format_uint k)" for k
    using format_uint_digits [of k] by (auto simp: list_all_iff intro: log_safe_digit)
  ultimately show ?thesis by (simp add: format_int_def)
qed

definition plain_word :: "string \<Rightarrow> bool" where
  "plain_word w \<longleftrightarrow> list_all (\<lambda>c. c \<noteq> CHR 0x0A \<and> c \<noteq> CHR '' '' \<and> c \<noteq> CHR ''|'') w"

lemma plain_word_simps:
  "plain_word []" "plain_word (c # w) \<longleftrightarrow> c \<noteq> CHR 0x0A \<and> c \<noteq> CHR '' '' \<and> c \<noteq> CHR ''|'' \<and> plain_word w"
  "plain_word (v @ w) \<longleftrightarrow> plain_word v \<and> plain_word w"
  by (auto simp: plain_word_def)

lemma plain_word_set:
  assumes "plain_word w"
  shows "CHR 0x0A \<notin> set w" "CHR '' '' \<notin> set w" "CHR ''|'' \<notin> set w"
  using assms unfolding plain_word_def list_all_iff by blast+

lemma log_safe_string:
  assumes "list_all log_safe s"
  shows "html_escape s = s" "plain_word s"
proof -
  have "list_all html_safe s" using assms by (rule list.pred_mono_strong) (simp add: log_safe_def)
  then show "html_escape s = s" by (rule html_escape_safe)
  show "plain_word s" unfolding plain_word_def
    using assms by (rule list.pred_mono_strong) (simp add: log_safe_def)
qed

lemma log_words_plain:
  assumes "safe_context c"
  shows "list_all plain_word (log_words c)"
proof -
  have "plain_word (format_int (tc_Timestamp c))" by (rule log_safe_string(2) [OF format_int_safe])
  then show ?thesis
    using assms by (simp add: log_words_def safe_context_def plain_word_simps log_safe_string(2))
qed

lemma log_line:
  assumes "safe_context c"
  shows "Execute setupTemplate c =
    join_with ''|'' [''CEF:0'', ''cloud_foundry'', ''metric_store'', ''1.0'', tc_Method c @ '' '' @ tc_Path c,
      tc_Method c @ '' '' @ tc_Path c, ''0'', join_with '' '' (log_words c)]"
proof -
  have "html_escape (format_int (tc_Timestamp c)) = format_int (tc_Timestamp c)"
    by (rule log_safe_string(1) [OF format_int_safe])
  then have "Execute (join_pieces '' '' extensions) c = join_with '' '' (log_words c)"
    using assms unfolding Execute_join
    by (simp add: extensions_def log_words_def Execute_Cons Execute_Nil safe_context_def log_safe_string(1) del: join_with.simps)
  then show ?thesis
    using assms
    by (simp add: setupTemplate_def Execute_Cons Execute_Nil Execute_join safe_context_def log_safe_string(1))
qed

lemma set_words_join:
  assumes "list_all plain_word ws"
  shows "CHR 0x0A \<notin> set (join_with '' '' ws)" "CHR ''|'' \<notin> set (join_with '' '' ws)"
  using assms plain_word_set set_join_with [of "'' ''" ws] by (fastforce simp: list_all_iff)+

lemma read_line:
  assumes "safe_context c"
  shows "CHR 0x0A \<notin> set (Execute setupTemplate c)"
    and "split_at CHR '' '' (last (split_at CHR ''|'' (Execute setupTemplate c))) = log_words c"
proof -
  let ?ws = "join_with '' '' (log_words c)"
  note w = log_words_plain [OF assms]
  have mp: "plain_word (tc_Method c)" "plain_word (tc_Path c)"
    using assms by (simp_all add: safe_context_def log_safe_string(2))
  show "CHR 0x0A \<notin> set (Execute setupTemplate c)"
    using set_words_join(1) [OF w] plain_word_set(1) [OF mp(1)] plain_word_set(1) [OF mp(2)]
    by (simp add: log_line [OF assms])
  have "list_all (\<lambda>x. CHR ''|'' \<notin> set x)
      [''CEF:0'', ''cloud_foundry'', ''metric_store'', ''1.0'', tc_Method c @ '' '' @ tc_Path c,
       tc_Method c @ '' '' @ tc_Path c, ''0'', ?ws]"
    using set_words_join(2) [OF w] plain_word_set(3) [OF mp(1)] plain_word_set(3) [OF mp(2)] by simp
  then have "last (split_at CHR ''|'' (Execute setupTemplate c)) = ?ws"
    unfolding log_line [OF assms] by (subst split_join) simp_all
  moreover have "list_all (\<lambda>x. CHR '' '' \<notin> set x) (log_words c)"
    using w by (rule list.pred_mono_strong) (rule plain_word_set(2))
  then have "split_at CHR '' '' ?ws = log_words c" by (intro split_join) (simp add: log_words_def)
  ultimately show "split_at CHR '' '' (last (split_at CHR ''|'' (Execute setupTemplate c))) = log_words c" by simp
qed

text \<open>The log after a list of requests, each with its time.\<close>

fun log_all :: "string \<Rightarrow> string \<Rightarrow> (int \<times> http_request) list \<Rightarrow> log_file \<Rightarrow> log_file" where
  "log_all host port [] f = f"
| "log_all host port ((ts, r) # rs) f =
     log_all host port rs (snd (LogAccess DefaultAccessLogger ts r host port f))"

lemma log_all_text:
  assumes "lf_faults f = []"
  shows "lf_text (log_all host port rs f) =
    lf_text f @ concat (map (\<lambda>(ts, r). AccessLog_String ts host port r @ [CHR 0x0A]) rs)"
  using assms by (induction host port rs f rule: log_all.induct) (auto simp: log_Write_def)

lemma split_lines:
  assumes "list_all (\<lambda>l. c \<notin> set l) ls"
  shows "split_at c (concat (map (\<lambda>l. l @ [c]) ls)) = ls @ [[]]"
  using assms by (induction ls) (auto simp: split_at_append split_at_plain)


definition ex_http :: http_request where
  "ex_http = \<lparr>rq_path = ''/api/v1/query'', rq_authorization = [], rq_urlQuery = ''cpu'', rq_body = [],
     rq_Method = ''GET'', rq_RawQuery = ''query=cpu'', rq_RemoteAddr = ''10.0.0.1:80'',
     rq_Header = [(''X-Vcap-Request-Id'', ''id-1''), (''X-Forwarded-For'', ''10.1.1.1, 10.0.0.1'')]\<rparr>"


section \<open>What a request can write\<close>

text \<open>Text around the path of the first occurrence in the line.\<close>

lemma line_around_path:
  "\<exists>pre post. \<forall>c. tc_Method c = m \<longrightarrow>
     Execute setupTemplate c = pre @ html_escape (tc_Path c) @ post c"
  by (intro exI [of _ "''CEF:0|cloud_foundry|metric_store|1.0|'' @ html_escape m @ '' ''"]
        exI [of _ "\<lambda>c. ''|'' @ Execute (join_pieces ''|'' [[Act tc_Method, Lit '' '', Act tc_Path], [Lit ''0''], join_pieces '' '' extensions]) c"])
    (simp add: setupTemplate_def Execute_Cons Execute_Nil Execute_append)

lemma tc_Path_log_context [simp]: "tc_Path (log_context ts host port r) = log_path r"
  by (simp add: log_context_def case_prod_beta)

lemma html_escape_newline: "html_escape (CHR 0x0A # s) = CHR 0x0A # html_escape s"
  by (simp add: html_escape_def html_char_def)


text \<open>The source of a request is the first address of \<open>X-Forwarded-For\<close> (brackets apart): an address
  without a port, or with one. An address with more colons, that is any plain IPv6 address, is
  logged as no host and no port at all.\<close>

theorem forwarded_source:
  assumes "a = takeWhile (\<lambda>c. c \<noteq> CHR '','') (Header_Get (rq_Header r) ''X-Forwarded-For'')" and "a \<noteq> []"
    and "CHR ''['' \<notin> set a" and "CHR '']'' \<notin> set a"
  shows "extractRemoteInfo r =
    (case split_at CHR '':'' a of [h] \<Rightarrow> (h, []) | [h, p] \<Rightarrow> (h, p) | _ \<Rightarrow> ([], []))"
proof (cases "CHR '':'' \<in> set a")
  case False
  then have "SplitHostPort (a @ [CHR '':'']) = Inr (a, [])"
    using assms(3,4) SplitHostPort_pair [of "[]" a] by simp
  with False assms(2) show ?thesis
    by (simp add: extractRemoteInfo_def Let_def assms(1) [symmetric] split_at_plain)
next
  case True
  then obtain h p where a: "a = h @ CHR '':'' # p" "CHR '':'' \<notin> set p" by (meson split_list_last)
  then have s: "SplitHostPort a = (if CHR '':'' \<in> set h then Inl TooManyColons else Inr (h, p))"
    using assms(3,4) by (simp add: SplitHostPort_pair)
  have i: "extractRemoteInfo r = (case SplitHostPort a of Inl _ \<Rightarrow> ([], []) | Inr hp \<Rightarrow> hp)"
    using True assms(2) by (simp add: extractRemoteInfo_def Let_def assms(1) [symmetric])
  show ?thesis
  proof (cases "CHR '':'' \<in> set h")
    case True
    then obtain x y zs where "split_at CHR '':'' h = x # y # zs"
      by (metis split_at_append split_list split_at_neq_Nil append_Cons append_Nil neq_Nil_conv)
    moreover have "split_at CHR '':'' a = split_at CHR '':'' h @ [p]"
      using a by (simp add: split_at_append split_at_plain)
    ultimately show ?thesis using True by (cases zs) (simp_all add: i s)
  next
    case False
    then have "split_at CHR '':'' a = [h, p]" using a by (simp add: split_at_append split_at_plain)
    with False show ?thesis by (simp add: i s)
  qed
qed


theorem forwarded_source_witness:
  "extractRemoteInfo ex_http = (''10.1.1.1'', [])
   \<and> extractRemoteInfo (ex_http\<lparr>rq_Header := [(''X-Forwarded-For'', ''10.1.1.1:99'')]\<rparr>) = (''10.1.1.1'', ''99'')
   \<and> extractRemoteInfo (ex_http\<lparr>rq_Header := [(''X-Forwarded-For'', ''2001:db8::1'')]\<rparr>) = ([], [])"
proof (intro conjI)
  have "''10.1.1.1'' = takeWhile (\<lambda>c. c \<noteq> CHR '','') (Header_Get (rq_Header ex_http) ''X-Forwarded-For'')" by code_simp
  from forwarded_source [OF this] show "extractRemoteInfo ex_http = (''10.1.1.1'', [])" by simp
  let ?r = "ex_http\<lparr>rq_Header := [(''X-Forwarded-For'', ''10.1.1.1:99'')]\<rparr>"
  have "''10.1.1.1:99'' = takeWhile (\<lambda>c. c \<noteq> CHR '','') (Header_Get (rq_Header ?r) ''X-Forwarded-For'')" by code_simp
  from forwarded_source [OF this] show "extractRemoteInfo ?r = (''10.1.1.1'', ''99'')" by simp
  let ?r = "ex_http\<lparr>rq_Header := [(''X-Forwarded-For'', ''2001:db8::1'')]\<rparr>"
  have "''2001:db8::1'' = takeWhile (\<lambda>c. c \<noteq> CHR '','') (Header_Get (rq_Header ?r) ''X-Forwarded-For'')" by code_simp
  from forwarded_source [OF this] show "extractRemoteInfo ?r = ([], [])" by simp
qed

end
