(* ===== verification/Durations.thy ===== *)
theory Durations
  imports Go_Prelude
begin

text \<open>
  Durations of the rules client (\<^verbatim>\<open>rulesclient/rule_group.go\<close>): the type \<open>Duration\<close>, its
  printing \<open>String\<close> and its JSON form, with \<open>time.ParseDuration\<close> of Go's library, which reads
  that form back. JSON documents are trees (\<open>json\<close>); their textual syntax is not modelled.
  The one floating point product of \<open>ParseDuration\<close>, for the digits after a decimal
  point, is the argument \<open>fmul\<close>: \<open>fmul f unit scale\<close> stands for
  \<open>int64(float64(f) * (float64(unit) / scale))\<close>. The theory shows which durations survive being
  printed and parsed.
\<close>

section \<open>JSON documents\<close>

datatype json =
    JNull | JBool bool | JNum real | JStr string | JArr "json list" | JObj "(string \<times> json) list"

section \<open>time.ParseDuration\<close>

type_synonym fmul = "int \<Rightarrow> int \<Rightarrow> int \<Rightarrow> int"

text \<open>The value and the rest of the input; \<open>None\<close>: the value does not fit in an \<open>int64\<close>.\<close>

fun leadingInt :: "int \<Rightarrow> string \<Rightarrow> (int \<times> string) option" where
  "leadingInt x [] = Some (x, [])"
| "leadingInt x (c # s) =
     (if \<not> is_digit c then Some (x, c # s)
      else if (2 ^ 63 - 1) div 10 < x then None
      else let x' = i64 (x * 10 + int (digit_value c))
           in if x' < 0 then None else leadingInt x' s)"

text \<open>Digits that no longer fit in an \<open>int64\<close> are skipped.\<close>

fun leadingFraction :: "bool \<Rightarrow> int \<Rightarrow> int \<Rightarrow> string \<Rightarrow> int \<times> int \<times> string" where
  "leadingFraction overflow x scale [] = (x, scale, [])"
| "leadingFraction overflow x scale (c # s) =
     (if \<not> is_digit c then (x, scale, c # s)
      else if overflow \<or> (2 ^ 63 - 1) div 10 < x then leadingFraction True x scale s
      else let y = i64 (x * 10 + int (digit_value c))
           in if y < 0 then leadingFraction True x scale s
              else leadingFraction False y (scale * 10) s)"

definition unitMap :: "string \<Rightarrow> int option" where
  "unitMap = map_of
     [(''ns'', 1), (''us'', 1000), ([CHR 0xC2, CHR 0xB5, CHR ''s''], 1000),
      ([CHR 0xCE, CHR 0xBC, CHR ''s''], 1000), (''ms'', 1000000), (''s'', 1000000000),
      (''m'', 60 * 1000000000), (''h'', 3600 * 1000000000)]"

definition unit_char :: "char \<Rightarrow> bool" where
  "unit_char c \<longleftrightarrow> c \<noteq> CHR ''.'' \<and> \<not> is_digit c"

text \<open>One round of the loop: the nanoseconds of the first number with its unit, and the rest.\<close>

definition parse_term :: "fmul \<Rightarrow> string \<Rightarrow> (int \<times> string) option" where
  "parse_term fmul s =
     (if \<not> (hd s = CHR ''.'' \<or> is_digit (hd s)) then None
      else case leadingInt 0 s of
        None \<Rightarrow> None
      | Some (v, s1) \<Rightarrow>
          let pre = length s1 \<noteq> length s;
              dot = (s1 \<noteq> [] \<and> hd s1 = CHR ''.'');
              (f, scale, s2) = (if dot then leadingFraction False 0 1 (tl s1) else (0, 1, s1));
              post = (dot \<and> length s2 \<noteq> length (tl s1));
              u = takeWhile unit_char s2;
              rest = dropWhile unit_char s2
          in if \<not> pre \<and> \<not> post then None
             else if u = [] then None
             else case unitMap u of
               None \<Rightarrow> None
             | Some unit \<Rightarrow>
                 if (2 ^ 63 - 1) div unit < v then None
                 else let v = v * unit;
                          v = (if 0 < f then i64 (v + fmul f unit scale) else v)
                      in if v < 0 then None else Some (v, rest))"

lemma leadingInt_length: "leadingInt x s = Some (v, r) \<Longrightarrow> length r \<le> length s"
  by (induction x s rule: leadingInt.induct) (auto simp: Let_def split: if_splits)

lemma leadingFraction_length:
  "leadingFraction ov x sc s = (v, sc', r) \<Longrightarrow> length r \<le> length s"
  by (induction ov x sc s rule: leadingFraction.induct) (auto simp: Let_def split: if_splits)

lemma parse_term_length:
  assumes "parse_term fmul s = Some (v, rest)"
  shows "length rest < length s"
proof -
  obtain w s1 where 1: "leadingInt 0 s = Some (w, s1)"
    using assms by (auto simp: parse_term_def split: if_splits option.splits)
  obtain f sc s2 where 2: "(if s1 \<noteq> [] \<and> hd s1 = CHR ''.'' then leadingFraction False 0 1 (tl s1)
       else (0, 1, s1)) = (f, sc, s2)"
    by (metis prod.collapse)
  have r: "rest = dropWhile unit_char s2" and u: "takeWhile unit_char s2 \<noteq> []"
    using assms 1 2 by (auto simp: parse_term_def Let_def split: if_splits option.splits)
  have "length s2 \<le> length s1"
    using 2 leadingFraction_length [of False 0 1 "tl s1"]
    by (auto split: if_splits)
  moreover have "length s1 \<le> length s"
    using 1 by (rule leadingInt_length)
  moreover have "length rest < length s2"
    using u r by (metis length_append length_greater_0_conv less_add_same_cancel2 takeWhile_dropWhile_id)
  ultimately show ?thesis by simp
qed

text \<open>The loop over the terms of a duration; \<open>d\<close> is the sum so far.\<close>

function parse_terms :: "fmul \<Rightarrow> int \<Rightarrow> string \<Rightarrow> int option" where
  "parse_terms fmul d s =
     (if s = [] then Some d
      else case parse_term fmul s of
        None \<Rightarrow> None
      | Some (v, rest) \<Rightarrow>
          let d = i64 (d + v) in if d < 0 then None else parse_terms fmul d rest)"
  by pat_completeness auto
termination
  by (relation "measure (\<lambda>(fmul, d, s). length s)") (auto dest: parse_term_length)

declare parse_terms.simps [simp del]

definition ParseDuration :: "fmul \<Rightarrow> string \<Rightarrow> int option" where
  "ParseDuration fmul s =
     (let neg = (s \<noteq> [] \<and> hd s = CHR ''-'');
          s = (if s \<noteq> [] \<and> (hd s = CHR ''-'' \<or> hd s = CHR ''+'') then tl s else s)
      in if s = ''0'' then Some 0
         else if s = [] then None
         else map_option (\<lambda>d. if neg then i64 (- d) else d) (parse_terms fmul 0 s))"

section \<open>Duration\<close>

text \<open>\<open>Duration\<close> is an \<open>int64\<close> of nanoseconds.\<close>

definition duration_unit :: "int \<Rightarrow> string \<times> int" where
  "duration_unit ms =
     (if ms mod (1000 * 60 * 60 * 24 * 365) = 0 then (''y'', 1000 * 60 * 60 * 24 * 365)
      else if ms mod (1000 * 60 * 60 * 24 * 7) = 0 then (''w'', 1000 * 60 * 60 * 24 * 7)
      else if ms mod (1000 * 60 * 60 * 24) = 0 then (''d'', 1000 * 60 * 60 * 24)
      else if ms mod (1000 * 60 * 60) = 0 then (''h'', 1000 * 60 * 60)
      else if ms mod (1000 * 60) = 0 then (''m'', 1000 * 60)
      else if ms mod 1000 = 0 then (''s'', 1000)
      else (''ms'', 1))"

definition Duration_String :: "int \<Rightarrow> string" where
  "Duration_String d =
     (let ms = d sdiv 1000000
      in if ms = 0 then ''0s''
         else let (unit, factor) = duration_unit ms in format_int (ms sdiv factor) @ unit)"

definition Duration_MarshalJSON :: "int \<Rightarrow> json" where
  "Duration_MarshalJSON d = JStr (Duration_String d)"

text \<open>Go's conversion of a float to an \<open>int64\<close> truncates; out of range, amd64 gives \<open>-2^63\<close>.\<close>

definition float_to_int64 :: "real \<Rightarrow> int" where
  "float_to_int64 x =
     (let n = (if 0 \<le> x then floor x else ceiling x) in if int64_range n then n else - (2 ^ 63))"

definition Duration_UnmarshalJSON :: "fmul \<Rightarrow> json \<Rightarrow> int option" where
  "Duration_UnmarshalJSON fmul j =
     (case j of
        JNum x \<Rightarrow> Some (float_to_int64 x)
      | JStr s \<Rightarrow> ParseDuration fmul s
      | _ \<Rightarrow> None)"

section \<open>Printing and parsing\<close>

lemma foldl_decimal_ge:
  "0 \<le> x \<Longrightarrow> x \<le> foldl (\<lambda>a c. a * 10 + int (digit_value c)) x ds"
proof (induction ds arbitrary: x)
  case (Cons c ds)
  have "x \<le> x * 10 + int (digit_value c)" using Cons.prems by simp
  also have "\<dots> \<le> foldl (\<lambda>a c. a * 10 + int (digit_value c)) x (c # ds)"
    using Cons.IH [of "x * 10 + int (digit_value c)"] Cons.prems by simp
  finally show ?case .
qed simp

lemma leadingInt_digits:
  assumes "list_all is_digit ds" and "r = [] \<or> \<not> is_digit (hd r)" and "0 \<le> x"
    and "foldl (\<lambda>a c. a * 10 + int (digit_value c)) x ds < 2 ^ 63"
  shows "leadingInt x (ds @ r) = Some (foldl (\<lambda>a c. a * 10 + int (digit_value c)) x ds, r)"
  using assms
proof (induction ds arbitrary: x)
  case Nil
  then show ?case by (cases r) auto
next
  case (Cons c ds)
  let ?y = "x * 10 + int (digit_value c)"
  have "?y \<le> foldl (\<lambda>a c. a * 10 + int (digit_value c)) ?y ds"
    using Cons.prems(3) by (intro foldl_decimal_ge) simp
  with Cons.prems have y: "0 \<le> ?y" "?y < 2 ^ 63" by simp_all
  then have "i64 ?y = ?y" and "\<not> (2 ^ 63 - 1) div 10 < x"
    using Cons.prems(3) by (simp_all add: i64_id)
  with y Cons show ?case by (simp add: Let_def)
qed

lemma unit_char_digit: "unit_char c \<Longrightarrow> \<not> is_digit c \<and> c \<noteq> CHR ''.''"
  by (simp add: unit_char_def)

lemma leadingInt_format:
  assumes "int n < 2 ^ 63" and "u \<noteq> []" and "list_all unit_char u"
  shows "leadingInt 0 (format_uint n @ u) = Some (int n, u)"
proof -
  have "\<not> is_digit (hd u)"
    using assms(2,3) by (cases u) (auto simp: unit_char_def)
  moreover have "foldl (\<lambda>a c. a * 10 + int (digit_value c)) 0 (format_uint n) = int n"
    using decimal_value_format_uint [of n] by (simp only: decimal_value_def)
  ultimately show ?thesis
    using leadingInt_digits [of "format_uint n" u 0] assms(1) by (simp add: format_uint_digits)
qed

lemma parse_term_format:
  assumes "int n < 2 ^ 63" and "u \<noteq> []" and "list_all unit_char u"
    and "case unitMap u of Some k \<Rightarrow> 0 < k \<and> int n * k < 2 ^ 63 | None \<Rightarrow> True"
  shows "parse_term fmul (format_uint n @ u) = map_option (\<lambda>k. (int n * k, [])) (unitMap u)"
proof -
  have hd: "is_digit (hd (format_uint n @ u))"
    using format_uint_digits [of n] by (cases "format_uint n") auto
  have dot: "hd u \<noteq> CHR ''.''"
    using assms(2,3) by (cases u) (auto simp: unit_char_def)
  have u: "takeWhile unit_char u = u" "dropWhile unit_char u = []"
    using assms(3) by (simp_all add: takeWhile_eq_all_conv dropWhile_eq_Nil_conv list_all_iff)
  have le: "int n \<le> (2 ^ 63 - 1) div k" if "unitMap u = Some k" for k
    using assms(4) that zdiv_mono1 [of "int n * k" "2 ^ 63 - 1" k] by simp
  have pos: "\<not> int n * k < 0" if "unitMap u = Some k" for k
    using assms(4) that by (simp add: mult_less_0_iff)
  show ?thesis
    using hd dot assms(2) le
    by (cases "unitMap u") (auto simp: parse_term_def leadingInt_format [OF assms(1-3)] u pos Let_def)
qed

lemma ParseDuration_format:
  assumes "\<bar>m\<bar> < 2 ^ 63" and "u \<noteq> []" and "list_all unit_char u"
    and "case unitMap u of Some k \<Rightarrow> 0 < k \<and> \<bar>m\<bar> * k < 2 ^ 63 | None \<Rightarrow> True"
  shows "ParseDuration fmul (format_int m @ u) = map_option (\<lambda>k. m * k) (unitMap u)"
proof -
  define n where "n = nat \<bar>m\<bar>"
  have n: "int n = \<bar>m\<bar>" by (simp add: n_def)
  obtain c ds where ds: "format_uint n = c # ds" and c: "is_digit c"
    using format_uint_digits [of n] by (cases "format_uint n") auto
  have sign: "c \<noteq> CHR ''-''" "c \<noteq> CHR ''+''"
    using c by (auto simp: is_digit_def)
  have "parse_term fmul (format_uint n @ u) = map_option (\<lambda>k. (int n * k, [])) (unitMap u)"
    using assms(4) by (intro parse_term_format) (simp_all only: n assms(1-3) not_False_eq_True)
  moreover have id: "i64 (\<bar>m\<bar> * k) = \<bar>m\<bar> * k" "0 \<le> \<bar>m\<bar> * k" if "unitMap u = Some k" for k
    using assms(4) that by (auto intro!: i64_id intro: order_trans [of _ 0])
  ultimately have t: "parse_terms fmul 0 (format_uint n @ u) = map_option (\<lambda>k. int n * k) (unitMap u)"
    using assms(2,4)
    by (cases "unitMap u") (simp_all add: parse_terms.simps [of fmul 0] parse_terms.simps [of fmul _ "[]"]
        n id Let_def linorder_not_less)
  have "is_digit CHR ''0''" by (simp add: is_digit_def)
  then have "format_uint n @ u \<noteq> ''0''"
    using assms(2,3) by (auto simp: append_eq_Cons_conv unit_char_def)
  moreover have "format_int m = (if m < 0 then CHR ''-'' # c # ds else c # ds)"
    using ds by (simp add: format_int_def n_def abs_if split: if_splits)
  moreover have "i64 (- (int n * k)) = - (int n * k)" if "unitMap u = Some k" for k
  proof (rule i64_id)
    have "0 \<le> \<bar>m\<bar> * k" "\<bar>m\<bar> * k < 2 ^ 63" using assms(4) that by simp_all
    then show "- (2 ^ 63) \<le> - (int n * k)" "- (int n * k) < 2 ^ 63" by (simp_all add: n)
  qed
  ultimately show ?thesis
    using t ds sign by (cases "unitMap u") (auto simp: ParseDuration_def n)
qed

lemma abs_sdiv: "0 < b \<Longrightarrow> \<bar>(a :: int) sdiv b\<bar> = \<bar>a\<bar> div b"
  by (cases "a = 0") (simp_all add: signed_divide_int_def abs_mult abs_sgn_eq pos_imp_zdiv_nonneg_iff)

lemma sdiv_exact: "0 < b \<Longrightarrow> b dvd a \<Longrightarrow> (a :: int) sdiv b * b = a"
  using sdiv_mult_cancel [of b] by (auto elim!: dvdE simp: mult.commute [of b])

text \<open>The unit \<open>String\<close> picks divides the milliseconds; it is one \<open>ParseDuration\<close> knows exactly
  when they are not whole days.\<close>

lemma duration_unit_cases:
  obtains u f where "duration_unit ms = (u, f)" and "0 < f" and "f dvd ms" and "u \<noteq> []"
    and "list_all unit_char u"
    and "unitMap u = (if 86400000 dvd ms then None else Some (f * 1000000))"
proof -
  have day: "\<not> 604800000 dvd ms" "\<not> 31536000000 dvd ms" if "\<not> 86400000 dvd ms"
    using that dvd_trans [of 86400000 604800000 ms] dvd_trans [of 86400000 31536000000 ms] by auto
  consider "31536000000 dvd ms" "86400000 dvd ms"
    | "\<not> 31536000000 dvd ms" "604800000 dvd ms" "86400000 dvd ms"
    | "\<not> 31536000000 dvd ms" "\<not> 604800000 dvd ms" "86400000 dvd ms"
    | "\<not> 31536000000 dvd ms" "\<not> 604800000 dvd ms" "\<not> 86400000 dvd ms"
    using day by blast
  then show thesis
  proof cases
    case 4
    then show thesis
      by (cases "3600000 dvd ms"; cases "60000 dvd ms"; cases "1000 dvd ms";
          intro that [of "fst (duration_unit ms)" "snd (duration_unit ms)"];
          simp add: duration_unit_def unitMap_def unit_char_def is_digit_def flip: dvd_eq_mod_eq_0)
  qed (rule that [of "fst (duration_unit ms)" "snd (duration_unit ms)"];
      simp add: duration_unit_def unitMap_def unit_char_def is_digit_def flip: dvd_eq_mod_eq_0)+
qed

lemma digit_char_0: "digit_char 0 = CHR ''0''"
  by code_simp

lemma ParseDuration_String:
  assumes "int64_range d"
  shows "ParseDuration fmul (Duration_String d) =
    (if d sdiv 1000000 \<noteq> 0 \<and> 86400000 dvd d sdiv 1000000 then None
     else Some (d sdiv 1000000 * 1000000))"
proof -
  define ms where "ms = d sdiv 1000000"
  have bound: "\<bar>ms\<bar> * 1000000 < 2 ^ 63"
  proof -
    have "\<bar>ms\<bar> = \<bar>d\<bar> div 1000000" by (simp add: ms_def abs_sdiv)
    moreover have "\<bar>d\<bar> \<le> 2 ^ 63" using assms by linarith
    ultimately have "\<bar>ms\<bar> \<le> 2 ^ 63 div 1000000"
      using zdiv_mono1 [of "\<bar>d\<bar>" "2 ^ 63" 1000000] by simp
    then show ?thesis by simp
  qed
  show ?thesis
  proof (cases "ms = 0")
    case True
    have "Duration_String d = format_int 0 @ ''s''"
      using True by (simp add: Duration_String_def ms_def format_int_def format_uint.simps digit_char_0)
    moreover have "ParseDuration fmul (format_int 0 @ ''s'') = Some 0"
      by (subst ParseDuration_format) (simp_all add: unitMap_def unit_char_def is_digit_def)
    ultimately show ?thesis using True by (simp add: ms_def)
  next
    case False
    obtain u f where u: "duration_unit ms = (u, f)" "0 < f" "f dvd ms" "u \<noteq> []" "list_all unit_char u"
      and unit: "unitMap u = (if 86400000 dvd ms then None else Some (f * 1000000))"
      by (rule duration_unit_cases)
    have exact: "ms sdiv f * f = ms" using u(2,3) by (rule sdiv_exact)
    have m: "\<bar>ms sdiv f\<bar> * f = \<bar>ms\<bar>"
      by (metis exact abs_mult abs_of_pos u(2))
    then have "\<bar>ms sdiv f\<bar> \<le> \<bar>ms\<bar>"
      using mult_left_mono [of 1 f "\<bar>ms sdiv f\<bar>"] u(2) by simp
    then have "ParseDuration fmul (format_int (ms sdiv f) @ u) = map_option (\<lambda>k. ms sdiv f * k) (unitMap u)"
      using u unit bound m
      by (intro ParseDuration_format) (simp_all add: mult.assoc [symmetric])
    moreover have "Duration_String d = format_int (ms sdiv f) @ u"
      using False u(1) by (simp add: Duration_String_def ms_def Let_def)
    moreover have "ms sdiv f * (f * 1000000) = ms * 1000000"
      by (simp add: mult.assoc [symmetric] exact)
    ultimately show ?thesis
      using False unit by (simp add: ms_def)
  qed
qed

text \<open>C31: The interval of a rule group, sent as JSON (\<open>MarshalJSON\<close>) and read back
  (\<open>UnmarshalJSON\<close>), comes back as whole milliseconds, rounded toward zero. An interval of
  whole days does not come back at all: \<open>String\<close> prints it in days, weeks or years, units
  which \<open>time.ParseDuration\<close> does not know, so that reading it is an error.\<close>

theorem duration_json_roundtrip:
  assumes "int64_range d"
  shows "Duration_UnmarshalJSON fmul (Duration_MarshalJSON d) =
    (if d sdiv 1000000 \<noteq> 0 \<and> 86400000 dvd d sdiv 1000000 then None
     else Some (d sdiv 1000000 * 1000000))"
  using ParseDuration_String [OF assms]
  by (simp add: Duration_UnmarshalJSON_def Duration_MarshalJSON_def)

theorem duration_json_roundtrip_witness:
  "Duration_UnmarshalJSON (\<lambda>f u s. 0) (Duration_MarshalJSON 90000000000) = Some 90000000000
   \<and> Duration_UnmarshalJSON (\<lambda>f u s. 0) (Duration_MarshalJSON 86400000000000) = None"
  using duration_json_roundtrip [of 90000000000 "\<lambda>f u s. 0"]
    duration_json_roundtrip [of 86400000000000 "\<lambda>f u s. 0"]
  by (simp add: signed_divide_int_def)

end
