(* ===== verification/Dir_Tree.thy ===== *)
theory Dir_Tree
  imports Go_Prelude "HOL-Library.Sublist"
begin

text \<open>
  The part of Go's \<open>os\<close>, \<open>io/ioutil\<close> and \<open>path/filepath\<close> packages that the rule managers and
  the scrape store use: a tree of directories and files, with \<open>Join\<close>, \<open>Stat\<close>, \<open>Mkdir\<close>,
  \<open>WriteFile\<close>, \<open>ReadFile\<close>, \<open>ReadDir\<close> and \<open>RemoveAll\<close>. A path is the list of the names of a
  cleaned absolute path, the root directory is the empty path. Every call can fail: \<open>fs_faults\<close>
  lists what happens to the calls to come, as in \<^verbatim>\<open>Os_File\<close>; an empty list means
  that no further call fails.
\<close>

section \<open>Paths\<close>

type_synonym path = "string list"

fun split_slash :: "string \<Rightarrow> string list" where
  "split_slash [] = [[]]"
| "split_slash (c # s) =
     (if c = CHR ''/'' then [] # split_slash s
      else case split_slash s of [] \<Rightarrow> [[c]] | n # ns \<Rightarrow> (c # n) # ns)"

text \<open>\<open>filepath.Clean\<close>, one name after the other: the empty name and \<open>.\<close> are dropped, \<open>..\<close>
  leaves the directory (the root has no parent).\<close>

definition clean_step :: "path \<Rightarrow> string \<Rightarrow> path" where
  "clean_step p n =
     (if n = [] \<or> n = ''.'' then p else if n = ''..'' then butlast p else p @ [n])"

definition Join :: "path \<Rightarrow> string \<Rightarrow> path" where
  "Join p s = foldl clean_step p (split_slash s)"

definition path_string :: "path \<Rightarrow> string" where
  "path_string p = (if p = [] then ''/'' else concat (map (\<lambda>n. CHR ''/'' # n) p))"

text \<open>A name that \<open>Join\<close> appends as it is.\<close>

definition plain_name :: "string \<Rightarrow> bool" where
  "plain_name n \<longleftrightarrow> n \<noteq> [] \<and> n \<noteq> ''.'' \<and> n \<noteq> ''..'' \<and> CHR ''/'' \<notin> set n"

section \<open>The tree\<close>

datatype errno = ENOENT | EEXIST | ENOTDIR | EISDIR | EIO

datatype path_error = PathError string path errno

datatype fentry = FFile string | FDir

record fs =
  fs_entries :: "(path \<times> fentry) list"
  fs_faults :: "nat option list"

definition entry :: "fs \<Rightarrow> path \<Rightarrow> fentry option" where
  "entry w p = (if p = [] then Some FDir else map_of (fs_entries w) p)"

definition set_entry :: "path \<Rightarrow> fentry \<Rightarrow> fs \<Rightarrow> fs" where
  "set_entry p e w = w\<lparr>fs_entries := AList.update p e (fs_entries w)\<rparr>"

definition fs_fault :: "fs \<Rightarrow> nat option \<times> fs" where
  "fs_fault w = (case fs_faults w of [] \<Rightarrow> (None, w) | f # fs \<Rightarrow> (f, w\<lparr>fs_faults := fs\<rparr>))"

text \<open>The error of walking to the directory that holds \<open>p\<close>: the first directory on the way that
  is missing or is a file.\<close>

definition walk_error :: "fs \<Rightarrow> path \<Rightarrow> errno option" where
  "walk_error w p =
     (case find (\<lambda>q. entry w q \<noteq> Some FDir) (butlast (prefixes p)) of
        None \<Rightarrow> None
      | Some q \<Rightarrow> Some (if entry w q = None then ENOENT else ENOTDIR))"

section \<open>Calls\<close>

definition os_Stat :: "path \<Rightarrow> fs \<Rightarrow> (path_error + fentry) \<times> fs" where
  "os_Stat p w =
     (case fs_fault w of
        (Some _, w) \<Rightarrow> (Inl (PathError ''stat'' p EIO), w)
      | (None, w) \<Rightarrow>
          (case walk_error w p of
             Some e \<Rightarrow> (Inl (PathError ''stat'' p e), w)
           | None \<Rightarrow> (case entry w p of
                        None \<Rightarrow> (Inl (PathError ''stat'' p ENOENT), w)
                      | Some f \<Rightarrow> (Inr f, w))))"

fun os_IsNotExist :: "path_error \<Rightarrow> bool" where
  "os_IsNotExist (PathError _ _ e) = (e = ENOENT)"

definition os_Mkdir :: "path \<Rightarrow> fs \<Rightarrow> (path_error + unit) \<times> fs" where
  "os_Mkdir p w =
     (case fs_fault w of
        (Some _, w) \<Rightarrow> (Inl (PathError ''mkdir'' p EIO), w)
      | (None, w) \<Rightarrow>
          (case walk_error w p of
             Some e \<Rightarrow> (Inl (PathError ''mkdir'' p e), w)
           | None \<Rightarrow> (case entry w p of
                        Some _ \<Rightarrow> (Inl (PathError ''mkdir'' p EEXIST), w)
                      | None \<Rightarrow> (Inr (), set_entry p FDir w))))"

text \<open>\<open>ioutil.WriteFile\<close> opens the file, emptying it, and writes. \<open>Some 0\<close>: it cannot be
  opened; \<open>Some (k + 1)\<close>: only the first \<open>k\<close> bytes are written.\<close>

definition ioutil_WriteFile :: "path \<Rightarrow> string \<Rightarrow> fs \<Rightarrow> (path_error + unit) \<times> fs" where
  "ioutil_WriteFile p c w =
     (case fs_fault w of
        (Some 0, w) \<Rightarrow> (Inl (PathError ''open'' p EIO), w)
      | (f, w) \<Rightarrow>
          (case walk_error w p of
             Some e \<Rightarrow> (Inl (PathError ''open'' p e), w)
           | None \<Rightarrow>
               if entry w p = Some FDir then (Inl (PathError ''open'' p EISDIR), w)
               else case f of
                      None \<Rightarrow> (Inr (), set_entry p (FFile c) w)
                    | Some k \<Rightarrow> (Inl (PathError ''write'' p EIO),
                                 set_entry p (FFile (take (k - 1) c)) w)))"

definition ioutil_ReadFile :: "path \<Rightarrow> fs \<Rightarrow> (path_error + string) \<times> fs" where
  "ioutil_ReadFile p w =
     (case fs_fault w of
        (Some _, w) \<Rightarrow> (Inl (PathError ''open'' p EIO), w)
      | (None, w) \<Rightarrow>
          (case walk_error w p of
             Some e \<Rightarrow> (Inl (PathError ''open'' p e), w)
           | None \<Rightarrow> (case entry w p of
                        None \<Rightarrow> (Inl (PathError ''open'' p ENOENT), w)
                      | Some FDir \<Rightarrow> (Inl (PathError ''read'' p EISDIR), w)
                      | Some (FFile c) \<Rightarrow> (Inr c, w))))"

text \<open>\<open>ioutil.ReadDir\<close>: the names in a directory, sorted.\<close>

definition dir_names :: "fs \<Rightarrow> path \<Rightarrow> string list" where
  "dir_names w d =
     sort (remdups (map last (filter (\<lambda>p. p \<noteq> [] \<and> butlast p = d) (map fst (fs_entries w)))))"

definition ioutil_ReadDir :: "path \<Rightarrow> fs \<Rightarrow> (path_error + string list) \<times> fs" where
  "ioutil_ReadDir p w =
     (case fs_fault w of
        (Some _, w) \<Rightarrow> (Inl (PathError ''open'' p EIO), w)
      | (None, w) \<Rightarrow>
          (case walk_error w p of
             Some e \<Rightarrow> (Inl (PathError ''open'' p e), w)
           | None \<Rightarrow> (case entry w p of
                        None \<Rightarrow> (Inl (PathError ''open'' p ENOENT), w)
                      | Some (FFile _) \<Rightarrow> (Inl (PathError ''readdirent'' p ENOTDIR), w)
                      | Some FDir \<Rightarrow> (Inr (dir_names w p), w))))"

text \<open>\<open>os.RemoveAll\<close> removes \<open>p\<close> and everything below it; a path that does not exist is no
  error. When it fails, some of the entries may be gone, those deepest in the tree first.\<close>

definition below :: "fs \<Rightarrow> path \<Rightarrow> path list" where
  "below w p = rev (sort_key length (filter (prefix p) (map fst (fs_entries w))))"

definition drop_entries :: "path set \<Rightarrow> fs \<Rightarrow> fs" where
  "drop_entries P w = w\<lparr>fs_entries := filter (\<lambda>e. fst e \<notin> P) (fs_entries w)\<rparr>"

definition os_RemoveAll :: "path \<Rightarrow> fs \<Rightarrow> (path_error + unit) \<times> fs" where
  "os_RemoveAll p w =
     (case fs_fault w of
        (Some k, w) \<Rightarrow> (Inl (PathError ''unlinkat'' p EIO), drop_entries (set (take k (below w p))) w)
      | (None, w) \<Rightarrow>
          (case walk_error w p of
             Some ENOENT \<Rightarrow> (Inr (), w)
           | Some e \<Rightarrow> (Inl (PathError ''unlinkat'' p e), w)
           | None \<Rightarrow> (Inr (), drop_entries (set (below w p)) w)))"

section \<open>Laws\<close>

named_theorems fs_simps \<open>calls on a tree when none fails\<close>

lemma entry_set_entry:
  "p \<noteq> [] \<Longrightarrow> entry (set_entry p e w) q = (if q = p then Some e else entry w q)"
  by (simp add: entry_def set_entry_def update_conv')

lemma entry_drop_entries:
  "entry (drop_entries P w) q = (if q \<noteq> [] \<and> q \<in> P then None else entry w q)"
proof -
  have "map_of (filter (\<lambda>e. fst e \<notin> P) es) q = (if q \<in> P then None else map_of es q)" for es :: "(path \<times> fentry) list"
    by (induction es) auto
  then show ?thesis by (simp add: entry_def drop_entries_def)
qed

lemma entry_remove_below:
  "entry (drop_entries (set (below w p)) w) q = (if q \<noteq> [] \<and> prefix p q then None else entry w q)"
proof -
  have "entry w q = None" if "q \<noteq> []" "q \<notin> set (below w p)" "prefix p q"
    using that by (auto simp: below_def entry_def map_of_eq_None_iff)
  moreover have "prefix p q" if "q \<in> set (below w p)"
    using that by (simp add: below_def)
  ultimately show ?thesis by (auto simp: entry_drop_entries)
qed

lemma fs_fields [simp]:
  "fs_faults (set_entry p e w) = fs_faults w" "fs_faults (drop_entries P w) = fs_faults w"
  by (simp_all add: set_entry_def drop_entries_def)

lemma fs_fault_none [fs_simps]: "fs_faults w = [] \<Longrightarrow> fs_fault w = (None, w)"
  by (simp add: fs_fault_def)

text \<open>All the directories of a path are there.\<close>

definition dir_ok :: "fs \<Rightarrow> path \<Rightarrow> bool" where
  "dir_ok w d \<longleftrightarrow> (\<forall>q \<in> set (prefixes d). entry w q = Some FDir)"

lemma walk_error_dir: "walk_error w (d @ [n]) = None \<longleftrightarrow> dir_ok w d"
proof -
  have "butlast (prefixes (d @ [n])) = prefixes d" by (simp add: prefixes_snoc)
  then have "walk_error w (d @ [n]) = None \<longleftrightarrow> find (\<lambda>q. entry w q \<noteq> Some FDir) (prefixes d) = None"
    by (simp add: walk_error_def split: option.splits)
  then show ?thesis by (auto simp: dir_ok_def find_None_iff)
qed

lemma dir_ok_snoc: "dir_ok w (d @ [n]) \<longleftrightarrow> dir_ok w d \<and> entry w (d @ [n]) = Some FDir"
  by (auto simp: dir_ok_def prefixes_snoc)

lemma dir_ok_entry: "dir_ok w d \<Longrightarrow> entry w d = Some FDir"
  by (simp add: dir_ok_def)

text \<open>Writing a file or making a directory in a directory, or removing it, keeps the others.\<close>

lemma dir_ok_set_entry:
  assumes "dir_ok w d" and "p \<noteq> []" and "\<not> prefix p d \<or> e = FDir"
  shows "dir_ok (set_entry p e w) d"
  using assms by (auto simp: dir_ok_def entry_set_entry)

lemma dir_ok_remove:
  assumes "dir_ok w d" and "\<not> prefix p d"
  shows "dir_ok (drop_entries (set (below w p)) w) d"
  using assms prefix_order.trans by (fastforce simp: dir_ok_def entry_remove_below)

lemma split_slash_plain: "CHR ''/'' \<notin> set n \<Longrightarrow> split_slash n = [n]"
  by (induction n) auto

lemma Join_plain: "plain_name n \<Longrightarrow> Join p n = p @ [n]"
  by (simp add: plain_name_def Join_def split_slash_plain clean_step_def)

lemma os_Stat_ok [fs_simps]:
  "fs_faults w = [] \<Longrightarrow> dir_ok w d \<Longrightarrow>
     os_Stat (d @ [n]) w =
       (case entry w (d @ [n]) of None \<Rightarrow> Inl (PathError ''stat'' (d @ [n]) ENOENT) | Some f \<Rightarrow> Inr f, w)"
  by (simp add: os_Stat_def fs_simps walk_error_dir [THEN iffD2] split: option.splits)

lemma os_Mkdir_ok [fs_simps]:
  "fs_faults w = [] \<Longrightarrow> dir_ok w d \<Longrightarrow> entry w (d @ [n]) = None \<Longrightarrow>
     os_Mkdir (d @ [n]) w = (Inr (), set_entry (d @ [n]) FDir w)"
  by (simp add: os_Mkdir_def fs_simps walk_error_dir [THEN iffD2])

lemma ioutil_WriteFile_ok [fs_simps]:
  "fs_faults w = [] \<Longrightarrow> dir_ok w d \<Longrightarrow> entry w (d @ [n]) \<noteq> Some FDir \<Longrightarrow>
     ioutil_WriteFile (d @ [n]) c w = (Inr (), set_entry (d @ [n]) (FFile c) w)"
  by (simp add: ioutil_WriteFile_def fs_simps walk_error_dir [THEN iffD2])

lemma ioutil_ReadFile_ok [fs_simps]:
  "fs_faults w = [] \<Longrightarrow> dir_ok w d \<Longrightarrow> entry w (d @ [n]) = Some (FFile c) \<Longrightarrow>
     ioutil_ReadFile (d @ [n]) w = (Inr c, w)"
  by (simp add: ioutil_ReadFile_def fs_simps walk_error_dir [THEN iffD2])

lemma os_RemoveAll_ok [fs_simps]:
  "fs_faults w = [] \<Longrightarrow> dir_ok w d \<Longrightarrow>
     os_RemoveAll (d @ [n]) w = (Inr (), drop_entries (set (below w (d @ [n]))) w)"
  by (simp add: os_RemoveAll_def fs_simps walk_error_dir [THEN iffD2])

lemma ioutil_ReadDir_ok [fs_simps]:
  "fs_faults w = [] \<Longrightarrow> dir_ok w (d @ [n]) \<Longrightarrow>
     ioutil_ReadDir (d @ [n]) w = (Inr (dir_names w (d @ [n])), w)"
  by (simp add: ioutil_ReadDir_def fs_simps walk_error_dir [THEN iffD2] dir_ok_snoc)

lemma set_dir_names: "set (dir_names w d) = {n. entry w (d @ [n]) \<noteq> None}"
proof -
  have "n \<in> set (dir_names w d) \<longleftrightarrow> d @ [n] \<in> fst ` set (fs_entries w)" for n
    by (force simp: dir_names_def dest: append_butlast_last_id [symmetric])
  then show ?thesis by (auto simp: entry_def map_of_eq_None_iff)
qed

text \<open>Every entry lies in a directory.\<close>

definition tree_ok :: "fs \<Rightarrow> bool" where
  "tree_ok w \<longleftrightarrow> list_all (\<lambda>(p, _). p \<noteq> [] \<and> entry w (butlast p) = Some FDir) (fs_entries w)"

lemma tree_ok_parent:
  assumes "tree_ok w" and "entry w (p @ [n]) \<noteq> None"
  shows "entry w p = Some FDir"
proof -
  obtain e where "(p @ [n], e) \<in> set (fs_entries w)"
    using assms(2) by (auto simp: entry_def dest: map_of_SomeD)
  with assms(1) show ?thesis by (force simp: tree_ok_def list_all_iff)
qed

lemma tree_ok_set_entry:
  assumes "tree_ok w" and "entry w d = Some FDir"
    and "e = FDir \<or> entry w (d @ [n]) \<noteq> Some FDir"
  shows "tree_ok (set_entry (d @ [n]) e w)"
proof -
  have keep: "entry (set_entry (d @ [n]) e w) q = Some FDir" if "entry w q = Some FDir" for q
    using that assms(3) by (auto simp: entry_set_entry)
  have "q \<noteq> [] \<and> entry (set_entry (d @ [n]) e w) (butlast q) = Some FDir"
    if "(q, f) \<in> set (fs_entries (set_entry (d @ [n]) e w))" for q f
  proof -
    have "(q, f) = (d @ [n], e) \<or> (q, f) \<in> set (fs_entries w)"
      using that by (auto simp: set_entry_def dest: set_update_subset [of "(q, f)", simplified])
    then show ?thesis
      using assms keep by (force simp: tree_ok_def list_all_iff)
  qed
  then show ?thesis by (auto simp: tree_ok_def list_all_iff)
qed

lemma tree_ok_remove:
  assumes "tree_ok w"
  shows "tree_ok (drop_entries (set (below w p)) w)"
proof -
  have "q \<noteq> [] \<and> entry (drop_entries (set (below w p)) w) (butlast q) = Some FDir"
    if "(q, f) \<in> set (fs_entries w)" "q \<notin> set (below w p)" for q f
  proof -
    have q: "q \<noteq> []" "entry w (butlast q) = Some FDir"
      using assms that(1) by (auto simp: tree_ok_def list_all_iff)
    have "\<not> prefix p q" using that by (force simp: below_def)
    moreover have "prefix (butlast q) q" by (rule prefixeq_butlast)
    ultimately have "\<not> prefix p (butlast q)" using prefix_order.trans by blast
    with q show ?thesis by (simp add: entry_remove_below)
  qed
  then show ?thesis by (force simp: tree_ok_def list_all_iff drop_entries_def)
qed

end
