(* ===== verification/Rules_Client.thy ===== *)
theory Rules_Client
  imports Durations Dir_Tree
begin

text \<open>
  The data of the rules API (\<^verbatim>\<open>pkg/rulesclient\<close>): alertmanager configurations, manager
  configurations (\<^verbatim>\<open>manager_config.go\<close>), rules and rule groups (\<^verbatim>\<open>rule.go\<close>,
  \<^verbatim>\<open>rule_group.go\<close>) with their validation and their JSON forms as \<open>encoding/json\<close> writes
  and reads them. The YAML libraries, the certificate checks of \<open>crypto/x509\<close> and \<open>crypto/tls\<close>,
  Prometheus' own validation of a rule, the loading of a rule file and the alert notifier are
  the fields of \<open>rules_env\<close>. A configuration of an alertmanager is the three TLS fields the
  program reads and writes, beside the rest (\<open>am_rest\<close>).
\<close>

section \<open>Errors\<close>

datatype rules_error =
    ManagerExistsError | ManagerNotExistsError | FsError path_error | ApiError int string
  | OtherError string | NilDereference

fun errno_text :: "errno \<Rightarrow> string" where
  "errno_text ENOENT = ''no such file or directory''"
| "errno_text EEXIST = ''file exists''"
| "errno_text ENOTDIR = ''not a directory''"
| "errno_text EISDIR = ''is a directory''"
| "errno_text EIO = ''input/output error''"

fun error_text :: "rules_error \<Rightarrow> string" where
  "error_text ManagerExistsError = ''The manager already exists''"
| "error_text ManagerNotExistsError = ''The manager does not exist''"
| "error_text (FsError (PathError call p e)) = call @ '' '' @ path_string p @ '': '' @ errno_text e"
| "error_text (ApiError _ title) = title"
| "error_text (OtherError t) = t"
| "error_text NilDereference = ''invalid memory address or nil pointer dereference''"

section \<open>Types\<close>

record 'o alertmanager =
  CAFile :: string
  CertFile :: string
  KeyFile :: string
  am_rest :: 'o

text \<open>A \<open>map[string]string\<close> is listed in the order of its keys.\<close>

type_synonym string_map = "(string \<times> string) list"

definition map_set :: "string_map \<Rightarrow> string \<Rightarrow> string \<Rightarrow> string_map" where
  "map_set m k v = sort_key fst (gm_set m k v)"

abbreviation canonical :: "string_map \<Rightarrow> bool" where
  "canonical m \<equiv> sorted (map fst m) \<and> distinct (map fst m)"

record rule =
  rule_Record :: string
  rule_Alert :: string
  rule_Expr :: string
  rule_For :: string
  rule_Labels :: string_map
  rule_Annotations :: string_map

record ruleGroup =
  group_Name :: string
  group_Interval :: int
  group_Rules :: "rule list"

text \<open>\<open>rulefmt.Rule\<close> and \<open>rulefmt.RuleGroup\<close> of Prometheus.\<close>

record promRule =
  prom_Record :: string
  prom_Alert :: string
  prom_Expr :: string
  prom_For :: int
  prom_Labels :: string_map
  prom_Annotations :: string_map

record promRuleGroup =
  prom_Name :: string
  prom_Interval :: int
  prom_Rules :: "promRule list"

record 'o managerConfig =
  mc_id :: string
  mc_alertmanagers :: "'o alertmanager list option"

text \<open>
  What is called outside the repository. \<open>range_order n\<close> is the order in which a loop visits the
  map of \<open>n\<close> alertmanager configurations; \<open>load_groups\<close> is what Prometheus makes of the
  contents of a rule file (\<open>None\<close>: there is no such file), \<open>apply_config\<close> the error of the
  notifier on configurations, given the files it can read; \<open>path_param\<close> is the manager id that
  the router finds in a request path in which an id was put (\<open>None\<close>: no route matches);
  \<open>std_error\<close> is the text of an error of a library.
\<close>

record ('o, 'g) rules_env =
  yaml_Marshal_alertmanagers :: "'o alertmanager list option \<Rightarrow> string option"
  yaml_Unmarshal_alertmanagers :: "string \<Rightarrow> 'o alertmanager list option"
  yaml_Marshal_groups :: "promRuleGroup list \<Rightarrow> string option"
  YAMLToJSON :: "string \<Rightarrow> json option"
  JSONToYAML :: "json \<Rightarrow> string option"
  promRule_Validate :: "promRule \<Rightarrow> string list"
  AppendCertsFromPEM :: "string \<Rightarrow> bool"
  X509KeyPair :: "string \<Rightarrow> string \<Rightarrow> string option"
  load_groups :: "string option \<Rightarrow> 'g list option"
  apply_config :: "fs \<Rightarrow> 'o alertmanager list \<Rightarrow> string option"
  json_Marshal_ok :: "'o alertmanager \<Rightarrow> bool"
  range_order :: "nat \<Rightarrow> nat list"
  path_param :: "string \<Rightarrow> string option"
  float_mul :: fmul
  std_error :: string

section \<open>Certificates\<close>

definition strip_prefix :: "string \<Rightarrow> string \<Rightarrow> string option" where
  "strip_prefix p s = (if prefix p s then Some (drop (length p) s) else None)"

definition splits :: "string \<Rightarrow> (string \<times> string) list" where
  "splits s = map (\<lambda>i. (take i s, drop i s)) [0..<Suc (length s)]"

text \<open>\<open>.+?\<close>: some characters, none of them a line feed.\<close>

definition some_line :: "string \<Rightarrow> bool" where
  "some_line x \<longleftrightarrow> x \<noteq> [] \<and> CHR 0x0A \<notin> set x"

definition is_space :: "char \<Rightarrow> bool" where
  "is_space c \<longleftrightarrow> c \<in> {CHR 0x09, CHR 0x0A, CHR 0x0C, CHR 0x0D, CHR '' ''}"

text \<open>The expression \<open>^-----BEGIN .+?-----([\s\S]*)-----END .+?-----\s?$\<close>.\<close>

definition certificate_end :: "string \<Rightarrow> bool" where
  "certificate_end r \<longleftrightarrow>
     list_ex (\<lambda>(y, z). some_line y \<and>
       (z = ''-----'' \<or> (z \<noteq> [] \<and> butlast z = ''-----'' \<and> is_space (last z)))) (splits r)"

definition certificate_middle :: "string \<Rightarrow> bool" where
  "certificate_middle r \<longleftrightarrow>
     list_ex (\<lambda>(m, z). case strip_prefix ''-----END '' z of None \<Rightarrow> False | Some r \<Rightarrow> certificate_end r)
       (splits r)"

definition CertificateRegexp :: "string \<Rightarrow> bool" where
  "CertificateRegexp s \<longleftrightarrow>
     (case strip_prefix ''-----BEGIN '' s of
        None \<Rightarrow> False
      | Some r \<Rightarrow>
          list_ex (\<lambda>(x, z). some_line x \<and>
            (case strip_prefix ''-----'' z of None \<Rightarrow> False | Some r \<Rightarrow> certificate_middle r))
          (splits r))"

section \<open>Manager configurations\<close>

definition validateCACert :: "('o, 'g) rules_env \<Rightarrow> string \<Rightarrow> rules_error option" where
  "validateCACert env caCert =
     (if CertificateRegexp caCert \<and> \<not> AppendCertsFromPEM env caCert
      then Some (OtherError (''unable to use specified CA cert '' @ caCert)) else None)"

definition validateCertAndKey :: "('o, 'g) rules_env \<Rightarrow> string \<Rightarrow> string \<Rightarrow> rules_error option" where
  "validateCertAndKey env cert key =
     (if CertificateRegexp cert \<or> CertificateRegexp key
      then map_option OtherError (X509KeyPair env cert key) else None)"

definition validate_alertmanager ::
  "('o, 'g) rules_env \<Rightarrow> 'o alertmanager \<Rightarrow> rules_error option" where
  "validate_alertmanager env am =
     (case validateCACert env (CAFile am) of
        Some e \<Rightarrow> Some e
      | None \<Rightarrow> validateCertAndKey env (CertFile am) (KeyFile am))"

fun first_error :: "('a \<Rightarrow> 'e option) \<Rightarrow> 'a list \<Rightarrow> 'e option" where
  "first_error f [] = None"
| "first_error f (x # xs) = (case f x of Some e \<Rightarrow> Some e | None \<Rightarrow> first_error f xs)"

definition ManagerConfig_Validate ::
  "('o, 'g) rules_env \<Rightarrow> 'o managerConfig \<Rightarrow> rules_error option" where
  "ManagerConfig_Validate env m =
     (case mc_alertmanagers m of
        None \<Rightarrow> Some NilDereference
      | Some ams \<Rightarrow>
          first_error (\<lambda>i. validate_alertmanager env (ams ! i)) (range_order env (length ams)))"

definition ManagerConfig_ToJSON :: "('o, 'g) rules_env \<Rightarrow> 'o managerConfig \<Rightarrow> json option" where
  "ManagerConfig_ToJSON env m =
     (case yaml_Marshal_alertmanagers env (mc_alertmanagers m) of
        None \<Rightarrow> None
      | Some y \<Rightarrow>
          (case YAMLToJSON env y of
             None \<Rightarrow> None
           | Some j \<Rightarrow>
               Some (JObj [(''data'', JObj [(''id'', JStr (mc_id m)), (''Alertmanagers'', j)])])))"

section \<open>Reading JSON\<close>

text \<open>\<open>encoding/json\<close> finds the field of a key up to case; an \<open>s\<close> and a \<open>k\<close> also match the long
  s (U+017F) and the Kelvin sign (U+212A).\<close>

definition lower :: "char \<Rightarrow> nat" where
  "lower c = (let n = of_char c in if 65 \<le> n \<and> n \<le> 90 then n + 32 else n)"

fun equal_fold :: "string \<Rightarrow> string \<Rightarrow> bool" where
  "equal_fold [] t = (t = [])"
| "equal_fold (c # cs) t =
     (if t \<noteq> [] \<and> lower (hd t) = lower c then equal_fold cs (tl t)
      else if lower c = 115 \<and> take 2 t = [CHR 0xC5, CHR 0xBF] then equal_fold cs (drop 2 t)
      else if lower c = 107 \<and> take 3 t = [CHR 0xE2, CHR 0x84, CHR 0xAA] then equal_fold cs (drop 3 t)
      else False)"

text \<open>A struct is filled field by field; \<open>null\<close> leaves it as it is. \<open>None\<close>: a decoding error.\<close>

fun decode_fields :: "(string \<Rightarrow> json \<Rightarrow> 'a \<Rightarrow> 'a option) \<Rightarrow> (string \<times> json) list \<Rightarrow> 'a \<Rightarrow> 'a option" where
  "decode_fields f [] a = Some a"
| "decode_fields f ((k, v) # kvs) a =
     (case f k v a of None \<Rightarrow> None | Some a \<Rightarrow> decode_fields f kvs a)"

definition decode_struct :: "(string \<Rightarrow> json \<Rightarrow> 'a \<Rightarrow> 'a option) \<Rightarrow> json \<Rightarrow> 'a \<Rightarrow> 'a option" where
  "decode_struct f j a =
     (case j of JNull \<Rightarrow> Some a | JObj kvs \<Rightarrow> decode_fields f kvs a | _ \<Rightarrow> None)"

definition decode_string :: "json \<Rightarrow> string \<Rightarrow> string option" where
  "decode_string j s = (case j of JNull \<Rightarrow> Some s | JStr t \<Rightarrow> Some t | _ \<Rightarrow> None)"

fun decode_entries :: "(string \<times> json) list \<Rightarrow> string_map \<Rightarrow> string_map option" where
  "decode_entries [] m = Some m"
| "decode_entries ((k, v) # kvs) m =
     (case decode_string v [] of None \<Rightarrow> None | Some s \<Rightarrow> decode_entries kvs (map_set m k s))"

definition decode_map :: "json \<Rightarrow> string_map \<Rightarrow> string_map option" where
  "decode_map j m =
     (case j of JNull \<Rightarrow> Some [] | JObj kvs \<Rightarrow> decode_entries kvs m | _ \<Rightarrow> None)"

text \<open>The elements of a slice are decoded into the elements that are already there.\<close>

fun decode_elements :: "(json \<Rightarrow> 'a \<Rightarrow> 'a option) \<Rightarrow> 'a \<Rightarrow> json list \<Rightarrow> 'a list \<Rightarrow> 'a list option" where
  "decode_elements f zero [] old = Some []"
| "decode_elements f zero (j # js) old =
     (case f j (if old = [] then zero else hd old) of
        None \<Rightarrow> None
      | Some x \<Rightarrow> map_option (Cons x) (decode_elements f zero js (tl old)))"

definition decode_slice :: "(json \<Rightarrow> 'a \<Rightarrow> 'a option) \<Rightarrow> 'a \<Rightarrow> json \<Rightarrow> 'a list \<Rightarrow> 'a list option" where
  "decode_slice f zero j old =
     (case j of JNull \<Rightarrow> Some [] | JArr js \<Rightarrow> decode_elements f zero js old | _ \<Rightarrow> None)"

record manager_data =
  md_id :: string
  md_alertmanagers :: "json option"

definition decode_managerData :: "json \<Rightarrow> manager_data option" where
  "decode_managerData j =
     decode_struct (\<lambda>k v m.
         if equal_fold ''data'' k then
           decode_struct (\<lambda>k v m.
               if equal_fold ''id'' k then map_option (\<lambda>s. m\<lparr>md_id := s\<rparr>) (decode_string v (md_id m))
               else if equal_fold ''Alertmanagers'' k then Some (m\<lparr>md_alertmanagers := Some v\<rparr>)
               else Some m) v m
         else Some m)
       j \<lparr>md_id = [], md_alertmanagers = None\<rparr>"

text \<open>A request or response body is \<open>None\<close> when it is not a JSON document.\<close>

definition ManagerConfigFromJSON :: "('o, 'g) rules_env \<Rightarrow> json option \<Rightarrow> 'o managerConfig option" where
  "ManagerConfigFromJSON env body =
     (case Option.bind body decode_managerData of
        None \<Rightarrow> None
      | Some m \<Rightarrow>
          (case md_alertmanagers m of
             None \<Rightarrow> Some \<lparr>mc_id = md_id m, mc_alertmanagers = Some []\<rparr>
           | Some j \<Rightarrow>
               (case Option.bind (JSONToYAML env j) (yaml_Unmarshal_alertmanagers env) of
                  None \<Rightarrow> None
                | Some ams \<Rightarrow> Some \<lparr>mc_id = md_id m, mc_alertmanagers = Some ams\<rparr>)))"

section \<open>Rules and rule groups\<close>

definition omit_empty :: "string \<Rightarrow> string \<Rightarrow> (string \<times> json) list" where
  "omit_empty k s = (if s = [] then [] else [(k, JStr s)])"

definition map_json :: "string \<Rightarrow> string_map \<Rightarrow> (string \<times> json) list" where
  "map_json k m = (if m = [] then [] else [(k, JObj (map (\<lambda>(k, v). (k, JStr v)) (sort_key fst m)))])"

definition rule_json :: "rule \<Rightarrow> json" where
  "rule_json r =
     JObj (omit_empty ''record'' (rule_Record r) @ omit_empty ''alert'' (rule_Alert r)
       @ [(''expr'', JStr (rule_Expr r))] @ omit_empty ''for'' (rule_For r)
       @ map_json ''labels'' (rule_Labels r) @ map_json ''annotations'' (rule_Annotations r))"

definition group_json :: "ruleGroup \<Rightarrow> json" where
  "group_json g =
     JObj ([(''name'', JStr (group_Name g))]
       @ (if group_Interval g = 0 then [] else [(''interval'', Duration_MarshalJSON (group_Interval g))])
       @ [(''rules'', JArr (map rule_json (group_Rules g)))])"

text \<open>\<open>json.Marshal(RuleGroupData{...})\<close> and its reading.\<close>

definition groupData_json :: "ruleGroup \<Rightarrow> json" where
  "groupData_json g = JObj [(''data'', group_json g)]"

definition rule_field :: "string \<Rightarrow> json \<Rightarrow> rule \<Rightarrow> rule option" where
  "rule_field k v r =
     (if equal_fold ''record'' k then
        map_option (\<lambda>s. r\<lparr>rule_Record := s\<rparr>) (decode_string v (rule_Record r))
      else if equal_fold ''alert'' k then
        map_option (\<lambda>s. r\<lparr>rule_Alert := s\<rparr>) (decode_string v (rule_Alert r))
      else if equal_fold ''expr'' k then
        map_option (\<lambda>s. r\<lparr>rule_Expr := s\<rparr>) (decode_string v (rule_Expr r))
      else if equal_fold ''for'' k then
        map_option (\<lambda>s. r\<lparr>rule_For := s\<rparr>) (decode_string v (rule_For r))
      else if equal_fold ''labels'' k then
        map_option (\<lambda>m. r\<lparr>rule_Labels := m\<rparr>) (decode_map v (rule_Labels r))
      else if equal_fold ''annotations'' k then
        map_option (\<lambda>m. r\<lparr>rule_Annotations := m\<rparr>) (decode_map v (rule_Annotations r))
      else Some r)"

definition empty_rule :: rule where
  "empty_rule = \<lparr>rule_Record = [], rule_Alert = [], rule_Expr = [], rule_For = [],
     rule_Labels = [], rule_Annotations = []\<rparr>"

definition group_field :: "fmul \<Rightarrow> string \<Rightarrow> json \<Rightarrow> ruleGroup \<Rightarrow> ruleGroup option" where
  "group_field fmul k v g =
     (if equal_fold ''name'' k then
        map_option (\<lambda>s. g\<lparr>group_Name := s\<rparr>) (decode_string v (group_Name g))
      else if equal_fold ''interval'' k then
        map_option (\<lambda>d. g\<lparr>group_Interval := d\<rparr>) (Duration_UnmarshalJSON fmul v)
      else if equal_fold ''rules'' k then
        map_option (\<lambda>rs. g\<lparr>group_Rules := rs\<rparr>)
          (decode_slice (decode_struct rule_field) empty_rule v (group_Rules g))
      else Some g)"

definition decode_groupData :: "fmul \<Rightarrow> json \<Rightarrow> ruleGroup option" where
  "decode_groupData fmul j =
     decode_struct (\<lambda>k v g. if equal_fold ''data'' k then decode_struct (group_field fmul) v g else Some g)
       j \<lparr>group_Name = [], group_Interval = 0, group_Rules = []\<rparr>"

text \<open>\<open>strings.Trim(s, "\"")\<close>.\<close>

definition trim_quotes :: "string \<Rightarrow> string" where
  "trim_quotes s =
     rev (dropWhile (\<lambda>c. c = CHR 0x22) (rev (dropWhile (\<lambda>c. c = CHR 0x22) s)))"

definition convertToPromRule :: "('o, 'g) rules_env \<Rightarrow> rule \<Rightarrow> rules_error + promRule" where
  "convertToPromRule env r =
     (case (if rule_For r \<noteq> [] then ParseDuration (float_mul env) (trim_quotes (rule_For r)) else Some 0) of
        None \<Rightarrow> Inl (OtherError (std_error env))
      | Some duration \<Rightarrow>
          Inr \<lparr>prom_Record = rule_Record r, prom_Alert = rule_Alert r, prom_Expr = rule_Expr r,
             prom_For = duration, prom_Labels = rule_Labels r, prom_Annotations = rule_Annotations r\<rparr>)"

definition Rule_Validate :: "('o, 'g) rules_env \<Rightarrow> rule \<Rightarrow> rules_error option" where
  "Rule_Validate env r =
     (case convertToPromRule env r of
        Inl e \<Rightarrow> Some e
      | Inr p \<Rightarrow> (case promRule_Validate env p of [] \<Rightarrow> None | e # _ \<Rightarrow> Some (OtherError e)))"

definition RuleGroup_Validate :: "('o, 'g) rules_env \<Rightarrow> ruleGroup \<Rightarrow> rules_error option" where
  "RuleGroup_Validate env g =
     (if group_Name g = [] then Some (OtherError ''name is required'')
      else if group_Interval g \<noteq> 0 \<and> group_Interval g < 60000000000
      then Some (OtherError ''interval is too short'')
      else if group_Rules g = [] then Some (OtherError ''at least one rule is required'')
      else first_error (Rule_Validate env) (group_Rules g))"

fun convert_rules :: "('o, 'g) rules_env \<Rightarrow> rule list \<Rightarrow> rules_error + promRule list" where
  "convert_rules env [] = Inr []"
| "convert_rules env (r # rs) =
     (case convertToPromRule env r of
        Inl e \<Rightarrow> Inl e
      | Inr p \<Rightarrow> (case convert_rules env rs of Inl e \<Rightarrow> Inl e | Inr ps \<Rightarrow> Inr (p # ps)))"

definition ConvertToPromRuleGroup :: "('o, 'g) rules_env \<Rightarrow> ruleGroup \<Rightarrow> rules_error + promRuleGroup" where
  "ConvertToPromRuleGroup env g =
     (case convert_rules env (group_Rules g) of
        Inl e \<Rightarrow> Inl e
      | Inr ps \<Rightarrow> Inr \<lparr>prom_Name = group_Name g, prom_Interval = group_Interval g, prom_Rules = ps\<rparr>)"

section \<open>Laws of the JSON forms\<close>

text \<open>A group whose label maps are listed in order and whose interval survives being printed.\<close>

definition rule_ok :: "rule \<Rightarrow> bool" where
  "rule_ok r \<longleftrightarrow> canonical (rule_Labels r) \<and> canonical (rule_Annotations r)"

definition interval_ok :: "int \<Rightarrow> bool" where
  "interval_ok d \<longleftrightarrow> d = 0 \<or> (int64_range d \<and> 1000000 dvd d \<and> \<not> 86400000000000 dvd d)"

definition group_ok :: "ruleGroup \<Rightarrow> bool" where
  "group_ok g \<longleftrightarrow> interval_ok (group_Interval g) \<and> list_all rule_ok (group_Rules g)"

lemma decode_fields_append:
  "decode_fields f (xs @ ys) a = Option.bind (decode_fields f xs a) (decode_fields f ys)"
  by (induction f xs a rule: decode_fields.induct) (auto split: option.splits)

lemma update_absent: "k \<notin> fst ` set m \<Longrightarrow> AList.update k v m = m @ [(k, v)]"
  by (induction m) auto

lemma decode_entries_sorted:
  assumes "canonical (m @ xs)"
  shows "decode_entries (map (\<lambda>(k, v). (k, JStr v)) xs) m = Some (m @ xs)"
  using assms
proof (induction xs arbitrary: m)
  case (Cons e xs)
  obtain k v where e: "e = (k, v)" by (cases e)
  have "sort_key fst (m @ [(k, v)]) = m @ [(k, v)]"
    using Cons.prems e by (intro sort_key_id_if_sorted) (simp add: sorted_append)
  with Cons.prems e have "map_set m k v = m @ [e]"
    by (auto simp: map_set_def update_absent)
  with Cons e show ?case by (simp add: decode_string_def)
qed simp

lemma decode_map_json:
  assumes "canonical m"
  shows "decode_map (JObj (map (\<lambda>(k, v). (k, JStr v)) (sort_key fst m))) [] = Some m"
  using assms decode_entries_sorted [of "[]" m]
  by (simp add: decode_map_def sort_key_id_if_sorted)

lemma lower_simps [simp]:
  "lower CHR ''a'' = 97" "lower CHR ''b'' = 98" "lower CHR ''c'' = 99" "lower CHR ''d'' = 100"
  "lower CHR ''e'' = 101" "lower CHR ''f'' = 102" "lower CHR ''g'' = 103" "lower CHR ''i'' = 105"
  "lower CHR ''l'' = 108" "lower CHR ''m'' = 109" "lower CHR ''n'' = 110" "lower CHR ''o'' = 111"
  "lower CHR ''p'' = 112" "lower CHR ''r'' = 114" "lower CHR ''s'' = 115" "lower CHR ''t'' = 116"
  "lower CHR ''u'' = 117" "lower CHR ''v'' = 118" "lower CHR ''x'' = 120" "lower CHR ''A'' = 97"
  by (simp_all add: lower_def)

lemma rule_fields:
  "rule_Record r = [] \<Longrightarrow>
     decode_fields rule_field (omit_empty ''record'' s) r = Some (r\<lparr>rule_Record := s\<rparr>)"
  "rule_Alert r = [] \<Longrightarrow>
     decode_fields rule_field (omit_empty ''alert'' s) r = Some (r\<lparr>rule_Alert := s\<rparr>)"
  "decode_fields rule_field [(''expr'', JStr s)] r = Some (r\<lparr>rule_Expr := s\<rparr>)"
  "rule_For r = [] \<Longrightarrow>
     decode_fields rule_field (omit_empty ''for'' s) r = Some (r\<lparr>rule_For := s\<rparr>)"
  "canonical m \<Longrightarrow> rule_Labels r = [] \<Longrightarrow>
     decode_fields rule_field (map_json ''labels'' m) r = Some (r\<lparr>rule_Labels := m\<rparr>)"
  "canonical m \<Longrightarrow> rule_Annotations r = [] \<Longrightarrow>
     decode_fields rule_field (map_json ''annotations'' m) r = Some (r\<lparr>rule_Annotations := m\<rparr>)"
  by (cases r; simp add: omit_empty_def rule_field_def decode_string_def map_json_def decode_map_json)+

lemma decode_rule_json: "rule_ok r \<Longrightarrow> decode_struct rule_field (rule_json r) empty_rule = Some r"
  by (simp add: rule_ok_def rule_json_def decode_struct_def decode_fields_append rule_fields
      empty_rule_def del: decode_fields.simps append.simps)

lemma decode_rules_json:
  "list_all rule_ok rs \<Longrightarrow>
     decode_elements (decode_struct rule_field) empty_rule (map rule_json rs) [] = Some rs"
  by (induction rs) (simp_all add: decode_rule_json)

lemma interval_json:
  assumes "interval_ok d" and "d \<noteq> 0"
  shows "Duration_UnmarshalJSON fmul (Duration_MarshalJSON d) = Some d"
proof -
  have d: "int64_range d" "1000000 dvd d" "\<not> 86400000000000 dvd d"
    using assms by (simp_all add: interval_ok_def)
  then have ms: "d sdiv 1000000 * 1000000 = d" by (simp add: sdiv_exact)
  then have "\<not> 86400000 dvd d sdiv 1000000"
    using d(3) mult_dvd_mono [of 86400000 "d sdiv 1000000" 1000000 1000000] by auto
  with ms show ?thesis
    using ParseDuration_String [OF d(1)]
    by (simp add: Duration_UnmarshalJSON_def Duration_MarshalJSON_def)
qed

lemma group_fields:
  "decode_fields (group_field fmul) [(''name'', JStr s)] g = Some (g\<lparr>group_Name := s\<rparr>)"
  "decode_fields (group_field fmul) [(''interval'', j)] g =
     map_option (\<lambda>d. g\<lparr>group_Interval := d\<rparr>) (Duration_UnmarshalJSON fmul j)"
  "list_all rule_ok rs \<Longrightarrow> group_Rules g = [] \<Longrightarrow>
     decode_fields (group_field fmul) [(''rules'', JArr (map rule_json rs))] g =
       Some (g\<lparr>group_Rules := rs\<rparr>)"
  by (simp_all add: group_field_def decode_string_def decode_slice_def decode_rules_json split: option.split)

lemma decode_group_json:
  assumes "group_ok g"
  shows "decode_groupData fmul (groupData_json g) = Some g"
proof -
  have "decode_struct (group_field fmul) (group_json g)
      \<lparr>group_Name = [], group_Interval = 0, group_Rules = []\<rparr> = Some g"
    using assms
    by (simp add: group_ok_def group_json_def decode_struct_def decode_fields_append group_fields
        interval_json decode_fields.simps(1) del: decode_fields.simps(2) append.simps)
  then show ?thesis
    by (simp add: decode_groupData_def groupData_json_def decode_struct_def)
qed

lemma decode_group_days:
  assumes "int64_range (group_Interval g)" and "group_Interval g \<noteq> 0"
    and "86400000000000 dvd group_Interval g"
  shows "decode_groupData fmul (groupData_json g) = None"
proof -
  let ?d = "group_Interval g"
  have ms: "?d sdiv 1000000 * 1000000 = ?d"
    using assms(3) by (intro sdiv_exact) (auto intro: dvd_trans [of "1000000 :: int" 86400000000000])
  then have "86400000 * 1000000 dvd ?d sdiv 1000000 * 1000000" using assms(3) by simp
  then have "86400000 dvd ?d sdiv 1000000" by (simp only: dvd_mult_cancel_right) simp
  moreover have "?d sdiv 1000000 \<noteq> 0" using ms assms(2) by auto
  ultimately have "Duration_UnmarshalJSON fmul (Duration_MarshalJSON ?d) = None"
    using ParseDuration_String [OF assms(1)]
    by (simp add: Duration_UnmarshalJSON_def Duration_MarshalJSON_def)
  then have "decode_struct (group_field fmul) (group_json g)
      \<lparr>group_Name = [], group_Interval = 0, group_Rules = []\<rparr> = None"
    using assms(2)
    by (simp add: group_json_def decode_struct_def decode_fields_append group_fields
        del: decode_fields.simps append.simps)
  then show ?thesis
    by (simp add: decode_groupData_def groupData_json_def decode_struct_def)
qed

text \<open>A configuration that the YAML libraries write and read back.\<close>

definition yaml_ok :: "('o, 'g) rules_env \<Rightarrow> 'o alertmanager list \<Rightarrow> bool" where
  "yaml_ok env ams \<longleftrightarrow>
     (case yaml_Marshal_alertmanagers env (Some ams) of
        None \<Rightarrow> False
      | Some y \<Rightarrow>
          yaml_Unmarshal_alertmanagers env y = Some ams \<and>
          (case YAMLToJSON env y of
             None \<Rightarrow> False
           | Some j \<Rightarrow> Option.bind (JSONToYAML env j) (yaml_Unmarshal_alertmanagers env) = Some ams))"

lemma config_roundtrip:
  assumes "yaml_ok env ams"
  obtains j where "ManagerConfig_ToJSON env \<lparr>mc_id = i, mc_alertmanagers = Some ams\<rparr> = Some j"
    and "ManagerConfigFromJSON env (Some j) = Some \<lparr>mc_id = i, mc_alertmanagers = Some ams\<rparr>"
  using assms
  by (auto simp: yaml_ok_def ManagerConfig_ToJSON_def ManagerConfigFromJSON_def decode_managerData_def
      decode_struct_def decode_string_def split: option.splits)

section \<open>What the certificate expression matches\<close>

lemma splits_ex: "list_ex (\<lambda>(x, z). P x z) (splits s) \<longleftrightarrow> (\<exists>x z. s = x @ z \<and> P x z)"
proof -
  have "(x, z) \<in> set (splits s) \<longleftrightarrow> s = x @ z" for x z
    by (force simp: splits_def image_iff less_Suc_eq_le intro: bexI [of _ "length x"])
  then show ?thesis by (auto simp: list_ex_iff)
qed

lemma strip_prefix_ex:
  "(case strip_prefix p s of None \<Rightarrow> False | Some r \<Rightarrow> P r) \<longleftrightarrow> (\<exists>r. s = p @ r \<and> P r)"
  by (auto simp: strip_prefix_def prefix_def)

lemma certificate_tail:
  "z = d \<or> (z \<noteq> [] \<and> butlast z = d \<and> is_space (last z)) \<longleftrightarrow>
     (\<exists>w. z = d @ w \<and> (w = [] \<or> (\<exists>c. w = [c] \<and> is_space c)))"
  by (cases z rule: rev_cases) auto

lemma certificate_parts:
  "(\<exists>r. s = a @ r \<and> (\<exists>x z. r = x @ z \<and> L x \<and> (\<exists>r. z = d @ r \<and> (\<exists>m z. r = m @ z \<and>
      (\<exists>r. z = e @ r \<and> (\<exists>y z. r = y @ z \<and> L y \<and> (\<exists>w. z = d @ w \<and> W w)))))))
   \<longleftrightarrow> (\<exists>x m y w. s = a @ x @ d @ m @ e @ y @ d @ w \<and> L x \<and> L y \<and> W w)"
  (is "?parts \<longleftrightarrow> ?whole")
proof
  show "?parts \<Longrightarrow> ?whole" by (elim exE conjE, intro exI conjI) (simp, assumption+)
  show "?whole \<Longrightarrow> ?parts" by (elim exE conjE, intro exI conjI) (assumption | rule refl)+
qed

lemma CertificateRegexp_iff:
  "CertificateRegexp s \<longleftrightarrow>
     (\<exists>x m y w. s = ''-----BEGIN '' @ x @ ''-----'' @ m @ ''-----END '' @ y @ ''-----'' @ w
        \<and> some_line x \<and> some_line y \<and> (w = [] \<or> (\<exists>c. w = [c] \<and> is_space c)))"
  unfolding CertificateRegexp_def certificate_middle_def certificate_end_def splits_ex strip_prefix_ex
    certificate_tail
  by (rule certificate_parts)

text \<open>The path that replaces a certificate is no certificate.\<close>

lemma CertificateRegexp_path: "\<not> CertificateRegexp (path_string p)"
proof -
  have "hd (path_string p) = CHR ''/''" "path_string p \<noteq> []"
    by (cases p; simp add: path_string_def)+
  then show ?thesis by (auto simp: CertificateRegexp_iff)
qed

end
