(* ===== verification/Rule_Files.thy ===== *)
theory Rule_Files
  imports Rules_Client
begin

text \<open>
  The directory of a rule manager (\<^verbatim>\<open>internal/rules/rule_manager_files.go\<close>): its rule
  file, the configuration of its alertmanagers, and the certificates, which are moved from the
  configuration to files of their own. \<open>Create\<close> changes the configuration it is given in
  place, so it returns it beside the tree of files, also when it fails. The theory shows what
  the files of a manager hold after each operation and that no other manager's files change.
\<close>

section \<open>Paths\<close>

definition ruleManagerDirectoryPath :: "path \<Rightarrow> string \<Rightarrow> path" where
  "ruleManagerDirectoryPath storage managerId = Join storage managerId"

definition rulesFilePath :: "path \<Rightarrow> string \<Rightarrow> path" where
  "rulesFilePath storage managerId = Join (ruleManagerDirectoryPath storage managerId) ''rules.yml''"

definition alertManagerFilePath :: "path \<Rightarrow> string \<Rightarrow> path" where
  "alertManagerFilePath storage managerId =
     Join (ruleManagerDirectoryPath storage managerId) ''alertmanager.yml''"

definition caCertFilePath :: "path \<Rightarrow> string \<Rightarrow> string \<Rightarrow> path" where
  "caCertFilePath storage managerId index =
     Join (ruleManagerDirectoryPath storage managerId) (''alertmanager-'' @ index @ ''-ca.crt'')"

definition certFilePath :: "path \<Rightarrow> string \<Rightarrow> string \<Rightarrow> path" where
  "certFilePath storage managerId index =
     Join (ruleManagerDirectoryPath storage managerId) (''alertmanager-'' @ index @ ''.crt'')"

definition keyFilePath :: "path \<Rightarrow> string \<Rightarrow> string \<Rightarrow> path" where
  "keyFilePath storage managerId index =
     Join (ruleManagerDirectoryPath storage managerId) (''alertmanager-'' @ index @ ''.key'')"

section \<open>Operations\<close>

fun fs_call :: "(path_error + 'a) \<times> fs \<Rightarrow> (rules_error + 'a) \<times> fs" where
  "fs_call (Inl e, w) = (Inl (FsError e), w)"
| "fs_call (Inr x, w) = (Inr x, w)"

definition rulesManagerExists :: "path \<Rightarrow> string \<Rightarrow> fs \<Rightarrow> (rules_error + bool) \<times> fs" where
  "rulesManagerExists storage managerId w =
     (case os_Stat (ruleManagerDirectoryPath storage managerId) w of
        (Inl e, w) \<Rightarrow> if os_IsNotExist e then (Inr False, w) else (Inl (FsError e), w)
      | (Inr _, w) \<Rightarrow> (Inr True, w))"

definition extractCertificate :: "path \<Rightarrow> string \<Rightarrow> fs \<Rightarrow> (rules_error + string) \<times> fs" where
  "extractCertificate p cert w =
     (if CertificateRegexp cert
      then seqE (fs_call (ioutil_WriteFile p cert w)) (\<lambda>_ w. (Inr (path_string p), w))
      else (Inr cert, w))"

text \<open>One field of the \<open>i\<close>-th configuration, read by \<open>get\<close> and written by \<open>upd\<close>.\<close>

definition extract_field ::
  "('o alertmanager \<Rightarrow> string) \<Rightarrow> ((string \<Rightarrow> string) \<Rightarrow> 'o alertmanager \<Rightarrow> 'o alertmanager) \<Rightarrow> path \<Rightarrow>
    nat \<Rightarrow> 'o alertmanager list \<times> fs \<Rightarrow> (rules_error + unit) \<times> 'o alertmanager list \<times> fs" where
  "extract_field get upd p i s =
     (case s of (ams, w) \<Rightarrow>
        (case extractCertificate p (get (ams ! i)) w of
           (Inl e, w) \<Rightarrow> (Inl e, ams, w)
         | (Inr c, w) \<Rightarrow> (Inr (), ams[i := upd (\<lambda>_. c) (ams ! i)], w)))"

text \<open>\<open>AlertmanagerConfigs.ToMap\<close> calls the configurations \<open>config-0\<close>, \<open>config-1\<close>, \<open>\<dots>\<close>.\<close>

definition config_index :: "nat \<Rightarrow> string" where
  "config_index i = ''config-'' @ format_uint i"

fun writeCerts_loop ::
  "path \<Rightarrow> string \<Rightarrow> nat list \<Rightarrow> 'o alertmanager list \<times> fs \<Rightarrow>
    (rules_error + unit) \<times> 'o alertmanager list \<times> fs" where
  "writeCerts_loop storage managerId [] s = (Inr (), s)"
| "writeCerts_loop storage managerId (i # is) s =
     seqE (extract_field CAFile CAFile_update (caCertFilePath storage managerId (config_index i)) i s) (\<lambda>_ s.
     seqE (extract_field CertFile CertFile_update (certFilePath storage managerId (config_index i)) i s) (\<lambda>_ s.
     seqE (extract_field KeyFile KeyFile_update (keyFilePath storage managerId (config_index i)) i s) (\<lambda>_ s.
       writeCerts_loop storage managerId is s)))"

definition writeCerts ::
  "('o, 'g) rules_env \<Rightarrow> path \<Rightarrow> string \<Rightarrow> 'o alertmanager list option \<times> fs \<Rightarrow>
    (rules_error + unit) \<times> 'o alertmanager list option \<times> fs" where
  "writeCerts env storage managerId s =
     (case s of
        (None, w) \<Rightarrow> (Inr (), None, w)
      | (Some ams, w) \<Rightarrow>
          (case writeCerts_loop storage managerId (range_order env (length ams)) (ams, w) of
             (r, ams, w) \<Rightarrow> (r, Some ams, w)))"

definition writeAlertManager ::
  "('o, 'g) rules_env \<Rightarrow> path \<Rightarrow> string \<Rightarrow> 'o alertmanager list option \<Rightarrow> fs \<Rightarrow> (rules_error + unit) \<times> fs" where
  "writeAlertManager env storage managerId alertmanagers w =
     (case yaml_Marshal_alertmanagers env alertmanagers of
        None \<Rightarrow> (Inl (OtherError (std_error env)), w)
      | Some outBytes \<Rightarrow> fs_call (ioutil_WriteFile (alertManagerFilePath storage managerId) outBytes w))"

definition writeRules ::
  "('o, 'g) rules_env \<Rightarrow> path \<Rightarrow> string \<Rightarrow> promRuleGroup option \<Rightarrow> fs \<Rightarrow> (rules_error + unit) \<times> fs" where
  "writeRules env storage managerId ruleGroup w =
     (case yaml_Marshal_groups env (case ruleGroup of None \<Rightarrow> [] | Some g \<Rightarrow> [g]) of
        None \<Rightarrow> (Inl (OtherError (std_error env)), w)
      | Some outBytes \<Rightarrow> fs_call (ioutil_WriteFile (rulesFilePath storage managerId) outBytes w))"

text \<open>A call on the files, beside a configuration it does not touch.\<close>

fun beside :: "'c \<Rightarrow> ('e + 'a) \<times> 's \<Rightarrow> ('e + 'a) \<times> 'c \<times> 's" where
  "beside c (r, s) = (r, c, s)"

definition Files_Create ::
  "('o, 'g) rules_env \<Rightarrow> path \<Rightarrow> string \<Rightarrow> 'o alertmanager list option \<times> fs \<Rightarrow>
    (rules_error + path) \<times> 'o alertmanager list option \<times> fs" where
  "Files_Create env storage managerId s =
     (case s of (ams, w) \<Rightarrow>
        seqE (beside ams (rulesManagerExists storage managerId w)) (\<lambda>exists (ams, w).
        if exists then (Inl ManagerExistsError, ams, w)
        else
        seqE (beside ams (fs_call (os_Mkdir (ruleManagerDirectoryPath storage managerId) w))) (\<lambda>_ (ams, w).
        seqE (beside ams (writeRules env storage managerId None w)) (\<lambda>_ (ams, w).
        seqE (writeCerts env storage managerId (ams, w)) (\<lambda>_ (ams, w).
        seqE (beside ams (writeAlertManager env storage managerId ams w)) (\<lambda>_ s.
          (Inr (rulesFilePath storage managerId), s)))))))"

definition Files_Delete :: "path \<Rightarrow> string \<Rightarrow> fs \<Rightarrow> (rules_error + unit) \<times> fs" where
  "Files_Delete storage managerId w =
     seqE (rulesManagerExists storage managerId w) (\<lambda>exists w.
     if \<not> exists then (Inl ManagerNotExistsError, w)
     else fs_call (os_RemoveAll (ruleManagerDirectoryPath storage managerId) w))"

definition Files_UpsertRuleGroup ::
  "('o, 'g) rules_env \<Rightarrow> path \<Rightarrow> string \<Rightarrow> promRuleGroup \<Rightarrow> fs \<Rightarrow> (rules_error + unit) \<times> fs" where
  "Files_UpsertRuleGroup env storage managerId ruleGroup w =
     seqE (rulesManagerExists storage managerId w) (\<lambda>exists w.
     if \<not> exists then (Inl ManagerNotExistsError, w)
     else writeRules env storage managerId (Some ruleGroup) w)"

definition Files_Load ::
  "('o, 'g) rules_env \<Rightarrow> path \<Rightarrow> string \<Rightarrow> fs \<Rightarrow> (rules_error + path \<times> 'o alertmanager list option) \<times> fs" where
  "Files_Load env storage managerId w =
     (case os_Stat (alertManagerFilePath storage managerId) w of
        (r, w) \<Rightarrow>
          if (case r of Inl e \<Rightarrow> os_IsNotExist e | Inr _ \<Rightarrow> False)
          then (Inr (rulesFilePath storage managerId, None), w)
          else
          seqE (fs_call (ioutil_ReadFile (alertManagerFilePath storage managerId) w)) (\<lambda>contents w.
            case yaml_Unmarshal_alertmanagers env contents of
              None \<Rightarrow> (Inl (OtherError (std_error env)), w)
            | Some alertManagers \<Rightarrow> (Inr (rulesFilePath storage managerId, Some alertManagers), w)))"

section \<open>Names of the files\<close>

definition ca_name :: "nat \<Rightarrow> string" where
  "ca_name i = ''alertmanager-'' @ config_index i @ ''-ca.crt''"

definition crt_name :: "nat \<Rightarrow> string" where
  "crt_name i = ''alertmanager-'' @ config_index i @ ''.crt''"

definition key_name :: "nat \<Rightarrow> string" where
  "key_name i = ''alertmanager-'' @ config_index i @ ''.key''"

lemma format_uint_no_slash: "CHR ''/'' \<notin> set (format_uint n)"
proof
  assume "CHR ''/'' \<in> set (format_uint n)"
  then have "is_digit CHR ''/''" using format_uint_digits [of n] by (auto simp: list_all_iff)
  then show False by (simp add: is_digit_def)
qed

lemma plain_names [simp]:
  "plain_name ''rules.yml''" "plain_name ''alertmanager.yml''"
  "plain_name (ca_name i)" "plain_name (crt_name i)" "plain_name (key_name i)"
  by (simp_all add: plain_name_def ca_name_def crt_name_def key_name_def config_index_def
      format_uint_no_slash)

lemma digits_end:
  assumes "list_all is_digit xs" and "list_all is_digit ys" and "\<not> is_digit c" and "\<not> is_digit d"
    and "xs @ c # r = ys @ d # t"
  shows "xs = ys \<and> c # r = d # t"
  using assms by (induction xs arbitrary: ys) (auto simp: Cons_eq_append_conv)

lemma digits_name:
  assumes "\<not> is_digit c" "\<not> is_digit d"
  shows "format_uint i @ c # r = format_uint j @ d # t \<longleftrightarrow> i = j \<and> c = d \<and> r = t"
  using digits_end [OF format_uint_digits [of i] format_uint_digits [of j] assms, of r t] by auto

lemma cert_names_distinct [simp]:
  "ca_name i = ca_name j \<longleftrightarrow> i = j" "crt_name i = crt_name j \<longleftrightarrow> i = j"
  "key_name i = key_name j \<longleftrightarrow> i = j"
  "ca_name i \<noteq> crt_name j" "ca_name i \<noteq> key_name j" "crt_name i \<noteq> key_name j"
  "crt_name j \<noteq> ca_name i" "key_name j \<noteq> ca_name i" "key_name j \<noteq> crt_name i"
  by (simp_all add: ca_name_def crt_name_def key_name_def config_index_def digits_name is_digit_def)

lemma cert_names_other [simp]:
  "ca_name i \<noteq> ''rules.yml''" "crt_name i \<noteq> ''rules.yml''" "key_name i \<noteq> ''rules.yml''"
  "ca_name i \<noteq> ''alertmanager.yml''" "crt_name i \<noteq> ''alertmanager.yml''"
  "key_name i \<noteq> ''alertmanager.yml''"
  by (simp_all add: ca_name_def crt_name_def key_name_def)

lemmas cert_names_other' [simp] = cert_names_other [symmetric]

lemma manager_paths:
  assumes "plain_name managerId"
  shows "ruleManagerDirectoryPath storage managerId = storage @ [managerId]"
    and "rulesFilePath storage managerId = (storage @ [managerId]) @ [''rules.yml'']"
    and "alertManagerFilePath storage managerId = (storage @ [managerId]) @ [''alertmanager.yml'']"
    and "caCertFilePath storage managerId (config_index i) = (storage @ [managerId]) @ [ca_name i]"
    and "certFilePath storage managerId (config_index i) = (storage @ [managerId]) @ [crt_name i]"
    and "keyFilePath storage managerId (config_index i) = (storage @ [managerId]) @ [key_name i]"
  using assms plain_names
  by (simp_all add: ruleManagerDirectoryPath_def rulesFilePath_def alertManagerFilePath_def
      caCertFilePath_def certFilePath_def keyFilePath_def Join_plain ca_name_def crt_name_def
      key_name_def del: append_assoc)

section \<open>Certificates move to files\<close>

text \<open>The directory of a manager is there, holds no directories, and no call fails.\<close>

definition ready :: "path \<Rightarrow> fs \<Rightarrow> bool" where
  "ready d w \<longleftrightarrow> fs_faults w = [] \<and> dir_ok w d \<and> tree_ok w \<and> (\<forall>n. entry w (d @ [n]) \<noteq> Some FDir)"

lemma ready_write:
  assumes "ready d w"
  shows "ioutil_WriteFile (d @ [n]) c w = (Inr (), set_entry (d @ [n]) (FFile c) w)"
    and "ready d (set_entry (d @ [n]) (FFile c) w)"
proof -
  have r: "fs_faults w = []" "dir_ok w d" "tree_ok w" "\<And>n. entry w (d @ [n]) \<noteq> Some FDir"
    using assms by (simp_all add: ready_def)
  then show "ioutil_WriteFile (d @ [n]) c w = (Inr (), set_entry (d @ [n]) (FFile c) w)"
    by (simp add: fs_simps)
  have "dir_ok (set_entry (d @ [n]) (FFile c) w) d"
    using r(2) by (intro dir_ok_set_entry) (auto simp: prefix_def)
  moreover have "tree_ok (set_entry (d @ [n]) (FFile c) w)"
    using r by (intro tree_ok_set_entry) (auto intro: dir_ok_entry)
  ultimately show "ready d (set_entry (d @ [n]) (FFile c) w)"
    using r by (auto simp: ready_def entry_set_entry)
qed

text \<open>What becomes of a field, and of the files.\<close>

definition moved_cert :: "path \<Rightarrow> string \<Rightarrow> string" where
  "moved_cert p c = (if CertificateRegexp c then path_string p else c)"

definition store_cert :: "path \<Rightarrow> string \<Rightarrow> fs \<Rightarrow> fs" where
  "store_cert p c w = (if CertificateRegexp c then set_entry p (FFile c) w else w)"

definition moved :: "path \<Rightarrow> nat \<Rightarrow> 'o alertmanager \<Rightarrow> 'o alertmanager" where
  "moved d i am = am\<lparr>CAFile := moved_cert (d @ [ca_name i]) (CAFile am),
     CertFile := moved_cert (d @ [crt_name i]) (CertFile am),
     KeyFile := moved_cert (d @ [key_name i]) (KeyFile am)\<rparr>"

definition store_certs :: "path \<Rightarrow> 'o alertmanager list \<Rightarrow> nat \<Rightarrow> fs \<Rightarrow> fs" where
  "store_certs d ams i w =
     store_cert (d @ [key_name i]) (KeyFile (ams ! i))
       (store_cert (d @ [crt_name i]) (CertFile (ams ! i))
         (store_cert (d @ [ca_name i]) (CAFile (ams ! i)) w))"

lemma store_cert_ready: "ready d w \<Longrightarrow> ready d (store_cert (d @ [n]) c w)"
  by (simp add: store_cert_def ready_write)

lemma extract_field_ready:
  assumes "ready d w"
  shows "extract_field get upd (d @ [n]) i (ams, w) =
    (Inr (), ams[i := upd (\<lambda>_. moved_cert (d @ [n]) (get (ams ! i))) (ams ! i)],
     store_cert (d @ [n]) (get (ams ! i)) w)"
  using assms by (simp add: extract_field_def extractCertificate_def moved_cert_def store_cert_def ready_write)

lemma store_certs_ready: "ready d w \<Longrightarrow> ready d (store_certs d ams i w)"
  by (simp add: store_certs_def store_cert_ready)

lemma fold_store_ready: "ready d w \<Longrightarrow> ready d (fold (store_certs d ams) is w)"
  by (induction "is" arbitrary: w) (simp_all add: store_certs_ready)

lemma writeCerts_loop_ready:
  assumes "plain_name managerId" and "ready (storage @ [managerId]) w" and "distinct is"
    and "list_all (\<lambda>i. i < length ams) is"
  shows "writeCerts_loop storage managerId is (ams, w) =
    (Inr (), fold (\<lambda>i ams. ams[i := moved (storage @ [managerId]) i (ams ! i)]) is ams,
     fold (store_certs (storage @ [managerId]) ams) is w)"
  using assms(2-)
proof (induction "is" arbitrary: ams w)
  case (Cons i "is")
  let ?d = "storage @ [managerId]"
  let ?ams = "ams[i := moved ?d i (ams ! i)]"
  have i: "i < length ams" "i \<notin> set is" using Cons.prems by simp_all
  have "writeCerts_loop storage managerId (i # is) (ams, w)
      = writeCerts_loop storage managerId is (?ams, store_certs ?d ams i w)"
    using Cons.prems(1) i(1)
    by (simp add: manager_paths [OF assms(1)] extract_field_ready store_cert_ready store_certs_def moved_def
        del: append_assoc)
  also have "\<dots> = (Inr (), fold (\<lambda>i ams. ams[i := moved ?d i (ams ! i)]) is ?ams,
      fold (store_certs ?d ?ams) is (store_certs ?d ams i w))"
    using Cons.prems by (intro Cons.IH) (simp_all add: store_certs_ready)
  also have "fold (store_certs ?d ?ams) is w = fold (store_certs ?d ams) is w" for w
  proof (rule fold_cong)
    show "store_certs ?d ?ams j = store_certs ?d ams j" if "j \<in> set is" for j
    proof -
      have "i \<noteq> j" using that i(2) by blast
      then show ?thesis by (simp add: store_certs_def fun_eq_iff)
    qed
  qed simp_all
  finally show ?case by simp
qed simp

lemma fold_update_each:
  assumes "distinct is" and "list_all (\<lambda>i. i < length xs) is"
  shows "fold (\<lambda>i xs. xs[i := f i (xs ! i)]) is xs =
    map (\<lambda>i. if i \<in> set is then f i (xs ! i) else xs ! i) [0..<length xs]"
  using assms
proof (induction "is" arbitrary: xs)
  case Nil
  then show ?case by (simp add: map_nth)
next
  case (Cons i "is")
  then show ?case by (auto intro!: nth_equalityI simp: nth_list_update)
qed

lemma entry_store_cert:
  "entry (store_cert (d @ [n]) c w) q =
     (if q = d @ [n] \<and> CertificateRegexp c then Some (FFile c) else entry w q)"
  by (simp add: store_cert_def entry_set_entry)

lemma entry_store_certs_other:
  assumes "q \<noteq> d @ [ca_name i]" "q \<noteq> d @ [crt_name i]" "q \<noteq> d @ [key_name i]"
  shows "entry (store_certs d ams i w) q = entry w q"
  using assms by (simp add: store_certs_def entry_store_cert)

lemma entry_fold_store_other:
  assumes "\<And>i. q \<noteq> d @ [ca_name i] \<and> q \<noteq> d @ [crt_name i] \<and> q \<noteq> d @ [key_name i]"
  shows "entry (fold (store_certs d ams) is w) q = entry w q"
  using assms by (induction "is" arbitrary: w) (simp_all add: entry_store_certs_other)

text \<open>Every certificate of a configuration is in the file whose path replaces it.\<close>

definition cert_in_file :: "path \<Rightarrow> string \<Rightarrow> fs \<Rightarrow> bool" where
  "cert_in_file p c w \<longleftrightarrow> (CertificateRegexp c \<longrightarrow> entry w p = Some (FFile c))"

definition certs_in_files :: "path \<Rightarrow> 'o alertmanager list \<Rightarrow> nat \<Rightarrow> fs \<Rightarrow> bool" where
  "certs_in_files d ams i w \<longleftrightarrow>
     cert_in_file (d @ [ca_name i]) (CAFile (ams ! i)) w
     \<and> cert_in_file (d @ [crt_name i]) (CertFile (ams ! i)) w
     \<and> cert_in_file (d @ [key_name i]) (KeyFile (ams ! i)) w"

lemma fold_store_certs:
  assumes "distinct is" and "i \<in> set is"
  shows "certs_in_files d ams i (fold (store_certs d ams) is w)"
  using assms
proof (induction "is" arbitrary: w)
  case (Cons j "is")
  show ?case
  proof (cases "i = j")
    case False
    with Cons show ?thesis by simp
  next
    case True
    have later: "entry (fold (store_certs d ams) ks w) (d @ [n]) = entry w (d @ [n])"
      if "i \<notin> set ks" "n \<in> {ca_name i, crt_name i, key_name i}" for ks w n
      using that
    proof (induction ks arbitrary: w)
      case (Cons k ks)
      then have "entry (store_certs d ams k w) (d @ [n]) = entry w (d @ [n])"
        by (intro entry_store_certs_other) auto
      with Cons show ?case by simp
    qed simp
    have "certs_in_files d ams i (store_certs d ams i w)"
      by (simp add: certs_in_files_def cert_in_file_def store_certs_def entry_store_cert)
    with Cons.prems True show ?thesis
      by (simp add: certs_in_files_def cert_in_file_def later)
  qed
qed simp

section \<open>The operations\<close>

text \<open>A loop over a map visits each entry once, in some order.\<close>

definition visits_all :: "('o, 'g) rules_env \<Rightarrow> bool" where
  "visits_all env \<longleftrightarrow> (\<forall>n. mset (range_order env n) = mset [0..<n])"

lemma visits_all_order:
  assumes "visits_all env"
  shows "distinct (range_order env n)" "set (range_order env n) = {..<n}"
  using assms mset_eq_imp_distinct_iff [of "range_order env n" "[0..<n]"]
    mset_eq_setD [of "range_order env n" "[0..<n]"]
  by (auto simp: visits_all_def)

definition moved_all :: "path \<Rightarrow> 'o alertmanager list \<Rightarrow> 'o alertmanager list" where
  "moved_all d ams = map (\<lambda>i. moved d i (ams ! i)) [0..<length ams]"

definition no_certs :: "'o alertmanager list \<Rightarrow> bool" where
  "no_certs ams \<longleftrightarrow> list_all (\<lambda>am. \<not> CertificateRegexp (CAFile am) \<and> \<not> CertificateRegexp (CertFile am)
     \<and> \<not> CertificateRegexp (KeyFile am)) ams"

lemma moved_all_no_certs: "no_certs ams \<Longrightarrow> moved_all d ams = ams"
  by (rule nth_equalityI) (simp_all add: no_certs_def moved_all_def moved_def moved_cert_def list_all_length)

lemma no_certs_moved: "no_certs (moved_all d ams)"
proof -
  have "\<not> CertificateRegexp (moved_cert p c)" for p c
    by (simp add: moved_cert_def CertificateRegexp_path)
  then show ?thesis by (simp add: no_certs_def moved_all_def moved_def list_all_length)
qed

lemma fold_store_no_certs:
  assumes "no_certs ams" and "list_all (\<lambda>i. i < length ams) is"
  shows "fold (store_certs d ams) is w = w"
proof -
  have "store_certs d ams i w = w" if "i < length ams" for i
    using assms(1) that by (simp add: store_certs_def store_cert_def no_certs_def list_all_length)
  with assms(2) show ?thesis by (induction "is") simp_all
qed

lemma writeCerts_ready:
  assumes "plain_name managerId" and "ready (storage @ [managerId]) w" and "visits_all env"
  shows "writeCerts env storage managerId (Some ams, w) =
    (Inr (), Some (moved_all (storage @ [managerId]) ams),
     fold (store_certs (storage @ [managerId]) ams) (range_order env (length ams)) w)"
proof -
  have o: "distinct (range_order env (length ams))" "set (range_order env (length ams)) = {..<length ams}"
    "list_all (\<lambda>i. i < length ams) (range_order env (length ams))"
    using visits_all_order [OF assms(3), of "length ams"] by (simp_all add: list_all_iff)
  have "fold (\<lambda>i ams. ams[i := moved (storage @ [managerId]) i (ams ! i)]) (range_order env (length ams)) ams
      = moved_all (storage @ [managerId]) ams"
    using o by (simp add: fold_update_each moved_all_def)
  then show ?thesis
    using writeCerts_loop_ready [OF assms(1,2) o(1,3)] by (simp add: writeCerts_def)
qed

lemma rulesManagerExists_ok:
  assumes "plain_name managerId" and "fs_faults w = []" and "dir_ok w storage"
  shows "rulesManagerExists storage managerId w = (Inr (entry w (storage @ [managerId]) \<noteq> None), w)"
  using assms by (simp add: rulesManagerExists_def manager_paths fs_simps split: option.split)

lemma ready_mkdir:
  assumes "fs_faults w = []" and "dir_ok w d" and "tree_ok w" and "entry w (d @ [n]) = None"
  shows "ready (d @ [n]) (set_entry (d @ [n]) FDir w)"
proof -
  have "entry w ((d @ [n]) @ [m]) = None" for m
    using tree_ok_parent [OF assms(3), of "d @ [n]" m] assms(4) by (cases "entry w ((d @ [n]) @ [m])") auto
  moreover have "tree_ok (set_entry (d @ [n]) FDir w)"
    using assms by (intro tree_ok_set_entry) (auto intro: dir_ok_entry)
  moreover have "dir_ok (set_entry (d @ [n]) FDir w) (d @ [n])"
    using assms by (simp add: dir_ok_snoc dir_ok_set_entry entry_set_entry)
  ultimately show ?thesis
    using assms by (simp add: ready_def entry_set_entry)
qed

text \<open>Every path below the manager's directory apart, nothing changes.\<close>

lemma Files_Create_ok:
  assumes "plain_name managerId" and "visits_all env" and "fs_faults w = []" and "dir_ok w storage"
    and "tree_ok w" and "entry w (storage @ [managerId]) = None"
    and "yaml_Marshal_groups env [] = Some y0"
    and "yaml_Marshal_alertmanagers env (Some (moved_all (storage @ [managerId]) ams)) = Some y1"
  obtains w' where "Files_Create env storage managerId (Some ams, w) =
      (Inr (storage @ [managerId, ''rules.yml'']), Some (moved_all (storage @ [managerId]) ams), w')"
    and "ready (storage @ [managerId]) w'"
    and "entry w' (storage @ [managerId, ''rules.yml'']) = Some (FFile y0)"
    and "entry w' (storage @ [managerId, ''alertmanager.yml'']) = Some (FFile y1)"
    and "\<forall>i<length ams. certs_in_files (storage @ [managerId]) ams i w'"
    and "\<And>q. \<not> prefix (storage @ [managerId]) q \<Longrightarrow> entry w' q = entry w q"
    and "\<And>n. no_certs ams \<Longrightarrow> n \<noteq> ''rules.yml'' \<Longrightarrow> n \<noteq> ''alertmanager.yml'' \<Longrightarrow>
      entry w' (storage @ [managerId, n]) = None"
proof -
  let ?d = "storage @ [managerId]"
  let ?is = "range_order env (length ams)"
  define w1 where "w1 = set_entry ?d FDir w"
  define w2 where "w2 = set_entry (?d @ [''rules.yml'']) (FFile y0) w1"
  define w3 where "w3 = fold (store_certs ?d ams) ?is w2"
  define w4 where "w4 = set_entry (?d @ [''alertmanager.yml'']) (FFile y1) w3"
  have r1: "ready ?d w1" using assms by (simp add: w1_def ready_mkdir)
  have r2: "ready ?d w2" using ready_write [OF r1] by (simp add: w2_def)
  have r3: "ready ?d w3" using fold_store_ready [OF r2] by (simp add: w3_def)
  have "Files_Create env storage managerId (Some ams, w) =
      (Inr (?d @ [''rules.yml'']), Some (moved_all ?d ams), w4)"
    using assms(1-8) ready_write [OF r1] ready_write [OF r3] writeCerts_ready [OF assms(1) r2 assms(2)]
    unfolding Files_Create_def
    by (simp add: rulesManagerExists_ok manager_paths fs_simps writeRules_def writeAlertManager_def
        w1_def [symmetric] w2_def [symmetric] w3_def [symmetric] w4_def [symmetric] del: append_assoc)
  moreover have "ready ?d w4" using ready_write [OF r3] by (simp add: w4_def)
  moreover have "entry w4 (?d @ [''rules.yml'']) = Some (FFile y0)"
  proof -
    have "entry w3 (?d @ [''rules.yml'']) = entry w2 (?d @ [''rules.yml''])"
      unfolding w3_def by (rule entry_fold_store_other) simp
    then show ?thesis by (simp add: w4_def w2_def entry_set_entry)
  qed
  moreover have "entry w4 (?d @ [''alertmanager.yml'']) = Some (FFile y1)"
    by (simp add: w4_def entry_set_entry)
  moreover have "certs_in_files ?d ams i w4" if "i < length ams" for i
  proof -
    have "certs_in_files ?d ams i w3"
      unfolding w3_def using visits_all_order [OF assms(2), of "length ams"] that
      by (intro fold_store_certs) auto
    then show ?thesis
      by (simp add: certs_in_files_def cert_in_file_def w4_def entry_set_entry)
  qed
  moreover have "entry w4 q = entry w q" if "\<not> prefix ?d q" for q
  proof -
    have q: "q \<noteq> ?d" "q \<noteq> ?d @ [n]" for n using that by auto
    have "entry w3 q = entry w2 q" unfolding w3_def using q by (intro entry_fold_store_other) simp
    with q show ?thesis by (simp add: w4_def w2_def w1_def entry_set_entry)
  qed
  moreover have "entry w4 (?d @ [n]) = None"
    if "no_certs ams" "n \<noteq> ''rules.yml''" "n \<noteq> ''alertmanager.yml''" for n
  proof -
    have "w3 = w2"
      unfolding w3_def using that(1) visits_all_order(2) [OF assms(2), of "length ams"]
      by (intro fold_store_no_certs) (simp_all add: list_all_iff)
    moreover have "entry w (?d @ [n]) = None"
      using tree_ok_parent [OF assms(5), of ?d n] assms(6) by (cases "entry w (?d @ [n])") auto
    ultimately show ?thesis using that by (simp add: w4_def w2_def w1_def entry_set_entry)
  qed
  ultimately show thesis using that [of w4] by simp
qed

lemma Files_Create_exists:
  assumes "plain_name managerId" and "fs_faults w = []" and "dir_ok w storage"
    and "entry w (storage @ [managerId]) \<noteq> None"
  shows "Files_Create env storage managerId (ams, w) = (Inl ManagerExistsError, ams, w)"
  using assms by (simp add: Files_Create_def rulesManagerExists_ok)

lemma Files_missing:
  assumes "plain_name managerId" and "fs_faults w = []" and "dir_ok w storage"
    and "entry w (storage @ [managerId]) = None"
  shows "Files_Delete storage managerId w = (Inl ManagerNotExistsError, w)"
    and "Files_UpsertRuleGroup env storage managerId g w = (Inl ManagerNotExistsError, w)"
  using assms by (simp_all add: Files_Delete_def Files_UpsertRuleGroup_def rulesManagerExists_ok)

lemma Files_Delete_ok:
  assumes "plain_name managerId" and "fs_faults w = []" and "dir_ok w storage"
    and "entry w (storage @ [managerId]) \<noteq> None"
  shows "Files_Delete storage managerId w =
    (Inr (), drop_entries (set (below w (storage @ [managerId]))) w)"
  using assms by (simp add: Files_Delete_def rulesManagerExists_ok manager_paths fs_simps)

lemma Files_UpsertRuleGroup_ok:
  assumes "plain_name managerId" and "ready (storage @ [managerId]) w"
    and "yaml_Marshal_groups env [g] = Some y"
  shows "Files_UpsertRuleGroup env storage managerId g w =
    (Inr (), set_entry (storage @ [managerId, ''rules.yml'']) (FFile y) w)"
  using assms ready_write(1) [OF assms(2), of "''rules.yml''" y]
  by (simp add: Files_UpsertRuleGroup_def rulesManagerExists_ok manager_paths ready_def dir_ok_snoc
      writeRules_def)

lemma Files_Load_ok:
  assumes "plain_name managerId" and "ready (storage @ [managerId]) w"
    and "entry w (storage @ [managerId, ''alertmanager.yml'']) = Some (FFile y)"
    and "yaml_Unmarshal_alertmanagers env y = Some ams"
  shows "Files_Load env storage managerId w =
    (Inr (storage @ [managerId, ''rules.yml''], Some ams), w)"
  using assms os_Stat_ok [of w "storage @ [managerId]" "''alertmanager.yml''"]
    ioutil_ReadFile_ok [of w "storage @ [managerId]" "''alertmanager.yml''" y]
  by (simp add: Files_Load_def manager_paths ready_def)

end
