(* ===== verification/Rule_Managers.thy ===== *)
theory Rule_Managers
  imports Rule_Files Points
begin

text \<open>
  The rule managers of one node: a Prometheus rule manager with its notifier and discovery agent
  (\<^verbatim>\<open>prom_manager.go\<close>, \<^verbatim>\<open>discovery.go\<close>), the managers of the node by name
  (\<^verbatim>\<open>prom_managers.go\<close>), the local rule manager, which keeps the managers and their
  files together (\<^verbatim>\<open>local_rule_manager.go\<close>), and the loading of the managers when
  the node starts (\<open>loadRules\<close> of \<^verbatim>\<open>metric_store.go\<close>). Prometheus' rule manager is
  the groups it evaluates and whether it runs: loading a rule file is \<open>load_groups\<close>, and a failed
  load keeps the groups it had. The theory shows that the managers in memory and on disk agree
  after every operation and that a restart brings them back.
\<close>

section \<open>One manager\<close>

record ('o, 'g) promManager =
  pm_file :: path
  pm_alertManagers :: "'o alertmanager list option"
  pm_groups :: "'g list"
  pm_running :: bool
  pm_notifier :: "'o alertmanager list"
  pm_discovery :: "(string \<times> 'o alertmanager) list"

definition NewPromRuleManager :: "path \<Rightarrow> 'o alertmanager list option \<Rightarrow> ('o, 'g) promManager" where
  "NewPromRuleManager promRuleFile alertManagers =
     \<lparr>pm_file = promRuleFile, pm_alertManagers = alertManagers, pm_groups = [], pm_running = False,
      pm_notifier = [], pm_discovery = []\<rparr>"

text \<open>\<open>ApplyAlertmanagerConfig\<close>: the configurations by name; the agent is left as it was when
  one cannot be encoded.\<close>

definition ApplyAlertmanagerConfig ::
  "('o, 'g) rules_env \<Rightarrow> 'o alertmanager list \<Rightarrow> rules_error + (string \<times> 'o alertmanager) list" where
  "ApplyAlertmanagerConfig env configs =
     (if list_all (json_Marshal_ok env) configs
      then Inr (map (\<lambda>i. (config_index i, configs ! i)) [0..<length configs])
      else Inl (OtherError (std_error env)))"

fun file_contents :: "fentry option \<Rightarrow> string option" where
  "file_contents (Some (FFile c)) = Some c"
| "file_contents _ = None"

definition pm_Reload ::
  "('o, 'g) rules_env \<Rightarrow> fs \<Rightarrow> ('o, 'g) promManager \<Rightarrow> (rules_error + unit) \<times> ('o, 'g) promManager" where
  "pm_Reload env w pm =
     (case load_groups env (file_contents (entry w (pm_file pm))) of
        None \<Rightarrow> (Inl (OtherError (std_error env)), pm)
      | Some groups \<Rightarrow>
          let pm = pm\<lparr>pm_groups := groups\<rparr>
          in case pm_alertManagers pm of
               None \<Rightarrow> (Inr (), pm)
             | Some ams \<Rightarrow>
                 (case apply_config env w ams of
                    Some e \<Rightarrow> (Inl (OtherError e), pm)
                  | None \<Rightarrow>
                      let pm = pm\<lparr>pm_notifier := ams\<rparr>
                      in case ApplyAlertmanagerConfig env ams of
                           Inl e \<Rightarrow> (Inl e, pm)
                         | Inr d \<Rightarrow> (Inr (), pm\<lparr>pm_discovery := d\<rparr>)))"

definition pm_Start ::
  "('o, 'g) rules_env \<Rightarrow> fs \<Rightarrow> ('o, 'g) promManager \<Rightarrow> (rules_error + unit) \<times> ('o, 'g) promManager" where
  "pm_Start env w pm = seqE (pm_Reload env w pm) (\<lambda>_ pm. (Inr (), pm\<lparr>pm_running := True\<rparr>))"

section \<open>The managers of a node\<close>

definition Managers_Create ::
  "('o, 'g) rules_env \<Rightarrow> string \<Rightarrow> path \<Rightarrow> 'o alertmanager list option \<Rightarrow> fs \<Rightarrow>
    ('o, 'g) promManager gomap \<Rightarrow> (rules_error + unit) \<times> ('o, 'g) promManager gomap" where
  "Managers_Create env managerId promRuleFile alertManagers w ms =
     (case pm_Start env w (NewPromRuleManager promRuleFile alertManagers) of
        (r, pm) \<Rightarrow> (r, gm_set ms managerId pm))"

text \<open>A manager is stopped before it is forgotten.\<close>

definition pm_Stop :: "('o, 'g) promManager \<Rightarrow> ('o, 'g) promManager" where
  "pm_Stop pm = pm\<lparr>pm_running := False\<rparr>"

definition Managers_Delete ::
  "string \<Rightarrow> ('o, 'g) promManager gomap \<Rightarrow> (rules_error + unit) \<times> ('o, 'g) promManager gomap" where
  "Managers_Delete managerId ms =
     (case map_of ms managerId of
        None \<Rightarrow> (Inl ManagerNotExistsError, ms)
      | Some pm \<Rightarrow> (Inr (), gm_delete (gm_set ms managerId (pm_Stop pm)) managerId))"

text \<open>The loop of \<open>DeleteAll\<close> deletes the entry it visits and collects the errors.\<close>

fun delete_all_loop ::
  "string list \<Rightarrow> rules_error list \<times> ('o, 'g) promManager gomap \<Rightarrow>
    rules_error list \<times> ('o, 'g) promManager gomap" where
  "delete_all_loop [] s = s"
| "delete_all_loop (managerId # ids) (errs, ms) =
     (case Managers_Delete managerId ms of
        (Inl e, ms) \<Rightarrow> delete_all_loop ids (errs @ [e], ms)
      | (Inr _, ms) \<Rightarrow> delete_all_loop ids (errs, ms))"

fun join_words :: "string list \<Rightarrow> string" where
  "join_words [] = []"
| "join_words [x] = x"
| "join_words (x # xs) = x @ '' '' @ join_words xs"

definition Managers_DeleteAll ::
  "('o, 'g) promManager gomap \<Rightarrow> (rules_error + unit) \<times> ('o, 'g) promManager gomap" where
  "Managers_DeleteAll ms =
     (case delete_all_loop (map fst ms) ([], ms) of
        (errs, ms') \<Rightarrow>
          if 0 < length errs
          then (Inl (OtherError (''unable to delete '' @ format_uint (length errs) @ '' of ''
                 @ format_uint (length ms') @ '' rule managers: [''
                 @ join_words (map error_text errs) @ '']'')), ms')
          else (Inr (), ms'))"

fun Managers_Reload ::
  "('o, 'g) rules_env \<Rightarrow> fs \<Rightarrow> ('o, 'g) promManager gomap \<Rightarrow>
    (rules_error + unit) \<times> ('o, 'g) promManager gomap" where
  "Managers_Reload env w [] = (Inr (), [])"
| "Managers_Reload env w ((managerId, pm) # ms) =
     (case pm_Reload env w pm of
        (Inl e, pm) \<Rightarrow> (Inl e, (managerId, pm) # ms)
      | (Inr _, pm) \<Rightarrow>
          (case Managers_Reload env w ms of (r, ms) \<Rightarrow> (r, (managerId, pm) # ms)))"

definition Managers_RuleGroups :: "('o, 'g) promManager gomap \<Rightarrow> 'g list" where
  "Managers_RuleGroups ms = concat (map (\<lambda>(_, pm). pm_groups pm) ms)"

definition Managers_AlertingRules ::
  "('g \<Rightarrow> 'a list) \<Rightarrow> ('o, 'g) promManager gomap \<Rightarrow> 'a list" where
  "Managers_AlertingRules alerting ms = concat (map (\<lambda>(_, pm). concat (map alerting (pm_groups pm))) ms)"

text \<open>A URL is its string; \<open>urls\<close> and \<open>dropped\<close> are those the notifier of a manager knows.\<close>

definition Managers_Alertmanagers ::
  "(('o, 'g) promManager \<Rightarrow> string list) \<Rightarrow> ('o, 'g) promManager gomap \<Rightarrow> string list" where
  "Managers_Alertmanagers urls ms =
     map snd (fold (\<lambda>u m. gm_set m u u) (concat (map (\<lambda>(_, pm). urls pm) ms)) [])"

definition Managers_DroppedAlertmanagers ::
  "(('o, 'g) promManager \<Rightarrow> string list) \<Rightarrow> ('o, 'g) promManager gomap \<Rightarrow> string list" where
  "Managers_DroppedAlertmanagers dropped ms = concat (map (\<lambda>(_, pm). dropped pm) ms)"

section \<open>Alerts and queries\<close>

record ('t, 'l) alert =
  FiredAt :: 't
  ResolvedAt :: "'t option"
  ValidUntil :: 't
  alert_Labels :: 'l
  alert_Annotations :: 'l

record ('t, 'l) notification =
  StartsAt :: 't
  EndsAt :: 't
  note_Labels :: 'l
  note_Annotations :: 'l

text \<open>What \<open>sendAlerts\<close> hands to the notifier; \<open>None\<close>: nothing is sent. The zero time is
  \<open>None\<close>.\<close>

definition sendAlerts :: "('t, 'l) alert list \<Rightarrow> ('t, 'l) notification list option" where
  "sendAlerts alerts =
     (let res = map (\<lambda>a. \<lparr>StartsAt = FiredAt a,
            EndsAt = (case ResolvedAt a of Some t \<Rightarrow> t | None \<Rightarrow> ValidUntil a),
            note_Labels = alert_Labels a, note_Annotations = alert_Annotations a\<rparr>) alerts
      in if 0 < length alerts then Some res else None)"

text \<open>The samples of a query, with their times in nanoseconds.\<close>

definition wrappedEngineQueryFunc ::
  "(string \<Rightarrow> int \<Rightarrow> 'e + (int \<times> float64 \<times> 'l) list) \<Rightarrow> string \<Rightarrow> int \<Rightarrow> 'e + (int \<times> float64 \<times> 'l) list" where
  "wrappedEngineQueryFunc engine qs t =
     (case engine qs t of
        Inl e \<Rightarrow> Inl e
      | Inr vector \<Rightarrow> Inr (map (\<lambda>(ts, v, metric). (MillisecondsToNanoseconds ts, v, metric)) vector))"

section \<open>The local rule manager\<close>

record ('o, 'g) rule_node =
  rn_fs :: fs
  rn_managers :: "('o, 'g) promManager gomap"

definition on_fs :: "(fs \<Rightarrow> (rules_error + 'a) \<times> fs) \<Rightarrow> ('o, 'g) rule_node \<Rightarrow> (rules_error + 'a) \<times> ('o, 'g) rule_node" where
  "on_fs f nd = (case f (rn_fs nd) of (r, w) \<Rightarrow> (r, nd\<lparr>rn_fs := w\<rparr>))"

definition on_managers ::
  "(('o, 'g) promManager gomap \<Rightarrow> (rules_error + 'a) \<times> ('o, 'g) promManager gomap) \<Rightarrow>
    ('o, 'g) rule_node \<Rightarrow> (rules_error + 'a) \<times> ('o, 'g) rule_node" where
  "on_managers f nd = (case f (rn_managers nd) of (r, ms) \<Rightarrow> (r, nd\<lparr>rn_managers := ms\<rparr>))"

text \<open>A \<open>Manager\<close> is its id and its configurations.\<close>

type_synonym 'o manager = "string \<times> 'o alertmanager list option"

definition Local_CreateManager ::
  "('o, 'g) rules_env \<Rightarrow> path \<Rightarrow> string \<Rightarrow> 'o alertmanager list option \<times> ('o, 'g) rule_node \<Rightarrow>
    (rules_error + 'o manager) \<times> 'o alertmanager list option \<times> ('o, 'g) rule_node" where
  "Local_CreateManager env storage managerId s =
     (case s of (ams, nd) \<Rightarrow>
        (case Files_Create env storage managerId (ams, rn_fs nd) of
           (Inl e, ams, w) \<Rightarrow> (Inl e, ams, nd\<lparr>rn_fs := w\<rparr>)
         | (Inr rulesFile, ams, w) \<Rightarrow>
             (case on_managers (Managers_Create env managerId rulesFile ams w) (nd\<lparr>rn_fs := w\<rparr>) of
                (Inl e, nd) \<Rightarrow> (Inl e, ams, nd)
              | (Inr _, nd) \<Rightarrow> (Inr (managerId, ams), ams, nd))))"

definition Local_DeleteManager ::
  "path \<Rightarrow> string \<Rightarrow> ('o, 'g) rule_node \<Rightarrow> (rules_error + unit) \<times> ('o, 'g) rule_node" where
  "Local_DeleteManager storage managerId nd =
     seqE (on_fs (Files_Delete storage managerId) nd) (\<lambda>_ nd. on_managers (Managers_Delete managerId) nd)"

definition Local_UpsertRuleGroup ::
  "('o, 'g) rules_env \<Rightarrow> path \<Rightarrow> string \<Rightarrow> ruleGroup \<Rightarrow> ('o, 'g) rule_node \<Rightarrow>
    (rules_error + unit) \<times> ('o, 'g) rule_node" where
  "Local_UpsertRuleGroup env storage managerId ruleGroup nd =
     (case ConvertToPromRuleGroup env ruleGroup of
        Inl e \<Rightarrow> (Inl e, nd)
      | Inr promRuleGroup \<Rightarrow>
          seqE (on_fs (Files_UpsertRuleGroup env storage managerId promRuleGroup) nd) (\<lambda>_ nd.
            on_managers (Managers_Reload env (rn_fs nd)) nd))"

text \<open>\<open>loadRules\<close>: the managers of the directories found when the node starts. A manager
  whose configuration cannot be read is skipped; the error of a manager that does not start is
  dropped.\<close>

fun load_rules_loop ::
  "('o, 'g) rules_env \<Rightarrow> path \<Rightarrow> string list \<Rightarrow> ('o, 'g) rule_node \<Rightarrow> ('o, 'g) rule_node" where
  "load_rules_loop env storage [] nd = nd"
| "load_rules_loop env storage (managerId # names) nd =
     (case on_fs (Files_Load env storage managerId) nd of
        (Inl _, nd) \<Rightarrow> load_rules_loop env storage names nd
      | (Inr (rulesFile, ams), nd) \<Rightarrow>
          load_rules_loop env storage names
            (snd (on_managers (Managers_Create env managerId rulesFile ams (rn_fs nd)) nd)))"

definition loadRules :: "('o, 'g) rules_env \<Rightarrow> path \<Rightarrow> ('o, 'g) rule_node \<Rightarrow> ('o, 'g) rule_node" where
  "loadRules env storage nd =
     (case ioutil_ReadDir storage (rn_fs nd) of
        (Inl _, w) \<Rightarrow> nd\<lparr>rn_fs := w\<rparr>
      | (Inr directories, w) \<Rightarrow> load_rules_loop env storage directories (nd\<lparr>rn_fs := w\<rparr>))"

section \<open>Managers in memory and on disk\<close>

text \<open>Configurations that the notifier takes whatever files there are, that have no
  certificates in them, and that the YAML libraries write and read back.\<close>

definition accepted :: "('o, 'g) rules_env \<Rightarrow> 'o alertmanager list \<Rightarrow> bool" where
  "accepted env ams \<longleftrightarrow> (\<forall>w. apply_config env w ams = None) \<and> list_all (json_Marshal_ok env) ams
     \<and> no_certs ams \<and> yaml_ok env ams"

text \<open>The libraries write an empty rule file and read it back.\<close>

definition empty_file_ok :: "('o, 'g) rules_env \<Rightarrow> bool" where
  "empty_file_ok env \<longleftrightarrow>
     (case yaml_Marshal_groups env [] of None \<Rightarrow> False | Some y \<Rightarrow> load_groups env (Some y) = Some [])"

definition running_manager :: "path \<Rightarrow> string \<Rightarrow> 'g list \<Rightarrow> 'o alertmanager list \<Rightarrow> ('o, 'g) promManager" where
  "running_manager storage managerId groups ams =
     \<lparr>pm_file = storage @ [managerId, ''rules.yml''], pm_alertManagers = Some ams, pm_groups = groups,
      pm_running = True, pm_notifier = ams,
      pm_discovery = map (\<lambda>i. (config_index i, ams ! i)) [0..<length ams]\<rparr>"

definition manager_files ::
  "('o, 'g) rules_env \<Rightarrow> path \<Rightarrow> fs \<Rightarrow> string \<Rightarrow> 'g list \<Rightarrow> 'o alertmanager list \<Rightarrow> bool" where
  "manager_files env storage w managerId groups ams \<longleftrightarrow>
     plain_name managerId \<and> ready (storage @ [managerId]) w \<and> accepted env ams
     \<and> (\<exists>c. entry w (storage @ [managerId, ''rules.yml'']) = Some (FFile c)
          \<and> load_groups env (Some c) = Some groups)
     \<and> (\<exists>y. entry w (storage @ [managerId, ''alertmanager.yml'']) = Some (FFile y)
          \<and> yaml_Unmarshal_alertmanagers env y = Some ams)"

definition manager_ok ::
  "('o, 'g) rules_env \<Rightarrow> path \<Rightarrow> fs \<Rightarrow> string \<Rightarrow> ('o, 'g) promManager \<Rightarrow> bool" where
  "manager_ok env storage w managerId pm \<longleftrightarrow>
     (\<exists>groups ams. pm = running_manager storage managerId groups ams
        \<and> manager_files env storage w managerId groups ams)"

definition storage_ok :: "path \<Rightarrow> fs \<Rightarrow> bool" where
  "storage_ok storage w \<longleftrightarrow> fs_faults w = [] \<and> dir_ok w storage \<and> tree_ok w"

definition node_inv :: "('o, 'g) rules_env \<Rightarrow> path \<Rightarrow> ('o, 'g) rule_node \<Rightarrow> bool" where
  "node_inv env storage nd \<longleftrightarrow>
     storage_ok storage (rn_fs nd) \<and> gomap_ok (rn_managers nd)
     \<and> (\<forall>managerId. entry (rn_fs nd) (storage @ [managerId]) \<noteq> None \<longleftrightarrow> managerId \<in> fst ` set (rn_managers nd))
     \<and> (\<forall>(managerId, pm) \<in> set (rn_managers nd). manager_ok env storage (rn_fs nd) managerId pm)"

text \<open>What a node evaluates for a manager, and the alertmanagers it notifies.\<close>

definition node_view :: "('o, 'g) rule_node \<Rightarrow> string \<Rightarrow> ('g list \<times> 'o alertmanager list option) option" where
  "node_view nd managerId =
     map_option (\<lambda>pm. (pm_groups pm, pm_alertManagers pm)) (map_of (rn_managers nd) managerId)"

lemma accepted_calls:
  assumes "accepted env ams"
  shows "apply_config env w ams = None"
    and "ApplyAlertmanagerConfig env ams = Inr (map (\<lambda>i. (config_index i, ams ! i)) [0..<length ams])"
  using assms by (simp_all add: accepted_def ApplyAlertmanagerConfig_def)

lemma pm_Reload_running:
  assumes "manager_files env storage w managerId groups ams"
  shows "pm_Reload env w (running_manager storage managerId groups' ams) =
    (Inr (), running_manager storage managerId groups ams)"
  using assms
  by (auto simp: manager_files_def pm_Reload_def running_manager_def accepted_calls)

lemma pm_Start_files:
  assumes "manager_files env storage w managerId groups ams"
  shows "pm_Start env w (NewPromRuleManager (storage @ [managerId, ''rules.yml'']) (Some ams)) =
    (Inr (), running_manager storage managerId groups ams)"
  using assms
  by (auto simp: manager_files_def pm_Start_def pm_Reload_def NewPromRuleManager_def running_manager_def
      accepted_calls)

text \<open>A manager does not notice what changes outside its directory.\<close>

lemma manager_files_frame:
  assumes "manager_files env storage w managerId groups ams" and "storage_ok storage w'"
    and "\<And>q. prefix (storage @ [managerId]) q \<Longrightarrow> entry w' q = entry w q"
  shows "manager_files env storage w' managerId groups ams"
proof -
  have "ready (storage @ [managerId]) w'"
    using assms by (simp add: manager_files_def ready_def storage_ok_def dir_ok_snoc)
  then show ?thesis using assms by (simp add: manager_files_def)
qed

lemma not_prefix_sibling: "i \<noteq> j \<Longrightarrow> prefix (d @ [i]) q \<Longrightarrow> \<not> prefix (d @ [j]) q"
  by (auto simp: prefix_def)

lemma manager_ok_frame:
  assumes "manager_ok env storage w i pm" and "storage_ok storage w'" and "i \<noteq> j"
    and "\<And>q. \<not> prefix (storage @ [j]) q \<Longrightarrow> entry w' q = entry w q"
  shows "manager_ok env storage w' i pm"
  using assms manager_files_frame [of env storage w i _ _ w'] not_prefix_sibling [OF assms(3)]
  unfolding manager_ok_def by blast

text \<open>One manager set, the others as they were.\<close>

lemma node_inv_set:
  assumes "node_inv env storage nd" and "manager_files env storage w managerId groups ams"
    and "storage_ok storage w"
    and frame: "\<And>q. \<not> prefix (storage @ [managerId]) q \<Longrightarrow> entry w q = entry (rn_fs nd) q"
  shows "node_inv env storage
      \<lparr>rn_fs = w, rn_managers = gm_set (rn_managers nd) managerId (running_manager storage managerId groups ams)\<rparr>"
proof -
  let ?ms = "gm_set (rn_managers nd) managerId (running_manager storage managerId groups ams)"
  have "manager_ok env storage w i pm" if "(i, pm) \<in> set ?ms" for i pm
  proof (cases "i = managerId")
    case True
    moreover have "map_of ?ms i = Some pm"
      using that assms(1) by (simp add: node_inv_def distinct_update)
    ultimately show ?thesis using assms(2) by (auto simp: update_conv' manager_ok_def)
  next
    case False
    with that have "(i, pm) \<in> set (rn_managers nd)"
      using set_update_subset [OF that] by auto
    then show ?thesis
      using assms(1) manager_ok_frame [OF _ assms(3) False frame]
      unfolding node_inv_def by fastforce
  qed
  moreover have "entry w (storage @ [i]) \<noteq> None \<longleftrightarrow> i \<in> fst ` set ?ms" for i
  proof (cases "i = managerId")
    case True
    have "entry w (storage @ [managerId]) \<noteq> None"
      using assms(2) by (simp add: manager_files_def ready_def dir_ok_snoc)
    with True show ?thesis by (simp add: dom_update)
  next
    case False
    then have "entry w (storage @ [i]) = entry (rn_fs nd) (storage @ [i])" by (intro frame) simp
    with False assms(1) show ?thesis by (simp add: node_inv_def dom_update)
  qed
  ultimately show ?thesis
    using assms(1,3) by (auto simp: node_inv_def distinct_update)
qed

section \<open>The operations of a node\<close>

text \<open>The groups that Prometheus makes of a rule group, written to a file and loaded.\<close>

definition loaded_groups :: "('o, 'g) rules_env \<Rightarrow> ruleGroup \<Rightarrow> 'g list option" where
  "loaded_groups env g =
     (case ConvertToPromRuleGroup env g of
        Inl _ \<Rightarrow> None
      | Inr pg \<Rightarrow> Option.bind (yaml_Marshal_groups env [pg]) (\<lambda>y. load_groups env (Some y)))"

lemma node_view_None:
  assumes "node_inv env storage nd"
  shows "node_view nd i = None \<longleftrightarrow> entry (rn_fs nd) (storage @ [i]) = None"
proof -
  have "entry (rn_fs nd) (storage @ [i]) \<noteq> None \<longleftrightarrow> i \<in> fst ` set (rn_managers nd)"
    using assms by (simp add: node_inv_def)
  then show ?thesis by (auto simp: node_view_def map_of_eq_None_iff)
qed

lemma node_view_Some:
  assumes "node_inv env storage nd" and "node_view nd i = Some (groups, am)"
  obtains ams where "am = Some ams" and "map_of (rn_managers nd) i = Some (running_manager storage i groups ams)"
    and "manager_files env storage (rn_fs nd) i groups ams"
proof -
  obtain pm where pm: "map_of (rn_managers nd) i = Some pm" "groups = pm_groups pm" "am = pm_alertManagers pm"
    using assms(2) by (auto simp: node_view_def)
  then have "manager_ok env storage (rn_fs nd) i pm"
    using assms(1) by (auto simp: node_inv_def dest: map_of_SomeD)
  then show thesis using pm that by (auto simp: manager_ok_def running_manager_def)
qed

lemma storage_of_inv: "node_inv env storage nd \<Longrightarrow> storage_ok storage (rn_fs nd)"
  by (simp add: node_inv_def)

lemma storage_ok_ready: "ready (storage @ [i]) w \<Longrightarrow> storage_ok storage w"
  by (simp add: ready_def storage_ok_def dir_ok_snoc)

lemma Local_create_new:
  assumes "node_inv env storage nd" and "plain_name i" and "visits_all env" and "empty_file_ok env"
    and "accepted env ams" and "node_view nd i = None"
  shows "\<exists>nd'. Local_CreateManager env storage i (Some ams, nd) = (Inr (i, Some ams), Some ams, nd')
    \<and> node_inv env storage nd' \<and> node_view nd' = (node_view nd)(i \<mapsto> ([], Some ams))"
proof -
  let ?d = "storage @ [i]"
  have s: "fs_faults (rn_fs nd) = []" "dir_ok (rn_fs nd) storage" "tree_ok (rn_fs nd)"
    using storage_of_inv [OF assms(1)] by (simp_all add: storage_ok_def)
  have new: "entry (rn_fs nd) ?d = None" using node_view_None [OF assms(1)] assms(6) by simp
  obtain y0 where y0: "yaml_Marshal_groups env [] = Some y0" "load_groups env (Some y0) = Some []"
    using assms(4) by (auto simp: empty_file_ok_def split: option.splits)
  have am: "moved_all ?d ams = ams" using assms(5) by (simp add: accepted_def moved_all_no_certs)
  obtain y1 where y1: "yaml_Marshal_alertmanagers env (Some (moved_all ?d ams)) = Some y1"
      "yaml_Unmarshal_alertmanagers env y1 = Some ams"
    using assms(5) by (auto simp: am accepted_def yaml_ok_def split: option.splits)
  obtain w where w: "Files_Create env storage i (Some ams, rn_fs nd) =
        (Inr (storage @ [i, ''rules.yml'']), Some ams, w)"
      "ready ?d w" "entry w (storage @ [i, ''rules.yml'']) = Some (FFile y0)"
      "entry w (storage @ [i, ''alertmanager.yml'']) = Some (FFile y1)"
      "\<And>q. \<not> prefix ?d q \<Longrightarrow> entry w q = entry (rn_fs nd) q"
    by (rule Files_Create_ok [OF assms(2,3) s new y0(1) y1(1)]) (auto simp: am)
  have files: "manager_files env storage w i [] ams"
    using w(2-4) y0(2) y1(2) assms(2,5) by (simp add: manager_files_def)
  let ?nd = "\<lparr>rn_fs = w, rn_managers = gm_set (rn_managers nd) i (running_manager storage i [] ams)\<rparr>"
  have "Local_CreateManager env storage i (Some ams, nd) = (Inr (i, Some ams), Some ams, ?nd)"
    using w(1) pm_Start_files [OF files]
    by (simp add: Local_CreateManager_def on_managers_def Managers_Create_def)
  moreover have "node_inv env storage ?nd"
    by (rule node_inv_set [OF assms(1) files storage_ok_ready [OF w(2)] w(5)])
  moreover have "node_view ?nd = (node_view nd)(i \<mapsto> ([], Some ams))"
    by (auto simp: node_view_def update_conv' running_manager_def fun_eq_iff)
  ultimately show ?thesis by blast
qed

lemma Local_create_old:
  assumes "node_inv env storage nd" and "plain_name i" and "node_view nd i \<noteq> None"
  shows "Local_CreateManager env storage i (ams, nd) = (Inl ManagerExistsError, ams, nd)"
  using assms storage_of_inv [OF assms(1)] node_view_None [OF assms(1), of i]
  by (simp add: Local_CreateManager_def Files_Create_exists storage_ok_def)

lemma Local_missing:
  assumes "node_inv env storage nd" and "plain_name i" and "node_view nd i = None"
  shows "Local_DeleteManager storage i nd = (Inl ManagerNotExistsError, nd)"
    and "loaded_groups env g = Some gs \<Longrightarrow>
      Local_UpsertRuleGroup env storage i g nd = (Inl ManagerNotExistsError, nd)"
  using assms storage_of_inv [OF assms(1)] node_view_None [OF assms(1), of i]
  by (auto simp: Local_DeleteManager_def Local_UpsertRuleGroup_def on_fs_def Files_missing storage_ok_def
      loaded_groups_def split: sum.splits)

lemma Local_delete_old:
  assumes "node_inv env storage nd" and "plain_name i" and "node_view nd i \<noteq> None"
  shows "\<exists>nd'. Local_DeleteManager storage i nd = (Inr (), nd') \<and> node_inv env storage nd'
    \<and> node_view nd' = (node_view nd)(i := None)"
proof -
  let ?d = "storage @ [i]" and ?ms = "gm_delete (rn_managers nd) i"
  let ?w = "drop_entries (set (below (rn_fs nd) ?d)) (rn_fs nd)"
  have s: "storage_ok storage (rn_fs nd)" by (rule storage_of_inv [OF assms(1)])
  have old: "entry (rn_fs nd) ?d \<noteq> None" using node_view_None [OF assms(1)] assms(3) by simp
  have s': "storage_ok storage ?w"
    using s dir_ok_remove [of "rn_fs nd" storage ?d] tree_ok_remove [of "rn_fs nd" ?d]
    by (auto simp: storage_ok_def prefix_def)
  have del: "gm_delete (gm_set (rn_managers nd) i pm) i = ?ms" for pm
    by (rule delete_update_same)
  obtain pm where "map_of (rn_managers nd) i = Some pm"
    using assms(3) by (auto simp: node_view_def)
  then have "Local_DeleteManager storage i nd = (Inr (), \<lparr>rn_fs = ?w, rn_managers = ?ms\<rparr>)"
    using s old assms(2)
    by (simp add: Local_DeleteManager_def on_fs_def on_managers_def Files_Delete_ok storage_ok_def
        Managers_Delete_def del)
  moreover have "manager_ok env storage ?w j pm" if "(j, pm) \<in> set ?ms" for j pm
  proof -
    have j: "j \<noteq> i" "(j, pm) \<in> set (rn_managers nd)"
      using that by (auto simp: AList.delete_eq)
    show ?thesis
    proof (rule manager_ok_frame [OF _ s' j(1)])
      show "manager_ok env storage (rn_fs nd) j pm" using assms(1) j(2) by (auto simp: node_inv_def)
    qed (simp add: entry_remove_below)
  qed
  moreover have "entry ?w (storage @ [j]) \<noteq> None \<longleftrightarrow> j \<in> fst ` set ?ms" for j
  proof -
    have "fst ` set ?ms = fst ` set (rn_managers nd) - {i}" by (metis delete_keys set_map set_removeAll)
    then show ?thesis using assms(1) by (simp add: node_inv_def entry_remove_below)
  qed
  ultimately have "node_inv env storage \<lparr>rn_fs = ?w, rn_managers = ?ms\<rparr>"
    using s' assms(1) by (auto simp: node_inv_def distinct_delete)
  with \<open>Local_DeleteManager storage i nd = _\<close> show ?thesis
    by (auto simp: node_view_def delete_conv' fun_eq_iff)
qed

lemma Managers_Reload_each:
  assumes "\<And>i pm. (i, pm) \<in> set ms \<Longrightarrow> pm_Reload env w pm = (Inr (), f i pm)"
  shows "Managers_Reload env w ms = (Inr (), map (\<lambda>(i, pm). (i, f i pm)) ms)"
  using assms
proof (induction ms)
  case (Cons e ms)
  obtain i pm where e: "e = (i, pm)" by (cases e)
  have "pm_Reload env w pm = (Inr (), f i pm)" using Cons.prems [of i pm] e by simp
  moreover have "Managers_Reload env w ms = (Inr (), map (\<lambda>(i, pm). (i, f i pm)) ms)"
    using Cons.prems by (intro Cons.IH) simp
  ultimately show ?case by (simp add: e)
qed simp

lemma update_present:
  assumes "distinct (map fst ms)" and "k \<in> fst ` set ms"
  shows "AList.update k v ms = map (\<lambda>(i, x). (i, if i = k then v else x)) ms"
  using assms by (induction ms) (force intro: map_idI [symmetric])+

lemma Local_upsert_old:
  assumes "node_inv env storage nd" and "plain_name i" and "node_view nd i = Some (groups0, am)"
    and "loaded_groups env g = Some groups"
  shows "\<exists>nd'. Local_UpsertRuleGroup env storage i g nd = (Inr (), nd') \<and> node_inv env storage nd'
    \<and> node_view nd' = (node_view nd)(i \<mapsto> (groups, am))"
proof -
  let ?p = "storage @ [i, ''rules.yml'']"
  obtain pg y where g: "ConvertToPromRuleGroup env g = Inr pg" "yaml_Marshal_groups env [pg] = Some y"
      "load_groups env (Some y) = Some groups"
    using assms(4) by (auto simp: loaded_groups_def split: sum.splits bind_splits)
  obtain ams where ams: "am = Some ams" "map_of (rn_managers nd) i = Some (running_manager storage i groups0 ams)"
      and files0: "manager_files env storage (rn_fs nd) i groups0 ams"
    by (rule node_view_Some [OF assms(1,3)])
  have r: "ready (storage @ [i]) (rn_fs nd)" using files0 by (simp add: manager_files_def)
  define w where "w = set_entry ?p (FFile y) (rn_fs nd)"
  have rw: "ready (storage @ [i]) w" using ready_write(2) [OF r, of "''rules.yml''" y] by (simp add: w_def)
  have files: "manager_files env storage w i groups ams"
    using files0 rw g(3) by (auto simp: manager_files_def w_def entry_set_entry)
  have frame: "entry w q = entry (rn_fs nd) q" if "\<not> prefix (storage @ [i]) q" for q
    using that by (auto simp: w_def entry_set_entry)
  let ?new = "running_manager storage i groups ams"
  have reload: "pm_Reload env w pm = (Inr (), if j = i then ?new else pm)"
    if "(j, pm) \<in> set (rn_managers nd)" for j pm
  proof (cases "j = i")
    case True
    then have "pm = running_manager storage i groups0 ams"
      using that ams(2) assms(1) by (simp add: node_inv_def)
    then show ?thesis using True pm_Reload_running [OF files] by simp
  next
    case False
    have "manager_ok env storage w j pm"
      using assms(1) that manager_ok_frame [OF _ storage_ok_ready [OF rw] False frame]
      unfolding node_inv_def by fastforce
    then show ?thesis using False pm_Reload_running by (auto simp: manager_ok_def)
  qed
  have "i \<in> fst ` set (rn_managers nd)" "distinct (map fst (rn_managers nd))"
    using ams(2) assms(1) by (auto simp: node_inv_def dest: map_of_SomeD intro: rev_image_eqI)
  then have ms: "Managers_Reload env w (rn_managers nd) = (Inr (), gm_set (rn_managers nd) i ?new)"
    using Managers_Reload_each [of "rn_managers nd" env w "\<lambda>j pm. if j = i then ?new else pm"] reload
    by (simp add: update_present)
  let ?nd = "\<lparr>rn_fs = w, rn_managers = gm_set (rn_managers nd) i ?new\<rparr>"
  have "Local_UpsertRuleGroup env storage i g nd = (Inr (), ?nd)"
    using g(1) Files_UpsertRuleGroup_ok [OF assms(2) r g(2)] ms
    by (simp add: Local_UpsertRuleGroup_def on_fs_def on_managers_def w_def)
  moreover have "node_inv env storage ?nd"
    by (rule node_inv_set [OF assms(1) files storage_ok_ready [OF rw] frame])
  moreover have "node_view ?nd = (node_view nd)(i \<mapsto> (groups, am))"
    by (auto simp: node_view_def update_conv' running_manager_def fun_eq_iff ams(1))
  ultimately show ?thesis by blast
qed

section \<open>Closing and restarting a node\<close>

lemma Managers_Delete_present:
  assumes "k \<in> fst ` set ms"
  shows "Managers_Delete k ms = (Inr (), gm_delete ms k)"
proof -
  obtain pm where "map_of ms k = Some pm" using assms by (metis map_of_eq_None_iff not_None_eq)
  then show ?thesis by (simp add: Managers_Delete_def delete_update_same)
qed

lemma delete_all_loop_present:
  "distinct ids \<Longrightarrow> set ids \<subseteq> fst ` set ms \<Longrightarrow>
     delete_all_loop ids (errs, ms) = (errs, fold (\<lambda>k ms. gm_delete ms k) ids ms)"
proof (induction ids arbitrary: ms)
  case (Cons k ids)
  have "set ids \<subseteq> fst ` set (gm_delete ms k)"
  proof -
    have "fst ` set (gm_delete ms k) = fst ` set ms - {k}" by (metis delete_keys set_map set_removeAll)
    then show ?thesis using Cons.prems by auto
  qed
  with Cons show ?case by (simp add: Managers_Delete_present)
qed simp

lemma fold_delete_keys:
  "map fst (fold (\<lambda>k ms. gm_delete ms k) ids ms) = filter (\<lambda>k. k \<notin> set ids) (map fst ms)"
proof (induction ids arbitrary: ms)
  case (Cons k ids)
  have "filter (\<lambda>j. j \<notin> set ids) (removeAll k xs) = filter (\<lambda>j. j \<noteq> k \<and> j \<notin> set ids) xs" for xs
    by (induction xs) auto
  then show ?case by (simp add: Cons.IH delete_keys)
qed simp

lemma Managers_DeleteAll_empty:
  assumes "gomap_ok ms"
  shows "Managers_DeleteAll ms = (Inr (), [])"
proof -
  have "map fst (fold (\<lambda>k ms. gm_delete ms k) (map fst ms) ms) = []"
    by (simp only: fold_delete_keys) simp
  then show ?thesis
    using delete_all_loop_present [of "map fst ms" ms "[]"] assms by (simp add: Managers_DeleteAll_def)
qed

lemma load_rules_loop_ok:
  assumes "node_inv env storage nd" and "set names \<subseteq> fst ` set (rn_managers nd)"
  shows "load_rules_loop env storage names \<lparr>rn_fs = rn_fs nd, rn_managers = ms\<rparr> =
    \<lparr>rn_fs = rn_fs nd, rn_managers = fold (\<lambda>i ms. gm_set ms i (the (map_of (rn_managers nd) i))) names ms\<rparr>"
  using assms(2)
proof (induction names arbitrary: ms)
  case (Cons i names)
  obtain pm where pm: "map_of (rn_managers nd) i = Some pm"
    using Cons.prems by (metis insert_subset list.simps(15) map_of_eq_None_iff option.exhaust)
  then obtain groups ams where ok: "pm = running_manager storage i groups ams"
      "manager_files env storage (rn_fs nd) i groups ams"
    using assms(1) by (force simp: node_inv_def manager_ok_def dest: map_of_SomeD)
  then obtain y where "plain_name i" "ready (storage @ [i]) (rn_fs nd)"
      "entry (rn_fs nd) (storage @ [i, ''alertmanager.yml'']) = Some (FFile y)"
      "yaml_Unmarshal_alertmanagers env y = Some ams"
    by (auto simp: manager_files_def)
  from Files_Load_ok [OF this] pm_Start_files [OF ok(2)] Cons pm ok(1)
  show ?case by (simp add: on_fs_def on_managers_def Managers_Create_def)
qed simp

lemma map_of_fold_set:
  "map_of (fold (\<lambda>i ms. gm_set ms i (f i)) names ms) k =
     (if k \<in> set names then Some (f k) else map_of ms k)"
  by (induction names arbitrary: ms) (auto simp: update_conv')

lemma gomap_ok_fold_set: "gomap_ok ms \<Longrightarrow> gomap_ok (fold (\<lambda>i ms. gm_set ms i (f i)) names ms)"
  by (induction names arbitrary: ms) (simp_all add: distinct_update)

lemma loadRules_ok:
  assumes "node_inv env storage nd" and "storage \<noteq> []"
  shows "\<exists>ms. loadRules env storage \<lparr>rn_fs = rn_fs nd, rn_managers = []\<rparr> = \<lparr>rn_fs = rn_fs nd, rn_managers = ms\<rparr>
    \<and> gomap_ok ms \<and> map_of ms = map_of (rn_managers nd)"
proof -
  obtain d n where d: "storage = d @ [n]" using assms(2) by (cases storage rule: rev_cases) auto
  let ?names = "dir_names (rn_fs nd) storage"
  let ?ms = "fold (\<lambda>i ms. gm_set ms i (the (map_of (rn_managers nd) i))) ?names []"
  have names: "set ?names = fst ` set (rn_managers nd)"
    using assms(1) by (simp add: set_dir_names node_inv_def)
  have "ioutil_ReadDir storage (rn_fs nd) = (Inr ?names, rn_fs nd)"
    using assms(1) ioutil_ReadDir_ok [of "rn_fs nd" d n] by (simp add: d node_inv_def storage_ok_def)
  then have "loadRules env storage \<lparr>rn_fs = rn_fs nd, rn_managers = []\<rparr> = \<lparr>rn_fs = rn_fs nd, rn_managers = ?ms\<rparr>"
    using load_rules_loop_ok [OF assms(1), of ?names "[]"] names by (simp add: loadRules_def)
  moreover have "map_of ?ms = map_of (rn_managers nd)"
  proof
    fix k
    show "map_of ?ms k = map_of (rn_managers nd) k"
      using map_of_eq_None_iff [of "rn_managers nd" k]
      by (cases "map_of (rn_managers nd) k") (simp_all add: map_of_fold_set names)
  qed
  ultimately show ?thesis using gomap_ok_fold_set [of "[]"] by auto
qed

lemma node_inv_cong:
  assumes "node_inv env storage nd" and "gomap_ok ms" and "map_of ms = map_of (rn_managers nd)"
  shows "node_inv env storage \<lparr>rn_fs = rn_fs nd, rn_managers = ms\<rparr>"
    and "node_view \<lparr>rn_fs = rn_fs nd, rn_managers = ms\<rparr> = node_view nd"
proof -
  have "set ms = set (rn_managers nd)"
    using assms by (simp add: node_inv_def map_of_inject_set)
  then show "node_inv env storage \<lparr>rn_fs = rn_fs nd, rn_managers = ms\<rparr>"
    using assms by (simp add: node_inv_def)
  show "node_view \<lparr>rn_fs = rn_fs nd, rn_managers = ms\<rparr> = node_view nd"
    using assms(3) by (simp add: node_view_def fun_eq_iff)
qed


section \<open>The interface of a rule manager\<close>

text \<open>
  What \<open>ReplicatedRuleManager\<close> relies on (\<open>RuleManager\<close> of \<^verbatim>\<open>interfaces.go\<close>), for the
  managers of the nodes of a cluster: the manager of node \<open>k\<close> keeps a map from ids to groups
  and configurations. \<open>usable\<close> ids, \<open>accepts\<close>ed configurations and groups that load are the
  ones the contract is about.
\<close>

locale rule_manager =
  fixes create :: "nat \<Rightarrow> string \<Rightarrow> 'am \<times> 's \<Rightarrow> ('e + 'm) \<times> 'am \<times> 's"
    and delete :: "nat \<Rightarrow> string \<Rightarrow> 's \<Rightarrow> ('e + unit) \<times> 's"
    and upsert :: "nat \<Rightarrow> string \<Rightarrow> 'grp \<Rightarrow> 's \<Rightarrow> ('e + unit) \<times> 's"
    and inv :: "'s \<Rightarrow> bool"
    and view :: "'s \<Rightarrow> string \<Rightarrow> ('gs \<times> 'am) option"
    and usable :: "string \<Rightarrow> bool"
    and accepts :: "'am \<Rightarrow> bool"
    and loads :: "'grp \<Rightarrow> 'gs option"
    and none :: 'gs
    and made :: "string \<Rightarrow> 'am \<Rightarrow> 'm"
    and exists_error missing_error :: 'e
    and upsert_error :: "nat \<Rightarrow> 'e"
  assumes create_new: "inv s \<Longrightarrow> usable i \<Longrightarrow> accepts am \<Longrightarrow> view s i = None \<Longrightarrow>
      \<exists>s'. create k i (am, s) = (Inr (made i am), am, s') \<and> inv s' \<and> view s' = (view s)(i \<mapsto> (none, am))"
    and create_old: "inv s \<Longrightarrow> usable i \<Longrightarrow> accepts am \<Longrightarrow> view s i \<noteq> None \<Longrightarrow>
      create k i (am, s) = (Inl exists_error, am, s)"
    and delete_old: "inv s \<Longrightarrow> usable i \<Longrightarrow> view s i \<noteq> None \<Longrightarrow>
      \<exists>s'. delete k i s = (Inr (), s') \<and> inv s' \<and> view s' = (view s)(i := None)"
    and delete_new: "inv s \<Longrightarrow> usable i \<Longrightarrow> view s i = None \<Longrightarrow> delete k i s = (Inl missing_error, s)"
    and upsert_old: "inv s \<Longrightarrow> usable i \<Longrightarrow> loads g = Some gs \<Longrightarrow> view s i = Some (gs0, am) \<Longrightarrow>
      \<exists>s'. upsert k i g s = (Inr (), s') \<and> inv s' \<and> view s' = (view s)(i \<mapsto> (gs, am))"
    and upsert_new: "inv s \<Longrightarrow> usable i \<Longrightarrow> loads g = Some gs \<Longrightarrow> view s i = None \<Longrightarrow>
      upsert k i g s = (Inl (upsert_error k), s)"

definition accepts_some :: "('o, 'g) rules_env \<Rightarrow> 'o alertmanager list option \<Rightarrow> bool" where
  "accepts_some env am \<longleftrightarrow> (case am of None \<Rightarrow> False | Some ams \<Rightarrow> accepted env ams)"

definition rules_inv :: "('o, 'g) rules_env \<Rightarrow> path \<Rightarrow> ('o, 'g) rule_node \<Rightarrow> bool" where
  "rules_inv env storage nd \<longleftrightarrow> visits_all env \<and> empty_file_ok env \<and> node_inv env storage nd"

interpretation local_rules: rule_manager "\<lambda>_. Local_CreateManager env storage"
  "\<lambda>_. Local_DeleteManager storage" "\<lambda>_. Local_UpsertRuleGroup env storage" "rules_inv env storage"
  node_view plain_name "accepts_some env" "loaded_groups env" "[]" Pair
  ManagerExistsError ManagerNotExistsError "\<lambda>_. ManagerNotExistsError"
  for env :: "('o, 'g) rules_env" and storage
proof unfold_locales
  fix s i am g gs gs0 am0
  assume i: "rules_inv env storage s" "plain_name i"
  then have inv: "visits_all env" "empty_file_ok env" "node_inv env storage s"
    by (simp_all add: rules_inv_def)
  show "\<exists>s'. Local_CreateManager env storage i (am, s) = (Inr (i, am), am, s')
      \<and> rules_inv env storage s' \<and> node_view s' = (node_view s)(i \<mapsto> ([], am))"
    if "accepts_some env am" "node_view s i = None"
  proof -
    obtain ams where "am = Some ams" "accepted env ams"
      using \<open>accepts_some env am\<close> by (auto simp: accepts_some_def split: option.splits)
    then show ?thesis
      using Local_create_new [OF inv(3) i(2) inv(1,2) _ that(2), of ams] inv by (auto simp: rules_inv_def)
  qed
  show "Local_CreateManager env storage i (am, s) = (Inl ManagerExistsError, am, s)"
    if "node_view s i \<noteq> None"
    by (rule Local_create_old [OF inv(3) i(2) that])
  show "\<exists>s'. Local_DeleteManager storage i s = (Inr (), s')
      \<and> rules_inv env storage s' \<and> node_view s' = (node_view s)(i := None)" if "node_view s i \<noteq> None"
    using Local_delete_old [OF inv(3) i(2) that] inv by (auto simp: rules_inv_def)
  show "Local_DeleteManager storage i s = (Inl ManagerNotExistsError, s)" if "node_view s i = None"
    by (rule Local_missing(1) [OF inv(3) i(2) that])
  show "\<exists>s'. Local_UpsertRuleGroup env storage i g s = (Inr (), s')
      \<and> rules_inv env storage s' \<and> node_view s' = (node_view s)(i \<mapsto> (gs, am0))"
    if "loaded_groups env g = Some gs" "node_view s i = Some (gs0, am0)"
    using Local_upsert_old [OF inv(3) i(2) that(2,1)] inv by (auto simp: rules_inv_def)
  show "Local_UpsertRuleGroup env storage i g s = (Inl ManagerNotExistsError, s)"
    if "loaded_groups env g = Some gs" "node_view s i = None"
    by (rule Local_missing(2) [OF inv(3) i(2) that(2,1)])
qed

section \<open>An example\<close>

text \<open>A node without managers, and libraries that write a group as its name and know one
  list of configurations.\<close>

definition ex_env_for :: "'o alertmanager list \<Rightarrow> ('o, string) rules_env" where
  "ex_env_for ams =
     \<lparr>yaml_Marshal_alertmanagers = \<lambda>_. Some ''[]'', yaml_Unmarshal_alertmanagers = \<lambda>_. Some ams,
      yaml_Marshal_groups = \<lambda>gs. Some (case gs of [] \<Rightarrow> [] | g # _ \<Rightarrow> prom_Name g),
      YAMLToJSON = \<lambda>_. Some (JArr []), JSONToYAML = \<lambda>_. Some ''[]'', promRule_Validate = \<lambda>_. [],
      AppendCertsFromPEM = \<lambda>_. False, X509KeyPair = \<lambda>_ _. None,
      load_groups = map_option (\<lambda>c. if c = [] then [] else [c]),
      apply_config = \<lambda>_ _. None, json_Marshal_ok = \<lambda>_. True, range_order = \<lambda>n. [0..<n],
      path_param = Some, float_mul = \<lambda>_ _ _. 0, std_error = ''error''\<rparr>"

abbreviation ex_rules_env :: "(unit, string) rules_env" where
  "ex_rules_env \<equiv> ex_env_for []"

definition fresh_node :: "('o, 'g) rule_node" where
  "fresh_node = \<lparr>rn_fs = \<lparr>fs_entries = [([''rule_managers''], FDir)], fs_faults = []\<rparr>, rn_managers = []\<rparr>"

lemma fresh_node_inv:
  assumes "visits_all env" and "empty_file_ok env"
  shows "rules_inv env [''rule_managers''] fresh_node"
  using assms
  by (simp add: rules_inv_def node_inv_def fresh_node_def storage_ok_def dir_ok_def tree_ok_def entry_def)

lemma fresh_node_view [simp]: "node_view fresh_node = Map.empty"
  by (simp add: fresh_node_def node_view_def fun_eq_iff)

lemma ex_env_ok:
  "visits_all (ex_env_for ams)" "empty_file_ok (ex_env_for ams)" "yaml_ok (ex_env_for ams) ams"
  by (simp_all add: ex_env_for_def visits_all_def empty_file_ok_def yaml_ok_def)

lemma ex_rules_env_ok:
  "visits_all ex_rules_env" "empty_file_ok ex_rules_env" "accepted ex_rules_env []"
  using ex_env_ok [of "[] :: unit alertmanager list"]
  by (simp_all add: accepted_def no_certs_def) (simp add: ex_env_for_def)

definition ex_node :: "(unit, string) rule_node" where
  "ex_node = snd (snd (Local_CreateManager ex_rules_env [''rule_managers''] ''m'' (Some [], fresh_node)))"


end
