(* ===== verification/Rules_Cluster.thy ===== *)
theory Rules_Cluster
  imports Rule_Managers Routing
begin

text \<open>
  The rules API of a cluster: the HTTP handlers (\<^verbatim>\<open>internal/api/rules_api.go\<close>), the
  client of another node's private API (\<^verbatim>\<open>rulesclient.go\<close>,
  \<^verbatim>\<open>remote_rule_manager.go\<close>) and the manager that sends each operation to the nodes
  that hold a rule manager (\<^verbatim>\<open>replicated_rule_manager.go\<close>). A node is the state of
  \<^verbatim>\<open>Rule_Managers\<close>; a request to another node goes through its JSON form and the
  handlers of that node. \<open>fate\<close> says what becomes of a request on the network. The
  theory shows that a cluster whose nodes answer behaves as one map from ids to rule groups, on
  whichever node the requests arrive.
\<close>

section \<open>The handlers\<close>

text \<open>The interface \<open>RuleManager\<close> on a state.\<close>

record ('o, 's) ruleManager =
  CreateManager :: "string \<Rightarrow> 'o alertmanager list option \<times> 's \<Rightarrow>
    (rules_error + 'o manager) \<times> 'o alertmanager list option \<times> 's"
  DeleteManager :: "string \<Rightarrow> 's \<Rightarrow> (rules_error + unit) \<times> 's"
  UpsertRuleGroup :: "string \<Rightarrow> ruleGroup \<Rightarrow> 's \<Rightarrow> (rules_error + unit) \<times> 's"

record response =
  resp_status :: int
  resp_body :: "json option"

text \<open>\<open>apiFuncResult\<close>: an error with its status and text, no data, or data.\<close>

datatype 'o api_result =
    ApiFailed int string | ApiNoData | ApiManager "'o managerConfig" | ApiGroup ruleGroup

text \<open>The requests the router knows, with the manager id of the path and the body. \<open>uuid\<close> is the
  id that \<open>GenerateId\<close> would make.\<close>

datatype rules_request =
    PostManager "json option" | PostGroup string "json option" | DelManager string

definition api_createManager ::
  "('o, 'g) rules_env \<Rightarrow> string \<Rightarrow> ('o, 's) ruleManager \<Rightarrow> json option \<Rightarrow> 's \<Rightarrow> 'o api_result \<times> 's" where
  "api_createManager env uuid rm body s =
     (case ManagerConfigFromJSON env body of
        None \<Rightarrow> (ApiFailed 400 (std_error env), s)
      | Some cfg \<Rightarrow>
          let cfg = (if mc_id cfg = [] then cfg\<lparr>mc_id := uuid\<rparr> else cfg)
          in case ManagerConfig_Validate env cfg of
               Some e \<Rightarrow> (ApiFailed 400 (error_text e), s)
             | None \<Rightarrow>
                 (case CreateManager rm (mc_id cfg) (mc_alertmanagers cfg, s) of
                    (Inl e, _, s) \<Rightarrow>
                      (if e = ManagerExistsError
                       then ApiFailed 409 (''Could not create ruleManager, a ruleManager with name ''
                              @ mc_id cfg @ '' already exists'')
                       else ApiFailed 500 (error_text e), s)
                  | (Inr m, _, s) \<Rightarrow> (ApiManager \<lparr>mc_id = fst m, mc_alertmanagers = snd m\<rparr>, s)))"

definition api_deleteManager ::
  "('o, 's) ruleManager \<Rightarrow> string \<Rightarrow> 's \<Rightarrow> 'o api_result \<times> 's" where
  "api_deleteManager rm managerId s =
     (case DeleteManager rm managerId s of
        (Inl e, s) \<Rightarrow>
          (if e = ManagerNotExistsError
           then ApiFailed 404 (''Could not delete ruleManager, a ruleManager with name ''
                  @ managerId @ '' does not exist'')
           else ApiFailed 500 (error_text e), s)
      | (Inr _, s) \<Rightarrow> (ApiNoData, s))"

definition api_upsertRuleGroup ::
  "('o, 'g) rules_env \<Rightarrow> ('o, 's) ruleManager \<Rightarrow> string \<Rightarrow> json option \<Rightarrow> 's \<Rightarrow> 'o api_result \<times> 's" where
  "api_upsertRuleGroup env rm managerId body s =
     (case Option.bind body (decode_groupData (float_mul env)) of
        None \<Rightarrow> (ApiFailed 400 (std_error env), s)
      | Some g \<Rightarrow>
          (case RuleGroup_Validate env g of
             Some e \<Rightarrow> (ApiFailed 400 (error_text e), s)
           | None \<Rightarrow>
               (case UpsertRuleGroup rm managerId g s of
                  (Inl e, s) \<Rightarrow>
                    (ApiFailed (if e = ManagerNotExistsError then 400 else 500) (error_text e), s)
                | (Inr _, s) \<Rightarrow> (ApiGroup g, s))))"

definition respondError :: "int \<Rightarrow> string \<Rightarrow> response" where
  "respondError status title =
     \<lparr>resp_status = status,
      resp_body = Some (JObj [(''errors'',
        JArr [JObj [(''status'', JNum (real_of_int status)), (''title'', JStr title)]])])\<rparr>"

fun api_respond :: "('o, 'g) rules_env \<Rightarrow> 'o api_result \<Rightarrow> response" where
  "api_respond env (ApiFailed status title) = respondError status title"
| "api_respond env ApiNoData = \<lparr>resp_status = 204, resp_body = None\<rparr>"
| "api_respond env (ApiManager m) =
     (case ManagerConfig_ToJSON env m of
        None \<Rightarrow> \<lparr>resp_status = 500, resp_body = None\<rparr>
      | Some j \<Rightarrow> \<lparr>resp_status = 201, resp_body = Some j\<rparr>)"
| "api_respond env (ApiGroup g) = \<lparr>resp_status = 201, resp_body = Some (groupData_json g)\<rparr>"

fun api_call ::
  "('o, 'g) rules_env \<Rightarrow> string \<Rightarrow> ('o, 's) ruleManager \<Rightarrow> rules_request \<Rightarrow> 's \<Rightarrow> 'o api_result \<times> 's" where
  "api_call env uuid rm (PostManager body) s = api_createManager env uuid rm body s"
| "api_call env uuid rm (PostGroup managerId body) s = api_upsertRuleGroup env rm managerId body s"
| "api_call env uuid rm (DelManager managerId) s = api_deleteManager rm managerId s"

definition serve ::
  "('o, 'g) rules_env \<Rightarrow> string \<Rightarrow> ('o, 's) ruleManager \<Rightarrow> rules_request \<Rightarrow> 's \<Rightarrow> response \<times> 's" where
  "serve env uuid rm req s = map_prod (api_respond env) (\<lambda>s. s) (api_call env uuid rm req s)"

section \<open>The client\<close>

text \<open>A request is answered, never arrives, or is carried out without its answer arriving.\<close>

datatype net_fate = Answered | Unreachable | AnswerLost

fun transport :: "net_fate \<Rightarrow> response \<times> 's \<Rightarrow> 's \<Rightarrow> response option \<times> 's" where
  "transport Answered (r, s') s = (Some r, s')"
| "transport Unreachable (r, s') s = (None, s)"
| "transport AnswerLost (r, s') s = (None, s')"

text \<open>\<open>errors\<close> of an \<open>ApiErrors\<close> document; a status is a whole number.\<close>

definition decode_int :: "json \<Rightarrow> int \<Rightarrow> int option" where
  "decode_int j n =
     (case j of
        JNull \<Rightarrow> Some n
      | JNum x \<Rightarrow> if real_of_int (floor x) = x \<and> int64_range (floor x) then Some (floor x) else None
      | _ \<Rightarrow> None)"

definition decode_apiError :: "json \<Rightarrow> int \<times> string \<Rightarrow> (int \<times> string) option" where
  "decode_apiError =
     decode_struct (\<lambda>k v (status, title).
       if equal_fold ''status'' k then map_option (\<lambda>n. (n, title)) (decode_int v status)
       else if equal_fold ''title'' k then map_option (\<lambda>t. (status, t)) (decode_string v title)
       else Some (status, title))"

definition decode_apiErrors :: "json \<Rightarrow> (int \<times> string) list option" where
  "decode_apiErrors j =
     decode_struct (\<lambda>k v es. if equal_fold ''errors'' k then decode_slice decode_apiError (0, []) v es else Some es)
       j []"

definition extractFirstError :: "('o, 'g) rules_env \<Rightarrow> response \<Rightarrow> rules_error" where
  "extractFirstError env resp =
     (case resp_body resp of
        None \<Rightarrow> ApiError 400 (std_error env)
      | Some JNull \<Rightarrow> NilDereference
      | Some j \<Rightarrow>
          (case decode_apiErrors j of
             None \<Rightarrow> ApiError 400 (std_error env)
           | Some [] \<Rightarrow> ApiError 0 []
           | Some ((status, title) # _) \<Rightarrow> ApiError status title))"

text \<open>A path that matches no route is answered with a text.\<close>

definition route_request ::
  "(rules_request \<Rightarrow> 's \<Rightarrow> response \<times> 's) \<Rightarrow> (string \<Rightarrow> rules_request) \<Rightarrow> string option \<Rightarrow> 's \<Rightarrow> response \<times> 's" where
  "route_request server req param s =
     (case param of None \<Rightarrow> (\<lparr>resp_status = 404, resp_body = None\<rparr>, s) | Some i \<Rightarrow> server (req i) s)"

definition client_CreateManager ::
  "('o, 'g) rules_env \<Rightarrow> net_fate \<Rightarrow> (rules_request \<Rightarrow> 's \<Rightarrow> response \<times> 's) \<Rightarrow> string \<Rightarrow>
    'o alertmanager list option \<Rightarrow> 's \<Rightarrow> (rules_error + 'o managerConfig) \<times> 's" where
  "client_CreateManager env fate server managerId ams s =
     (case ManagerConfig_ToJSON env \<lparr>mc_id = managerId, mc_alertmanagers = ams\<rparr> of
        None \<Rightarrow> (Inl (ApiError 400 (std_error env)), s)
      | Some payload \<Rightarrow>
          (case transport fate (server (PostManager (Some payload)) s) s of
             (None, s) \<Rightarrow> (Inl (ApiError 500 (std_error env)), s)
           | (Some resp, s) \<Rightarrow>
               if resp_status resp \<noteq> 201 then (Inl (extractFirstError env resp), s)
               else case ManagerConfigFromJSON env (resp_body resp) of
                      None \<Rightarrow> (Inl (ApiError 500 (std_error env)), s)
                    | Some cfg \<Rightarrow> (Inr cfg, s)))"

definition client_UpsertRuleGroup ::
  "('o, 'g) rules_env \<Rightarrow> net_fate \<Rightarrow> (rules_request \<Rightarrow> 's \<Rightarrow> response \<times> 's) \<Rightarrow> string \<Rightarrow>
    ruleGroup \<Rightarrow> 's \<Rightarrow> (rules_error + ruleGroup) \<times> 's" where
  "client_UpsertRuleGroup env fate server managerId g s =
     (case transport fate
         (route_request server (\<lambda>i. PostGroup i (Some (groupData_json g))) (path_param env managerId) s) s of
        (None, s) \<Rightarrow> (Inl (ApiError 500 (std_error env)), s)
      | (Some resp, s) \<Rightarrow>
          if resp_status resp \<noteq> 201 then (Inl (extractFirstError env resp), s)
          else case Option.bind (resp_body resp) (decode_groupData (float_mul env)) of
                 None \<Rightarrow> (Inl (ApiError 500 (std_error env)), s)
               | Some g \<Rightarrow> (Inr g, s))"

definition client_DeleteManager ::
  "('o, 'g) rules_env \<Rightarrow> net_fate \<Rightarrow> (rules_request \<Rightarrow> 's \<Rightarrow> response \<times> 's) \<Rightarrow> string \<Rightarrow>
    's \<Rightarrow> (rules_error + unit) \<times> 's" where
  "client_DeleteManager env fate server managerId s =
     (case transport fate (route_request server DelManager (path_param env managerId) s) s of
        (None, s) \<Rightarrow> (Inl (ApiError 500 (std_error env)), s)
      | (Some resp, s) \<Rightarrow>
          if resp_status resp \<noteq> 204 then (Inl (extractFirstError env resp), s) else (Inr (), s))"

section \<open>The managers of the nodes\<close>

definition local_manager :: "('o, 'g) rules_env \<Rightarrow> path \<Rightarrow> ('o, ('o, 'g) rule_node) ruleManager" where
  "local_manager env storage =
     \<lparr>CreateManager = Local_CreateManager env storage, DeleteManager = Local_DeleteManager storage,
      UpsertRuleGroup = Local_UpsertRuleGroup env storage\<rparr>"

text \<open>The private API of a node; the ids it is sent are never empty, so it makes none.\<close>

definition private_api ::
  "('o, 'g) rules_env \<Rightarrow> path \<Rightarrow> rules_request \<Rightarrow> ('o, 'g) rule_node \<Rightarrow> response \<times> ('o, 'g) rule_node" where
  "private_api env storage = serve env [] (local_manager env storage)"

definition Remote_CreateManager ::
  "('o, 'g) rules_env \<Rightarrow> path \<Rightarrow> net_fate \<Rightarrow> string \<Rightarrow> 'o alertmanager list option \<times> ('o, 'g) rule_node \<Rightarrow>
    (rules_error + 'o manager) \<times> 'o alertmanager list option \<times> ('o, 'g) rule_node" where
  "Remote_CreateManager env storage fate managerId s =
     (case s of (ams, nd) \<Rightarrow>
        (case client_CreateManager env fate (private_api env storage) managerId ams nd of
           (Inl (ApiError status title), nd) \<Rightarrow>
             (Inl (if status = 409 then ManagerExistsError else ApiError status title), ams, nd)
         | (Inl e, nd) \<Rightarrow> (Inl e, ams, nd)
         | (Inr cfg, nd) \<Rightarrow> (Inr (mc_id cfg, mc_alertmanagers cfg), ams, nd)))"

definition Remote_DeleteManager ::
  "('o, 'g) rules_env \<Rightarrow> path \<Rightarrow> net_fate \<Rightarrow> string \<Rightarrow> ('o, 'g) rule_node \<Rightarrow>
    (rules_error + unit) \<times> ('o, 'g) rule_node" where
  "Remote_DeleteManager env storage fate managerId nd =
     (case client_DeleteManager env fate (private_api env storage) managerId nd of
        (Inl (ApiError status title), nd) \<Rightarrow>
          (Inl (if status = 404 then ManagerNotExistsError else ApiError status title), nd)
      | (Inl e, nd) \<Rightarrow> (Inl e, nd)
      | (Inr _, nd) \<Rightarrow> (Inr (), nd))"

definition Remote_UpsertRuleGroup ::
  "('o, 'g) rules_env \<Rightarrow> path \<Rightarrow> net_fate \<Rightarrow> string \<Rightarrow> ruleGroup \<Rightarrow> ('o, 'g) rule_node \<Rightarrow>
    (rules_error + unit) \<times> ('o, 'g) rule_node" where
  "Remote_UpsertRuleGroup env storage fate managerId g nd =
     (case client_UpsertRuleGroup env fate (private_api env storage) managerId g nd of
        (Inl (ApiError status title), nd) \<Rightarrow>
          (Inl (if status = 404 then ManagerNotExistsError else ApiError status title), nd)
      | (Inl e, nd) \<Rightarrow> (Inl e, nd)
      | (Inr _, nd) \<Rightarrow> (Inr (), nd))"

definition remote_manager ::
  "('o, 'g) rules_env \<Rightarrow> path \<Rightarrow> net_fate \<Rightarrow> ('o, ('o, 'g) rule_node) ruleManager" where
  "remote_manager env storage fate =
     \<lparr>CreateManager = Remote_CreateManager env storage fate, DeleteManager = Remote_DeleteManager env storage fate,
      UpsertRuleGroup = Remote_UpsertRuleGroup env storage fate\<rparr>"

text \<open>A remote manager evaluates nothing here and shows the alertmanagers that the other node
  reports; \<open>urls\<close> is \<open>None\<close> when the call fails, and an address that does not parse ends the
  list.\<close>

definition Remote_Alertmanagers :: "(string \<Rightarrow> bool) \<Rightarrow> string list option \<Rightarrow> string list" where
  "Remote_Alertmanagers parses urls = (case urls of None \<Rightarrow> [] | Some us \<Rightarrow> takeWhile parses us)"

definition createRuleManagers ::
  "('o, 'g) rules_env \<Rightarrow> path \<Rightarrow> (nat \<Rightarrow> net_fate) \<Rightarrow> nat \<Rightarrow> nat \<Rightarrow> ('o, ('o, 'g) rule_node) ruleManager" where
  "createRuleManagers env storage fate localIndex nodeIndex =
     (if nodeIndex \<noteq> localIndex then remote_manager env storage (fate nodeIndex)
      else local_manager env storage)"

section \<open>The replicated manager\<close>

text \<open>The loops over \<open>lookup(managerId)\<close>, for the calls \<open>f\<close> on the managers of the nodes:
  \<open>CreateManager\<close> keeps the result of the last call, the others the last error.\<close>

fun create_loop ::
  "(nat \<Rightarrow> 'am \<times> 's \<Rightarrow> ('e + 'm) \<times> 'am \<times> 's) \<Rightarrow> nat list \<Rightarrow> 'e + 'm \<Rightarrow> 'am \<times> 's list \<Rightarrow>
    ('e + 'm) \<times> 'am \<times> 's list" where
  "create_loop f [] r s = (r, s)"
| "create_loop f (k # ks) r (am, ss) =
     (case f k (am, ss ! k) of (r, am, s) \<Rightarrow> create_loop f ks r (am, ss[k := s]))"

fun last_error_loop ::
  "(nat \<Rightarrow> 's \<Rightarrow> ('e + unit) \<times> 's) \<Rightarrow> nat list \<Rightarrow> 'e + unit \<Rightarrow> 's list \<Rightarrow> ('e + unit) \<times> 's list" where
  "last_error_loop f [] lastError ss = (lastError, ss)"
| "last_error_loop f (k # ks) lastError ss =
     (case f k (ss ! k) of
        (Inl e, s) \<Rightarrow> last_error_loop f ks (Inl e) (ss[k := s])
      | (Inr _, s) \<Rightarrow> last_error_loop f ks lastError (ss[k := s]))"

text \<open>With no node to ask, \<open>CreateManager\<close> returns a nil manager, which the handler would
  dereference.\<close>

definition replicated_manager ::
  "('o, 'g) rules_env \<Rightarrow> path \<Rightarrow> (nat \<Rightarrow> net_fate) \<Rightarrow> nat \<Rightarrow> (string \<Rightarrow> nat list) \<Rightarrow>
    ('o, ('o, 'g) rule_node list) ruleManager" where
  "replicated_manager env storage fate localIndex lookup =
     (let rms = createRuleManagers env storage fate localIndex
      in \<lparr>CreateManager = \<lambda>i. create_loop (\<lambda>k. CreateManager (rms k) i) (lookup i) (Inl NilDereference),
          DeleteManager = \<lambda>i. last_error_loop (\<lambda>k. DeleteManager (rms k) i) (lookup i) (Inr ()),
          UpsertRuleGroup = \<lambda>i g. last_error_loop (\<lambda>k. UpsertRuleGroup (rms k) i g) (lookup i) (Inr ())\<rparr>)"

text \<open>\<open>Alertmanagers\<close> and \<open>DroppedAlertmanagers\<close>: every address once.\<close>

definition Replicated_Alertmanagers :: "string list list \<Rightarrow> string list" where
  "Replicated_Alertmanagers uss = map snd (fold (\<lambda>u m. gm_set m u u) (concat uss) [])"

definition Replicated_RuleGroups :: "'g list list \<Rightarrow> 'g list" where
  "Replicated_RuleGroups gss = concat gss"

text \<open>The public API of node \<open>localIndex\<close>.\<close>

definition public_api ::
  "('o, 'g) rules_env \<Rightarrow> path \<Rightarrow> (string \<Rightarrow> nat list) \<Rightarrow> string \<Rightarrow> (nat \<Rightarrow> net_fate) \<Rightarrow> nat \<Rightarrow> rules_request \<Rightarrow>
    ('o, 'g) rule_node list \<Rightarrow> response \<times> ('o, 'g) rule_node list" where
  "public_api env storage lookup uuid fate localIndex =
     serve env uuid (replicated_manager env storage fate localIndex lookup)"

section \<open>A remote manager does what a local one does\<close>

text \<open>Ids that the router finds in a path as they were put there.\<close>

definition usable_id :: "('o, 'g) rules_env \<Rightarrow> string \<Rightarrow> bool" where
  "usable_id env i \<longleftrightarrow> plain_name i \<and> path_param env i = Some i"

text \<open>Groups that are valid and survive being sent, and what they load as.\<close>

definition sendable_groups :: "('o, 'g) rules_env \<Rightarrow> ruleGroup \<Rightarrow> 'g list option" where
  "sendable_groups env g =
     (if group_ok g \<and> RuleGroup_Validate env g = None then loaded_groups env g else None)"

lemma first_error_None: "first_error f xs = None \<longleftrightarrow> (\<forall>x \<in> set xs. f x = None)"
  by (induction xs) (auto split: option.splits)

lemma Validate_no_certs:
  assumes "visits_all env" and "no_certs ams"
  shows "ManagerConfig_Validate env \<lparr>mc_id = i, mc_alertmanagers = Some ams\<rparr> = None"
proof -
  have "validate_alertmanager env (ams ! k) = None" if "k < length ams" for k
    using assms(2) that
    by (simp add: no_certs_def list_all_length validate_alertmanager_def validateCACert_def validateCertAndKey_def)
  then show ?thesis
    using visits_all_order(2) [OF assms(1), of "length ams"]
    by (simp add: ManagerConfig_Validate_def first_error_None)
qed

lemma plain_name_nonempty: "plain_name i \<Longrightarrow> i \<noteq> []"
  by (simp add: plain_name_def)

lemma respondError_status [simp]: "resp_status (respondError status title) = status"
  by (simp add: respondError_def)

lemma extractFirstError_respondError:
  "int64_range status \<Longrightarrow> extractFirstError env (respondError status title) = ApiError status title"
  by (simp add: extractFirstError_def respondError_def decode_apiErrors_def decode_struct_def
      decode_slice_def decode_apiError_def decode_int_def decode_string_def)

text \<open>What a handler answers for accepted configurations and sendable groups.\<close>

lemma api_createManager_no_certs:
  assumes "visits_all env" and "no_certs ams" and "yaml_ok env ams" and "i \<noteq> []"
    and "ManagerConfig_ToJSON env \<lparr>mc_id = i, mc_alertmanagers = Some ams\<rparr> = Some j"
  shows "api_createManager env uuid rm (Some j) s =
    (case CreateManager rm i (Some ams, s) of
       (Inl e, _, s) \<Rightarrow>
         (if e = ManagerExistsError
          then ApiFailed 409 (''Could not create ruleManager, a ruleManager with name ''
                 @ i @ '' already exists'')
          else ApiFailed 500 (error_text e), s)
     | (Inr m, _, s) \<Rightarrow> (ApiManager \<lparr>mc_id = fst m, mc_alertmanagers = snd m\<rparr>, s))"
proof -
  obtain j' where "ManagerConfig_ToJSON env \<lparr>mc_id = i, mc_alertmanagers = Some ams\<rparr> = Some j'"
      "ManagerConfigFromJSON env (Some j') = Some \<lparr>mc_id = i, mc_alertmanagers = Some ams\<rparr>"
    using assms(3) by (rule config_roundtrip)
  then show ?thesis
    using assms Validate_no_certs [OF assms(1,2), of i]
    by (simp add: api_createManager_def split: prod.split sum.split)
qed

lemma accepted_parts: "accepted env ams \<Longrightarrow> no_certs ams" "accepted env ams \<Longrightarrow> yaml_ok env ams"
  by (simp_all add: accepted_def)

lemmas api_createManager_accepted =
  api_createManager_no_certs [OF _ accepted_parts(1) accepted_parts(2)]

lemma api_upsertRuleGroup_sendable:
  assumes "sendable_groups env g = Some gs"
  shows "api_upsertRuleGroup env rm i (Some (groupData_json g)) s =
    (case UpsertRuleGroup rm i g s of
       (Inl e, s) \<Rightarrow> (ApiFailed (if e = ManagerNotExistsError then 400 else 500) (error_text e), s)
     | (Inr _, s) \<Rightarrow> (ApiGroup g, s))"
  using assms
  by (simp add: sendable_groups_def api_upsertRuleGroup_def decode_group_json split: if_splits)

lemma Remote_create_new:
  assumes "rules_inv env storage nd" and "usable_id env i" and "accepts_some env am" and "node_view nd i = None"
  shows "\<exists>nd'. Remote_CreateManager env storage Answered i (am, nd) = (Inr (i, am), am, nd')
    \<and> rules_inv env storage nd' \<and> node_view nd' = (node_view nd)(i \<mapsto> ([], am))"
proof -
  obtain ams where am: "am = Some ams" "accepted env ams"
    using assms(3) by (auto simp: accepts_some_def split: option.splits)
  have i: "plain_name i" and v: "visits_all env" using assms by (simp_all add: usable_id_def rules_inv_def)
  obtain j where j: "ManagerConfig_ToJSON env \<lparr>mc_id = i, mc_alertmanagers = Some ams\<rparr> = Some j"
      "ManagerConfigFromJSON env (Some j) = Some \<lparr>mc_id = i, mc_alertmanagers = Some ams\<rparr>"
    using am(2) by (auto simp: accepted_def intro: config_roundtrip)
  obtain nd' where nd': "Local_CreateManager env storage i (am, nd) = (Inr (i, am), am, nd')"
      "rules_inv env storage nd'" "node_view nd' = (node_view nd)(i \<mapsto> ([], am))"
    using local_rules.create_new [OF assms(1) i assms(3,4)] by blast
  have "private_api env storage (PostManager (Some j)) nd = (\<lparr>resp_status = 201, resp_body = Some j\<rparr>, nd')"
    using api_createManager_accepted [OF v am(2) am(2) plain_name_nonempty [OF i] j(1),
        where uuid = "[]" and rm = "local_manager env storage" and s = nd] nd'(1) j(1)
    by (simp add: private_api_def serve_def local_manager_def am(1))
  then have "Remote_CreateManager env storage Answered i (am, nd) = (Inr (i, am), am, nd')"
    using j by (simp add: Remote_CreateManager_def client_CreateManager_def am(1))
  with nd' show ?thesis by blast
qed

lemma Remote_create_old:
  assumes "rules_inv env storage nd" and "usable_id env i" and "accepts_some env am" and "node_view nd i \<noteq> None"
  shows "Remote_CreateManager env storage Answered i (am, nd) = (Inl ManagerExistsError, am, nd)"
proof -
  obtain ams where am: "am = Some ams" "accepted env ams"
    using assms(3) by (auto simp: accepts_some_def split: option.splits)
  have i: "plain_name i" and v: "visits_all env" using assms by (simp_all add: usable_id_def rules_inv_def)
  obtain j where j: "ManagerConfig_ToJSON env \<lparr>mc_id = i, mc_alertmanagers = Some ams\<rparr> = Some j"
    using am(2) by (auto simp: accepted_def intro: config_roundtrip)
  have "Local_CreateManager env storage i (am, nd) = (Inl ManagerExistsError, am, nd)"
    by (rule local_rules.create_old [OF assms(1) i assms(3,4)])
  then show ?thesis
    using api_createManager_accepted [OF v am(2) am(2) plain_name_nonempty [OF i] j,
        where uuid = "[]" and rm = "local_manager env storage" and s = nd]
    by (simp add: Remote_CreateManager_def client_CreateManager_def am(1) j private_api_def serve_def
        local_manager_def extractFirstError_respondError)
qed

lemma Remote_delete_old:
  assumes "rules_inv env storage nd" and "usable_id env i" and "node_view nd i \<noteq> None"
  shows "\<exists>nd'. Remote_DeleteManager env storage Answered i nd = (Inr (), nd')
    \<and> rules_inv env storage nd' \<and> node_view nd' = (node_view nd)(i := None)"
proof -
  have i: "plain_name i" "path_param env i = Some i" using assms(2) by (simp_all add: usable_id_def)
  obtain nd' where "Local_DeleteManager storage i nd = (Inr (), nd')"
      "rules_inv env storage nd'" "node_view nd' = (node_view nd)(i := None)"
    using local_rules.delete_old [OF assms(1) i(1) assms(3)] by blast
  with i(2) show ?thesis
    by (simp add: Remote_DeleteManager_def client_DeleteManager_def route_request_def private_api_def
        serve_def local_manager_def api_deleteManager_def)
qed

lemma Remote_delete_new:
  assumes "rules_inv env storage nd" and "usable_id env i" and "node_view nd i = None"
  shows "Remote_DeleteManager env storage Answered i nd = (Inl ManagerNotExistsError, nd)"
  using assms(2) local_rules.delete_new [OF assms(1) _ assms(3)]
  by (simp add: usable_id_def Remote_DeleteManager_def client_DeleteManager_def route_request_def
      private_api_def serve_def local_manager_def api_deleteManager_def extractFirstError_respondError)

lemma Remote_upsert_old:
  assumes "rules_inv env storage nd" and "usable_id env i" and "sendable_groups env g = Some gs"
    and "node_view nd i = Some (gs0, am)"
  shows "\<exists>nd'. Remote_UpsertRuleGroup env storage Answered i g nd = (Inr (), nd')
    \<and> rules_inv env storage nd' \<and> node_view nd' = (node_view nd)(i \<mapsto> (gs, am))"
proof -
  have i: "plain_name i" "path_param env i = Some i" using assms(2) by (simp_all add: usable_id_def)
  have g: "group_ok g" "loaded_groups env g = Some gs"
    using assms(3) by (simp_all add: sendable_groups_def split: if_splits)
  obtain nd' where nd': "Local_UpsertRuleGroup env storage i g nd = (Inr (), nd')"
      "rules_inv env storage nd'" "node_view nd' = (node_view nd)(i \<mapsto> (gs, am))"
    using local_rules.upsert_old [OF assms(1) i(1) g(2) assms(4)] by blast
  then have "Remote_UpsertRuleGroup env storage Answered i g nd = (Inr (), nd')"
    using i(2) g(1) api_upsertRuleGroup_sendable [OF assms(3), where rm = "local_manager env storage" and s = nd]
    by (simp add: Remote_UpsertRuleGroup_def client_UpsertRuleGroup_def route_request_def private_api_def
        serve_def local_manager_def decode_group_json)
  with nd' show ?thesis by blast
qed

text \<open>The handler answers 400 when the manager is missing; the client takes only 404 for that.\<close>

definition missing_upsert_error :: "nat \<Rightarrow> nat \<Rightarrow> rules_error" where
  "missing_upsert_error localIndex k =
     (if k = localIndex then ManagerNotExistsError else ApiError 400 ''The manager does not exist'')"

lemma Remote_upsert_new:
  assumes "rules_inv env storage nd" and "usable_id env i" and "sendable_groups env g = Some gs"
    and "node_view nd i = None"
  shows "Remote_UpsertRuleGroup env storage Answered i g nd = (Inl (ApiError 400 ''The manager does not exist''), nd)"
proof -
  have i: "plain_name i" "path_param env i = Some i" using assms(2) by (simp_all add: usable_id_def)
  have g: "loaded_groups env g = Some gs"
    using assms(3) by (simp add: sendable_groups_def split: if_splits)
  show ?thesis
    using local_rules.upsert_new [OF assms(1) i(1) g assms(4)] i(2)
      api_upsertRuleGroup_sendable [OF assms(3), where rm = "local_manager env storage" and s = nd]
    by (simp add: Remote_UpsertRuleGroup_def client_UpsertRuleGroup_def route_request_def private_api_def
        serve_def local_manager_def extractFirstError_respondError)
qed

interpretation node_rules: rule_manager
  "\<lambda>k. CreateManager (createRuleManagers env storage (\<lambda>_. Answered) localIndex k)"
  "\<lambda>k. DeleteManager (createRuleManagers env storage (\<lambda>_. Answered) localIndex k)"
  "\<lambda>k. UpsertRuleGroup (createRuleManagers env storage (\<lambda>_. Answered) localIndex k)"
  "rules_inv env storage" node_view "usable_id env" "accepts_some env" "sendable_groups env" "[]" Pair
  ManagerExistsError ManagerNotExistsError "missing_upsert_error localIndex"
  for env :: "('o, 'g) rules_env" and storage localIndex
proof unfold_locales
  fix s i am k g gs gs0 am0
  assume a: "rules_inv env storage s" "usable_id env i"
  let ?rm = "createRuleManagers env storage (\<lambda>_. Answered) localIndex k"
  have p: "plain_name i" using a(2) by (simp add: usable_id_def)
  have g: "loaded_groups env g = Some gs" if "sendable_groups env g = Some gs"
    using that by (simp add: sendable_groups_def split: if_splits)
  note defs = createRuleManagers_def local_manager_def remote_manager_def
  show "\<exists>s'. CreateManager ?rm i (am, s) = (Inr (i, am), am, s') \<and> rules_inv env storage s'
      \<and> node_view s' = (node_view s)(i \<mapsto> ([], am))" if "accepts_some env am" "node_view s i = None"
    using Remote_create_new [OF a that] local_rules.create_new [OF a(1) p that] by (simp add: defs)
  show "CreateManager ?rm i (am, s) = (Inl ManagerExistsError, am, s)"
    if "accepts_some env am" "node_view s i \<noteq> None"
    using Remote_create_old [OF a that] local_rules.create_old [OF a(1) p that] by (simp add: defs)
  show "\<exists>s'. DeleteManager ?rm i s = (Inr (), s') \<and> rules_inv env storage s'
      \<and> node_view s' = (node_view s)(i := None)" if "node_view s i \<noteq> None"
    using Remote_delete_old [OF a that] local_rules.delete_old [OF a(1) p that] by (simp add: defs)
  show "DeleteManager ?rm i s = (Inl ManagerNotExistsError, s)" if "node_view s i = None"
    using Remote_delete_new [OF a that] local_rules.delete_new [OF a(1) p that] by (simp add: defs)
  show "\<exists>s'. UpsertRuleGroup ?rm i g s = (Inr (), s') \<and> rules_inv env storage s'
      \<and> node_view s' = (node_view s)(i \<mapsto> (gs, am0))"
    if "sendable_groups env g = Some gs" "node_view s i = Some (gs0, am0)"
    using Remote_upsert_old [OF a that] local_rules.upsert_old [OF a(1) p g [OF that(1)] that(2)]
    by (simp add: defs)
  show "UpsertRuleGroup ?rm i g s = (Inl (missing_upsert_error localIndex k), s)"
    if "sendable_groups env g = Some gs" "node_view s i = None"
    using Remote_upsert_new [OF a that] local_rules.upsert_new [OF a(1) p g [OF that(1)] that(2)]
    by (simp add: defs missing_upsert_error_def)
qed

section \<open>The loops over the nodes\<close>

text \<open>The nodes of \<open>ks\<close> have changed as \<open>Q\<close> says, the others not at all.\<close>

definition changed_at :: "nat list \<Rightarrow> ('s \<Rightarrow> 's \<Rightarrow> bool) \<Rightarrow> 's list \<Rightarrow> 's list \<Rightarrow> bool" where
  "changed_at ks Q ss ss' \<longleftrightarrow>
     length ss' = length ss
     \<and> (\<forall>k<length ss. if k \<in> set ks then Q (ss ! k) (ss' ! k) else ss' ! k = ss ! k)"

lemma changed_at_Cons:
  assumes "changed_at ks Q (ss[k := s']) ss'" and "k \<notin> set ks" and "k < length ss" and "Q (ss ! k) s'"
  shows "changed_at (k # ks) Q ss ss'"
  using assms unfolding changed_at_def by (auto simp: nth_list_update split: if_splits)

lemma last_error_loop_ok:
  assumes "distinct ks" and "\<forall>k \<in> set ks. k < length ss \<and> (\<exists>s'. f k (ss ! k) = (Inr (), s') \<and> Q (ss ! k) s')"
  shows "\<exists>ss'. last_error_loop f ks r ss = (r, ss') \<and> changed_at ks Q ss ss'"
  using assms
proof (induction ks arbitrary: ss)
  case Nil
  then show ?case by (simp add: changed_at_def)
next
  case (Cons k ks)
  obtain s' where s': "f k (ss ! k) = (Inr (), s')" "Q (ss ! k) s'" "k < length ss"
    using Cons.prems(2) by auto
  have "\<exists>ss'. last_error_loop f ks r (ss[k := s']) = (r, ss') \<and> changed_at ks Q (ss[k := s']) ss'"
    using Cons.prems by (intro Cons.IH) (auto simp: nth_list_update)
  then obtain ss' where "last_error_loop f ks r (ss[k := s']) = (r, ss')"
      "changed_at ks Q (ss[k := s']) ss'"
    by blast
  with s' show ?case
    using changed_at_Cons [of ks Q ss k s' ss'] Cons.prems(1) by auto
qed

lemma last_error_loop_fail:
  assumes "\<forall>k \<in> set ks. f k (ss ! k) = (Inl (e k), ss ! k)" and "ks \<noteq> []"
  shows "last_error_loop f ks r ss = (Inl (e (last ks)), ss)"
proof -
  have "last_error_loop f ks r ss = (if ks = [] then r else Inl (e (last ks)), ss)"
    using assms(1) by (induction ks arbitrary: r) simp_all
  with assms(2) show ?thesis by simp
qed

context rule_manager begin

lemma create_loop_new:
  assumes "distinct ks" and "\<forall>k \<in> set ks. k < length ss \<and> inv (ss ! k) \<and> view (ss ! k) i = None"
    and "usable i" and "accepts am" and "ks \<noteq> []"
  shows "\<exists>ss'. create_loop (\<lambda>k. create k i) ks r (am, ss) = (Inr (made i am), am, ss')
    \<and> changed_at ks (\<lambda>s s'. inv s' \<and> view s' = (view s)(i \<mapsto> (none, am))) ss ss'"
proof -
  let ?Q = "\<lambda>s s'. inv s' \<and> view s' = (view s)(i \<mapsto> (none, am))"
  have "\<exists>ss'. create_loop (\<lambda>k. create k i) ks r (am, ss) =
      (if ks = [] then r else Inr (made i am), am, ss') \<and> changed_at ks ?Q ss ss'"
    using assms(1,2)
  proof (induction ks arbitrary: ss r)
    case Nil
    then show ?case by (simp add: changed_at_def)
  next
    case (Cons k ks)
    obtain s' where s': "create k i (am, ss ! k) = (Inr (made i am), am, s')" "?Q (ss ! k) s'" "k < length ss"
      using Cons.prems(2) create_new [OF _ assms(3,4), of "ss ! k" k] by auto
    obtain ss' where ss': "create_loop (\<lambda>k. create k i) ks (Inr (made i am)) (am, ss[k := s']) =
        (if ks = [] then Inr (made i am) else Inr (made i am), am, ss')" "changed_at ks ?Q (ss[k := s']) ss'"
    proof -
      have "\<forall>j \<in> set ks. j < length (ss[k := s']) \<and> inv (ss[k := s'] ! j) \<and> view (ss[k := s'] ! j) i = None"
        using Cons.prems by (auto simp: nth_list_update)
      from Cons.IH [OF _ this, of "Inr (made i am)"] Cons.prems(1)
      have "\<exists>ss'. create_loop (\<lambda>k. create k i) ks (Inr (made i am)) (am, ss[k := s']) =
          (if ks = [] then Inr (made i am) else Inr (made i am), am, ss') \<and> changed_at ks ?Q (ss[k := s']) ss'"
        by (simp only: distinct.simps simp_thms)
      then show thesis using that by (elim exE conjE)
    qed
    have "changed_at (k # ks) ?Q ss ss'"
      using ss'(2) Cons.prems(1) s'(2,3) by (intro changed_at_Cons) simp_all
    moreover have "create_loop (\<lambda>k. create k i) (k # ks) r (am, ss) = (Inr (made i am), am, ss')"
      using s'(1) ss'(1) by simp
    ultimately show ?case by (intro exI conjI) (simp only: list.distinct if_False, assumption)
  qed
  with assms(5) show ?thesis by simp
qed

lemma create_loop_old:
  assumes "\<forall>k \<in> set ks. inv (ss ! k) \<and> view (ss ! k) i \<noteq> None" and "usable i" and "accepts am" and "ks \<noteq> []"
  shows "create_loop (\<lambda>k. create k i) ks r (am, ss) = (Inl exists_error, am, ss)"
proof -
  have "create_loop (\<lambda>k. create k i) ks r (am, ss) = (if ks = [] then r else Inl exists_error, am, ss)"
    using assms(1)
  proof (induction ks arbitrary: r)
    case (Cons k ks)
    then have "create k i (am, ss ! k) = (Inl exists_error, am, ss ! k)"
      by (intro create_old [OF _ assms(2,3)]) simp_all
    with Cons show ?case by simp
  qed simp
  with assms(4) show ?thesis by simp
qed

lemma delete_loop_old:
  assumes "distinct ks" and "\<forall>k \<in> set ks. k < length ss \<and> inv (ss ! k) \<and> view (ss ! k) i \<noteq> None" and "usable i"
  shows "\<exists>ss'. last_error_loop (\<lambda>k. delete k i) ks r ss = (r, ss')
    \<and> changed_at ks (\<lambda>s s'. inv s' \<and> view s' = (view s)(i := None)) ss ss'"
  using assms(2) delete_old [OF _ assms(3)] by (intro last_error_loop_ok [OF assms(1)]) blast

lemma delete_loop_new:
  assumes "\<forall>k \<in> set ks. inv (ss ! k) \<and> view (ss ! k) i = None" and "usable i" and "ks \<noteq> []"
  shows "last_error_loop (\<lambda>k. delete k i) ks r ss = (Inl missing_error, ss)"
  using assms(1) delete_new [OF _ assms(2)] by (intro last_error_loop_fail [OF _ assms(3)]) blast

lemma upsert_loop_old:
  assumes "distinct ks" and "\<forall>k \<in> set ks. k < length ss \<and> inv (ss ! k) \<and> view (ss ! k) i = Some (gs0, am)"
    and "usable i" and "loads g = Some gs"
  shows "\<exists>ss'. last_error_loop (\<lambda>k. upsert k i g) ks r ss = (r, ss')
    \<and> changed_at ks (\<lambda>s s'. inv s' \<and> view s' = (view s)(i \<mapsto> (gs, am))) ss ss'"
  using assms(2) upsert_old [OF _ assms(3,4)] by (intro last_error_loop_ok [OF assms(1)]) blast

lemma upsert_loop_new:
  assumes "\<forall>k \<in> set ks. inv (ss ! k) \<and> view (ss ! k) i = None" and "usable i" and "loads g = Some gs" and "ks \<noteq> []"
  shows "last_error_loop (\<lambda>k. upsert k i g) ks r ss = (Inl (upsert_error (last ks)), ss)"
  using assms(1) upsert_new [OF _ assms(2,3)] by (intro last_error_loop_fail [OF _ assms(4)]) blast

end

section \<open>The cluster as one map\<close>

text \<open>Every node holds, of one map, the managers that the lookup gives it.\<close>

definition cluster_ok ::
  "('o, 'g) rules_env \<Rightarrow> path \<Rightarrow> (string \<Rightarrow> nat list) \<Rightarrow> (string \<Rightarrow> ('g list \<times> 'o alertmanager list option) option) \<Rightarrow>
    ('o, 'g) rule_node list \<Rightarrow> bool" where
  "cluster_ok env storage lookup S nodes \<longleftrightarrow>
     (\<forall>k<length nodes. rules_inv env storage (nodes ! k)
        \<and> node_view (nodes ! k) = (\<lambda>i. if k \<in> set (lookup i) then S i else None))"

lemma cluster_ok_node:
  assumes "cluster_ok env storage lookup S nodes" and "k < length nodes"
  shows "rules_inv env storage (nodes ! k)" and "k \<in> set (lookup i) \<Longrightarrow> node_view (nodes ! k) i = S i"
  using assms by (simp_all add: cluster_ok_def)

lemma cluster_ok_changed:
  assumes "cluster_ok env storage lookup S nodes"
    and "changed_at (lookup i) (\<lambda>s s'. rules_inv env storage s' \<and> node_view s' = (node_view s)(i := v)) nodes nodes'"
  shows "cluster_ok env storage lookup (S(i := v)) nodes'"
  unfolding cluster_ok_def
proof (intro allI impI)
  fix k
  assume k: "k < length nodes'"
  have "(if k \<in> set (lookup i) then rules_inv env storage (nodes' ! k)
        \<and> node_view (nodes' ! k) = (node_view (nodes ! k))(i := v) else nodes' ! k = nodes ! k)"
    and len: "length nodes' = length nodes"
    using assms(2) k by (simp_all add: changed_at_def)
  moreover have "rules_inv env storage (nodes ! k)"
      "node_view (nodes ! k) = (\<lambda>i. if k \<in> set (lookup i) then S i else None)"
    using assms(1) k len by (simp_all add: cluster_ok_def)
  ultimately show "rules_inv env storage (nodes' ! k) \<and>
      node_view (nodes' ! k) = (\<lambda>j. if k \<in> set (lookup j) then (S(i := v)) j else None)"
    by (cases "k \<in> set (lookup i)") (auto simp: fun_eq_iff)
qed

text \<open>The requests of a client, as JSON, and what they do to the map, with the status of the
  answer. An upsert to a manager that does not exist is answered with 400 when the last node of
  the lookup is the one that was asked, otherwise with 500.\<close>

datatype 'o rules_op =
    CreateOp string "'o alertmanager list" | UpsertOp string ruleGroup | DeleteOp string

fun op_request :: "('o, 'g) rules_env \<Rightarrow> 'o rules_op \<Rightarrow> rules_request" where
  "op_request env (CreateOp i ams) =
     PostManager (ManagerConfig_ToJSON env \<lparr>mc_id = i, mc_alertmanagers = Some ams\<rparr>)"
| "op_request env (UpsertOp i g) = PostGroup i (Some (groupData_json g))"
| "op_request env (DeleteOp i) = DelManager i"

fun op_ok :: "('o, 'g) rules_env \<Rightarrow> 'o rules_op \<Rightarrow> bool" where
  "op_ok env (CreateOp i ams) = (usable_id env i \<and> accepted env ams)"
| "op_ok env (UpsertOp i g) = (usable_id env i \<and> sendable_groups env g \<noteq> None)"
| "op_ok env (DeleteOp i) = usable_id env i"

fun spec_op ::
  "('o, 'g) rules_env \<Rightarrow> (string \<Rightarrow> nat list) \<Rightarrow> nat \<Rightarrow> 'o rules_op \<Rightarrow>
    (string \<Rightarrow> ('g list \<times> 'o alertmanager list option) option) \<Rightarrow>
    int \<times> (string \<Rightarrow> ('g list \<times> 'o alertmanager list option) option)" where
  "spec_op env lookup k (CreateOp i ams) S =
     (if S i = None then (201, S(i \<mapsto> ([], Some ams))) else (409, S))"
| "spec_op env lookup k (UpsertOp i g) S =
     (case S i of
        Some (_, am) \<Rightarrow> (201, S(i \<mapsto> (the (sendable_groups env g), am)))
      | None \<Rightarrow> (if last (lookup i) = k then 400 else 500, S))"
| "spec_op env lookup k (DeleteOp i) S =
     (if S i = None then (404, S) else (204, S(i := None)))"

text \<open>One after the other, at the nodes named.\<close>

fun spec_run ::
  "('o, 'g) rules_env \<Rightarrow> (string \<Rightarrow> nat list) \<Rightarrow> (nat \<times> 'o rules_op) list \<Rightarrow>
    (string \<Rightarrow> ('g list \<times> 'o alertmanager list option) option) \<Rightarrow>
    int list \<times> (string \<Rightarrow> ('g list \<times> 'o alertmanager list option) option)" where
  "spec_run env lookup [] S = ([], S)"
| "spec_run env lookup ((k, rop) # ops) S =
     (case spec_op env lookup k rop S of (st, S) \<Rightarrow>
        (case spec_run env lookup ops S of (sts, S) \<Rightarrow> (st # sts, S)))"

fun api_run ::
  "('o, 'g) rules_env \<Rightarrow> path \<Rightarrow> (string \<Rightarrow> nat list) \<Rightarrow> string \<Rightarrow> (nat \<times> 'o rules_op) list \<Rightarrow>
    ('o, 'g) rule_node list \<Rightarrow> int list \<times> ('o, 'g) rule_node list" where
  "api_run env storage lookup uuid [] nodes = ([], nodes)"
| "api_run env storage lookup uuid ((k, rop) # ops) nodes =
     (case public_api env storage lookup uuid (\<lambda>_. Answered) k (op_request env rop) nodes of (resp, nodes) \<Rightarrow>
        (case api_run env storage lookup uuid ops nodes of (sts, nodes) \<Rightarrow> (resp_status resp # sts, nodes)))"

lemma public_create:
  assumes "cluster_ok env storage lookup S nodes" and "distinct (lookup i)" and "lookup i \<noteq> []"
    and "\<forall>k \<in> set (lookup i). k < length nodes" and "nodes \<noteq> []" and "usable_id env i" and "accepted env ams"
  shows "\<exists>resp nodes'. public_api env storage lookup uuid (\<lambda>_. Answered) n (op_request env (CreateOp i ams)) nodes = (resp, nodes')
    \<and> length nodes' = length nodes
    \<and> (if S i = None then resp_status resp = 201 \<and> cluster_ok env storage lookup (S(i \<mapsto> ([], Some ams))) nodes'
       else resp_status resp = 409 \<and> nodes' = nodes)"
proof -
  let ?rm = "replicated_manager env storage (\<lambda>_. Answered) n lookup"
  have v: "visits_all env"
    using cluster_ok_node(1) [OF assms(1), of 0] assms(5) by (simp add: rules_inv_def)
  have am: "accepts_some env (Some ams)" using assms(7) by (simp add: accepts_some_def)
  have i: "i \<noteq> []" using assms(6) by (simp add: usable_id_def plain_name_def)
  obtain j where j: "ManagerConfig_ToJSON env \<lparr>mc_id = i, mc_alertmanagers = Some ams\<rparr> = Some j"
    using assms(7) by (auto simp: accepted_def intro: config_roundtrip)
  note api = api_createManager_accepted [OF v assms(7) assms(7) i j, where uuid = uuid and rm = ?rm and s = nodes]
  have nodes: "k < length nodes" "rules_inv env storage (nodes ! k)" "node_view (nodes ! k) i = S i"
    if "k \<in> set (lookup i)" for k
    using that assms(4) cluster_ok_node [OF assms(1)] by blast+
  show ?thesis
  proof (cases "S i")
    case None
    have h: "\<forall>k \<in> set (lookup i). k < length nodes \<and> rules_inv env storage (nodes ! k) \<and> node_view (nodes ! k) i = None"
      using nodes None by simp
    obtain nodes' where n': "CreateManager ?rm i (Some ams, nodes) = (Inr (i, Some ams), Some ams, nodes')"
        "changed_at (lookup i) (\<lambda>s s'. rules_inv env storage s' \<and> node_view s' = (node_view s)(i \<mapsto> ([], Some ams))) nodes nodes'"
      using node_rules.create_loop_new [where localIndex = n and r = "Inl NilDereference", OF assms(2) h assms(6) am assms(3)]
      unfolding replicated_manager_def Let_def ruleManager.simps by blast
    then show ?thesis
      using None api j cluster_ok_changed [OF assms(1) n'(2)]
      by (simp add: public_api_def serve_def changed_at_def)
  next
    case (Some sv)
    have h: "\<forall>k \<in> set (lookup i). rules_inv env storage (nodes ! k) \<and> node_view (nodes ! k) i \<noteq> None"
      using nodes Some by simp
    have "CreateManager ?rm i (Some ams, nodes) = (Inl ManagerExistsError, Some ams, nodes)"
      using node_rules.create_loop_old [where localIndex = n and r = "Inl NilDereference", OF h assms(6) am assms(3)]
      unfolding replicated_manager_def Let_def ruleManager.simps .
    then show ?thesis using Some api j by (simp add: public_api_def serve_def)
  qed
qed

lemma public_delete:
  assumes "cluster_ok env storage lookup S nodes" and "distinct (lookup i)" and "lookup i \<noteq> []"
    and "\<forall>k \<in> set (lookup i). k < length nodes" and "usable_id env i"
  shows "\<exists>resp nodes'. public_api env storage lookup uuid (\<lambda>_. Answered) n (op_request env (DeleteOp i)) nodes = (resp, nodes')
    \<and> length nodes' = length nodes
    \<and> (if S i = None then resp_status resp = 404 \<and> nodes' = nodes
       else resp_status resp = 204 \<and> cluster_ok env storage lookup (S(i := None)) nodes')"
proof -
  let ?rm = "replicated_manager env storage (\<lambda>_. Answered) n lookup"
  have nodes: "k < length nodes" "rules_inv env storage (nodes ! k)" "node_view (nodes ! k) i = S i"
    if "k \<in> set (lookup i)" for k
    using that assms(4) cluster_ok_node [OF assms(1)] by blast+
  show ?thesis
  proof (cases "S i")
    case None
    have h: "\<forall>k \<in> set (lookup i). rules_inv env storage (nodes ! k) \<and> node_view (nodes ! k) i = None"
      using nodes None by simp
    have "DeleteManager ?rm i nodes = (Inl ManagerNotExistsError, nodes)"
      using node_rules.delete_loop_new [where localIndex = n and r = "Inr ()", OF h assms(5,3)]
      unfolding replicated_manager_def Let_def ruleManager.simps .
    with None show ?thesis by (simp add: public_api_def serve_def api_deleteManager_def)
  next
    case (Some sv)
    have h: "\<forall>k \<in> set (lookup i). k < length nodes \<and> rules_inv env storage (nodes ! k) \<and> node_view (nodes ! k) i \<noteq> None"
      using nodes Some by simp
    obtain nodes' where n': "DeleteManager ?rm i nodes = (Inr (), nodes')"
        "changed_at (lookup i) (\<lambda>s s'. rules_inv env storage s' \<and> node_view s' = (node_view s)(i := None)) nodes nodes'"
      using node_rules.delete_loop_old [where localIndex = n and r = "Inr ()", OF assms(2) h assms(5)]
      unfolding replicated_manager_def Let_def ruleManager.simps by blast
    then show ?thesis
      using Some cluster_ok_changed [OF assms(1) n'(2)]
      by (simp add: public_api_def serve_def api_deleteManager_def changed_at_def)
  qed
qed

lemma public_upsert:
  assumes "cluster_ok env storage lookup S nodes" and "distinct (lookup i)" and "lookup i \<noteq> []"
    and "\<forall>k \<in> set (lookup i). k < length nodes" and "usable_id env i" and "sendable_groups env g = Some gs"
  shows "\<exists>resp nodes'. public_api env storage lookup uuid (\<lambda>_. Answered) n (op_request env (UpsertOp i g)) nodes = (resp, nodes')
    \<and> length nodes' = length nodes
    \<and> (case S i of
         None \<Rightarrow> resp_status resp = (if last (lookup i) = n then 400 else 500) \<and> nodes' = nodes
       | Some (_, am) \<Rightarrow> resp_status resp = 201 \<and> cluster_ok env storage lookup (S(i \<mapsto> (gs, am))) nodes')"
proof -
  let ?rm = "replicated_manager env storage (\<lambda>_. Answered) n lookup"
  note api = api_upsertRuleGroup_sendable [OF assms(6), where rm = ?rm and i = i and s = nodes]
  have nodes: "k < length nodes" "rules_inv env storage (nodes ! k)" "node_view (nodes ! k) i = S i"
    if "k \<in> set (lookup i)" for k
    using that assms(4) cluster_ok_node [OF assms(1)] by blast+
  show ?thesis
  proof (cases "S i")
    case None
    have h: "\<forall>k \<in> set (lookup i). rules_inv env storage (nodes ! k) \<and> node_view (nodes ! k) i = None"
      using nodes None by simp
    have "UpsertRuleGroup ?rm i g nodes = (Inl (missing_upsert_error n (last (lookup i))), nodes)"
      using node_rules.upsert_loop_new [where localIndex = n and r = "Inr ()", OF h assms(5,6,3)]
      unfolding replicated_manager_def Let_def ruleManager.simps .
    with None api show ?thesis by (simp add: public_api_def serve_def missing_upsert_error_def)
  next
    case (Some sv)
    obtain gs0 am where sv: "sv = (gs0, am)" by (cases sv)
    have h: "\<forall>k \<in> set (lookup i). k < length nodes \<and> rules_inv env storage (nodes ! k) \<and> node_view (nodes ! k) i = Some (gs0, am)"
      using nodes Some sv by simp
    obtain nodes' where n': "UpsertRuleGroup ?rm i g nodes = (Inr (), nodes')"
        "changed_at (lookup i) (\<lambda>s s'. rules_inv env storage s' \<and> node_view s' = (node_view s)(i \<mapsto> (gs, am))) nodes nodes'"
      using node_rules.upsert_loop_old [where localIndex = n and r = "Inr ()", OF assms(2) h assms(5,6)]
      unfolding replicated_manager_def Let_def ruleManager.simps by blast
    then show ?thesis
      using Some sv api cluster_ok_changed [OF assms(1) n'(2)]
      by (simp add: public_api_def serve_def changed_at_def)
  qed
qed

lemma api_step:
  assumes "made_table t (length nodes) rf" and "cluster_ok env storage (RoutingTable_Lookup sum64 jump t) S nodes"
    and "op_ok env rop"
  shows "\<exists>resp nodes'. public_api env storage (RoutingTable_Lookup sum64 jump t) uuid (\<lambda>_. Answered) n (op_request env rop) nodes
      = (resp, nodes')
    \<and> length nodes' = length nodes
    \<and> resp_status resp = fst (spec_op env (RoutingTable_Lookup sum64 jump t) n rop S)
    \<and> cluster_ok env storage (RoutingTable_Lookup sum64 jump t)
        (snd (spec_op env (RoutingTable_Lookup sum64 jump t) n rop S)) nodes'"
proof -
  let ?lk = "RoutingTable_Lookup sum64 jump t"
  obtain local addrs where a: "distinct addrs" "length addrs = length nodes" "NewRoutingTable local addrs rf = Inr t"
    using assms(1) by (auto simp: made_table_def)
  have rf: "0 < rf" "rf \<le> length nodes"
    using routing_table_fields(1,2) [OF a(1,3)] a(2) by simp_all
  have lk: "distinct (?lk i)" "\<forall>k \<in> set (?lk i). k < length nodes" "?lk i \<noteq> []" for i
    using table.nodes_distinct [OF assms(1)] table.nodes_valid [OF assms(1)]
      table.nodes_count [OF assms(1), of sum64 jump i] rf(1) by auto
  have ne: "nodes \<noteq> []" using rf by auto
  show ?thesis
  proof (cases rop)
    case (CreateOp i ams)
    then have "usable_id env i" "accepted env ams" using assms(3) by simp_all
    from public_create [OF assms(2) lk(1,3,2) ne this, of uuid n] CreateOp assms(2) show ?thesis
      by (auto split: if_splits)
  next
    case (UpsertOp i g)
    then obtain gs where "usable_id env i" "sendable_groups env g = Some gs" using assms(3) by auto
    from public_upsert [OF assms(2) lk(1,3,2) this, of uuid n] UpsertOp this(2) assms(2) show ?thesis
      by (auto split: option.splits)
  next
    case (DeleteOp i)
    then have "usable_id env i" using assms(3) by simp
    from public_delete [OF assms(2) lk(1,3,2) this, of uuid n] DeleteOp assms(2) show ?thesis
      by (auto split: if_splits)
  qed
qed


section \<open>An example\<close>

definition ex_group :: ruleGroup where
  "ex_group = \<lparr>group_Name = ''up'', group_Interval = 90000000000,
     group_Rules = [empty_rule\<lparr>rule_Alert := ''down'', rule_Expr := ''up == 0''\<rparr>]\<rparr>"

lemma ex_usable: "usable_id ex_rules_env ''m''"
  by (simp add: usable_id_def plain_name_def ex_env_for_def)

lemma ex_group_sendable: "sendable_groups ex_rules_env ex_group = Some [''up'']"
  by (simp add: sendable_groups_def group_ok_def interval_ok_def ex_group_def rule_ok_def empty_rule_def
      RuleGroup_Validate_def Rule_Validate_def convertToPromRule_def ex_env_for_def loaded_groups_def
      ConvertToPromRuleGroup_def)


section \<open>Where the replicas come apart\<close>

lemma last_error_loop_append:
  "last_error_loop f (ks @ ls) r ss =
     (case last_error_loop f ks r ss of (r, ss) \<Rightarrow> last_error_loop f ls r ss)"
  by (induction f ks r ss rule: last_error_loop.induct) (auto split: prod.splits sum.splits)

lemma last_error_loop_untouched:
  assumes "k \<notin> set ks"
  shows "snd (last_error_loop f ks r ss) ! k = ss ! k"
  using assms by (induction f ks r ss rule: last_error_loop.induct) (auto split: prod.splits sum.splits)

text \<open>An error is reported, whatever the nodes after it answer.\<close>

lemma last_error_loop_sticky: "\<exists>e' ss'. last_error_loop f ks (Inl e) ss = (Inl e', ss')"
  by (induction ks arbitrary: e ss) (auto split: prod.splits sum.splits)

lemma last_error_loop_reports:
  assumes "distinct ks" and "k \<in> set ks" and "\<And>s. f k s = (Inl e, s)"
  shows "\<exists>e' ss'. last_error_loop f ks r ss = (Inl e', ss') \<and> ss' ! k = ss ! k"
proof -
  obtain as bs where ks: "ks = as @ k # bs" using assms(2) by (meson split_list)
  then have "k \<notin> set as" "k \<notin> set bs" using assms(1) by auto
  obtain r1 ss1 where 1: "last_error_loop f as r ss = (r1, ss1)" by fastforce
  then have "ss1 ! k = ss ! k" using last_error_loop_untouched [OF \<open>k \<notin> set as\<close>, of f r ss] by simp
  obtain e2 ss2 where 2: "last_error_loop f bs (Inl e) ss1 = (Inl e2, ss2)"
    using last_error_loop_sticky [of f bs e ss1] by blast
  then have "ss2 ! k = ss1 ! k" using last_error_loop_untouched [OF \<open>k \<notin> set bs\<close>, of f "Inl e" ss1] by simp
  with 1 2 \<open>ss1 ! k = ss ! k\<close> show ?thesis
    by (simp add: ks last_error_loop_append assms(3))
qed

lemma Remote_upsert_days:
  assumes "path_param env i = Some i" and "int64_range (group_Interval g)" and "group_Interval g \<noteq> 0"
    and "86400000000000 dvd group_Interval g"
  shows "Remote_UpsertRuleGroup env storage Answered i g nd = (Inl (ApiError 400 (std_error env)), nd)"
  using assms(1) decode_group_days [OF assms(2-4), of "float_mul env"]
  by (simp add: Remote_UpsertRuleGroup_def client_UpsertRuleGroup_def route_request_def private_api_def
      serve_def api_upsertRuleGroup_def extractFirstError_respondError)

text \<open>C29: A rule group with an interval of whole days, say \<open>24h\<close>, never reaches a replica of its
  manager on another node: the node that gets the request sends it on with the interval printed in
  days, which the other node cannot read. Every such replica keeps the rules it had, and the
  request is answered with an error, also when the node's own replica has taken the group.\<close>

theorem day_interval_not_replicated:
  assumes "usable_id env i" and "distinct (lookup i)" and "k \<in> set (lookup i)" and "k \<noteq> localIndex"
    and "int64_range (group_Interval g)" and "group_Interval g \<noteq> 0" and "86400000000000 dvd group_Interval g"
  shows "\<exists>e nodes'. UpsertRuleGroup (replicated_manager env storage (\<lambda>_. Answered) localIndex lookup) i g nodes = (Inl e, nodes')
    \<and> nodes' ! k = nodes ! k"
proof -
  have "path_param env i = Some i" using assms(1) by (simp add: usable_id_def)
  then have "UpsertRuleGroup (createRuleManagers env storage (\<lambda>_. Answered) localIndex k) i g nd =
      (Inl (ApiError 400 (std_error env)), nd)" for nd
    using assms(4) Remote_upsert_days [OF _ assms(5-7)] by (simp add: createRuleManagers_def remote_manager_def)
  from last_error_loop_reports [OF assms(2,3), where f = "\<lambda>k. UpsertRuleGroup (createRuleManagers env storage (\<lambda>_. Answered) localIndex k) i g",
      OF this]
  show ?thesis by (simp add: replicated_manager_def Let_def)
qed

theorem day_interval_not_replicated_witness:
  "\<exists>e nodes'. UpsertRuleGroup (replicated_manager ex_rules_env [''rule_managers''] (\<lambda>_. Answered) 0 (\<lambda>_. [0, 1])) ''m''
      (ex_group\<lparr>group_Interval := 86400000000000\<rparr>) [fresh_node, fresh_node] = (Inl e, nodes')
    \<and> nodes' ! 1 = fresh_node"
  using day_interval_not_replicated [of ex_rules_env "''m''" "\<lambda>_. [0, 1]" 1 0
      "ex_group\<lparr>group_Interval := 86400000000000\<rparr>" "[''rule_managers'']" "[fresh_node, fresh_node]"]
  by (simp add: ex_usable)

lemma create_loop_unreachable:
  assumes "\<forall>k \<in> set ks. f k (am, ss ! k) = (Inl (e k), am, ss ! k)"
  shows "\<exists>r'. create_loop f (ks @ ls) r (am, ss) = create_loop f ls r' (am, ss)"
  using assms by (induction ks arbitrary: r) auto

lemma Remote_create_unreachable:
  assumes "accepted env ams"
  shows "Remote_CreateManager env storage Unreachable i (Some ams, nd) =
    (Inl (ApiError 500 (std_error env)), Some ams, nd)"
proof -
  obtain j where "ManagerConfig_ToJSON env \<lparr>mc_id = i, mc_alertmanagers = Some ams\<rparr> = Some j"
    using assms by (auto simp: accepted_def intro: config_roundtrip)
  moreover obtain resp nd' where "private_api env storage (PostManager (Some j)) nd = (resp, nd')" by fastforce
  ultimately show ?thesis by (simp add: Remote_CreateManager_def client_CreateManager_def)
qed

text \<open>C30: A manager is reported as created (201) when the last node of its lookup has created it,
  also when no other node of the lookup could be reached: those are left without it.\<close>

theorem create_hides_unreachable:
  assumes "lookup i = ks @ [k]" and "\<forall>j \<in> set ks. j \<noteq> localIndex \<and> fate j = Unreachable"
    and "k = localIndex \<or> fate k = Answered" and "k \<notin> set ks" and "k < length nodes"
    and "rules_inv env storage (nodes ! k)" and "node_view (nodes ! k) i = None"
    and "usable_id env i" and "accepted env ams"
  shows "\<exists>resp nd'. public_api env storage lookup uuid fate localIndex (op_request env (CreateOp i ams)) nodes
      = (resp, nodes[k := nd'])
    \<and> resp_status resp = 201 \<and> node_view nd' i = Some ([], Some ams)"
proof -
  let ?rms = "createRuleManagers env storage fate localIndex"
  let ?rm = "replicated_manager env storage fate localIndex lookup"
  have v: "visits_all env" and p: "plain_name i" using assms(6,8) by (simp_all add: rules_inv_def usable_id_def)
  have am: "accepts_some env (Some ams)" using assms(9) by (simp add: accepts_some_def)
  obtain j where j: "ManagerConfig_ToJSON env \<lparr>mc_id = i, mc_alertmanagers = Some ams\<rparr> = Some j"
    using assms(9) by (auto simp: accepted_def intro: config_roundtrip)
  have "\<forall>m \<in> set ks. CreateManager (?rms m) i (Some ams, nodes ! m) =
      (Inl (ApiError 500 (std_error env)), Some ams, nodes ! m)"
    using assms(2) by (simp add: createRuleManagers_def remote_manager_def Remote_create_unreachable [OF assms(9)])
  from create_loop_unreachable [where f = "\<lambda>m. CreateManager (?rms m) i" and am = "Some ams" and ss = nodes
      and e = "\<lambda>_. ApiError 500 (std_error env)" and ls = "[k]" and r = "Inl NilDereference", OF this]
  obtain r' where "CreateManager ?rm i (Some ams, nodes) =
      create_loop (\<lambda>m. CreateManager (?rms m) i) [k] r' (Some ams, nodes)"
    by (auto simp: replicated_manager_def Let_def assms(1))
  moreover obtain nd' where "CreateManager (?rms k) i (Some ams, nodes ! k) = (Inr (i, Some ams), Some ams, nd')"
      "node_view nd' = (node_view (nodes ! k))(i \<mapsto> ([], Some ams))"
  proof -
    have "CreateManager (?rms k) i = (if k = localIndex then Local_CreateManager env storage i
        else Remote_CreateManager env storage Answered i)"
      using assms(3) by (auto simp: createRuleManagers_def remote_manager_def local_manager_def)
    then show thesis
      using Remote_create_new [OF assms(6,8) am assms(7)] local_rules.create_new [OF assms(6) p am assms(7)] that
      by (cases "k = localIndex") auto
  qed
  ultimately show ?thesis
    using api_createManager_accepted [OF v assms(9) assms(9) plain_name_nonempty [OF p] j, where uuid = uuid and rm = ?rm and s = nodes] j
    by (auto simp: public_api_def serve_def)
qed

theorem create_hides_unreachable_witness:
  "\<exists>resp nd'. public_api ex_rules_env [''rule_managers''] (\<lambda>_. [0, 1]) ''uuid'' (\<lambda>k. if k = 0 then Unreachable else Answered) 1
      (op_request ex_rules_env (CreateOp ''m'' [])) [fresh_node, fresh_node] = (resp, [fresh_node, nd'])
    \<and> resp_status resp = 201 \<and> node_view nd' ''m'' = Some ([], Some [])"
  using create_hides_unreachable [of "\<lambda>_. [0, 1]" "''m''" "[0]" 1 1 "\<lambda>k. if k = 0 then Unreachable else Answered"
      "[fresh_node, fresh_node]" ex_rules_env "[''rule_managers'']" "[]" "''uuid''"]
    fresh_node_inv [OF ex_rules_env_ok(1,2)] ex_rules_env_ok(3)
  by (simp add: ex_usable)

text \<open>The files of a manager just created on a node, whether or not it started.\<close>

lemma Local_create_files:
  assumes "rules_inv env storage nd" and "plain_name i" and "node_view nd i = None"
    and "yaml_Marshal_alertmanagers env (Some (moved_all (storage @ [i]) ams)) = Some y"
  obtains r nd' where "Local_CreateManager env storage i (Some ams, nd) = (r, Some (moved_all (storage @ [i]) ams), nd')"
    and "entry (rn_fs nd') (storage @ [i, ''alertmanager.yml'']) = Some (FFile y)"
    and "\<forall>j<length ams. certs_in_files (storage @ [i]) ams j (rn_fs nd')"
    and "\<And>n. no_certs ams \<Longrightarrow> n \<noteq> ''rules.yml'' \<Longrightarrow> n \<noteq> ''alertmanager.yml'' \<Longrightarrow>
      entry (rn_fs nd') (storage @ [i, n]) = None"
proof -
  have inv: "visits_all env" "empty_file_ok env" "node_inv env storage nd"
    using assms(1) by (simp_all add: rules_inv_def)
  have s: "fs_faults (rn_fs nd) = []" "dir_ok (rn_fs nd) storage" "tree_ok (rn_fs nd)"
    using storage_of_inv [OF inv(3)] by (simp_all add: storage_ok_def)
  have new: "entry (rn_fs nd) (storage @ [i]) = None" using node_view_None [OF inv(3)] assms(3) by simp
  obtain y0 where y0: "yaml_Marshal_groups env [] = Some y0"
    using inv(2) by (auto simp: empty_file_ok_def split: option.splits)
  obtain w where w: "Files_Create env storage i (Some ams, rn_fs nd) =
        (Inr (storage @ [i, ''rules.yml'']), Some (moved_all (storage @ [i]) ams), w)"
      "entry w (storage @ [i, ''alertmanager.yml'']) = Some (FFile y)"
      "\<forall>j<length ams. certs_in_files (storage @ [i]) ams j w"
      "\<And>n. no_certs ams \<Longrightarrow> n \<noteq> ''rules.yml'' \<Longrightarrow> n \<noteq> ''alertmanager.yml'' \<Longrightarrow>
        entry w (storage @ [i, n]) = None"
    by (rule Files_Create_ok [OF assms(2) inv(1) s new y0 assms(4)]) auto
  have "\<exists>r nd'. Local_CreateManager env storage i (Some ams, nd) = (r, Some (moved_all (storage @ [i]) ams), nd')
      \<and> rn_fs nd' = w"
    by (simp add: Local_CreateManager_def w(1) on_managers_def split: prod.split sum.split)
  then obtain r nd' where "Local_CreateManager env storage i (Some ams, nd) = (r, Some (moved_all (storage @ [i]) ams), nd')"
      "rn_fs nd' = w"
    by blast
  with w(2-4) show thesis using that by simp
qed

lemma moved_all_twice: "moved_all d (moved_all d ams) = moved_all d ams"
  by (rule moved_all_no_certs [OF no_certs_moved])


text \<open>A certificate in the configuration of one alertmanager.\<close>

definition ex_cert :: string where
  "ex_cert = ''-----BEGIN C-----x-----END C-----''"

definition ex_alertmanagers :: "unit alertmanager list" where
  "ex_alertmanagers = [\<lparr>CAFile = ex_cert, CertFile = [], KeyFile = [], am_rest = ()\<rparr>]"


end
