(* ===== verification/Spec2Isabelle.thy ===== *)
theory Spec2Isabelle
  imports Metric_Node Net_Lifecycle Batching Nozzle Access_Log Rules_Cluster
begin

text \<open>
  Metric store is a clustered store for the metrics of Cloud Foundry, written in Go. This library
  models its write path, its read path, its access control and its rule managers, and proves what
  they promise. All
  file names below are under \<^verbatim>\<open>src/src\<close>.

  \<^bold>\<open>The program.\<close> A nozzle turns envelopes of the log system into points and sends them in batches
  over TCP to the ingress port of a node. The node sanitises the points and looks up, by the hash
  of the metric name, the nodes that hold them. Its own points go to an appender of the local
  store, which keeps an Influx database with one shard per day. Points of other nodes go through a
  ring buffer and a batcher to a writer that sends them to the internode port of the other node,
  and puts them into a queue on disk when that fails; a replayer sends them later. Queries go to
  the local store or, with failover and retries, to a node that holds the metric. In front of the
  query API a proxy lets only requests through that are authorised. Rule managers, which evaluate
  alerting rules, are created, filled and deleted over HTTP; a node passes each request on to the
  nodes that hold the manager, and keeps its own managers in files.

  \<^bold>\<open>Values.\<close> \<^verbatim>\<open>Go_Prelude\<close> has what all theories share. An int64 or uint64 is an \<^typ>\<open>int\<close>, wrapped by
  \<open>i64\<close> and \<open>u64\<close> where the code can overflow; a byte is an \<open>8 word\<close>; a Go map is an association
  list with distinct keys, in the order in which a range loop meets them; float64 is \<open>float64\<close>,
  without rounding. A fallible call returns \<open>Inl\<close> of its error or \<open>Inr\<close> beside the state it
  leaves; \<open>outcome\<close> adds panics and calls that never return. Where Go leaves an order open (map
  iteration, goroutines), the model has a function for it that theorems assume to permute. Code
  that is not part of the repository is an argument too: the Influx database (\<open>stores_points\<close>,
  \<open>reads_points\<close>), gob, HTTP, JSON, JWT, the PromQL parser, the histogram of Prometheus, the hash
  functions. \<^verbatim>\<open>Mem_Store\<close> has an in-memory database that satisfies the laws of the real one, for
  the examples. The standard library is modelled: files, sockets, varints, CSV, decimals.

  \<^bold>\<open>Queue on disk\<close> (\<^verbatim>\<open>internal/handoff\<close>).
  \<^item> \<^verbatim>\<open>Os_File\<close>: files with their contents, handles and offsets, and the directory.
  \<^item> \<^verbatim>\<open>Segment\<close>: \<^verbatim>\<open>queue.go\<close>, the type \<open>segment\<close>: blocks with their lengths and a footer with
    the position of the head. \<open>seg_rep\<close> relates a segment to its blocks read and to come.
  \<^item> \<^verbatim>\<open>Fifo\<close>, \<^verbatim>\<open>Handoff_Queue\<close>: \<^verbatim>\<open>queue.go\<close>, the type \<open>Queue\<close>: a list of segments. The contract of a
    queue is a locale, and the queue on disk refines a list of blocks.
  \<^item> \<^verbatim>\<open>Handoff_Restart\<close>: closing and opening again.
  \<^item> \<^verbatim>\<open>Replayer\<close>: \<^verbatim>\<open>write_replayer.go\<close>: queueing, sending, purging, opening and closing.
  \<^item> \<^verbatim>\<open>Handoff_Correct\<close>: blocks come out in order, survive a restart, are sent until acknowledged and
    only then removed; the disk bound; what purging drops; and the defects found: hidden failures
    of appends, blocks hidden behind a drained head, reordering by the names of segments.

  \<^bold>\<open>Store\<close> (\<^verbatim>\<open>pkg/persistence\<close>, \<^verbatim>\<open>pkg/rpc\<close>).
  \<^item> \<^verbatim>\<open>Points\<close>: points, labels, sanitised names, time. The locale \<open>point_sink\<close> is the interface
    \<open>Adapter\<close>: a place that takes points.
  \<^item> \<^verbatim>\<open>Series_Set\<close>: series, their iterator, the builder that joins the answers of the shards, and the
    translation of matchers into conditions.
  \<^item> \<^verbatim>\<open>Shards\<close>: \<^verbatim>\<open>influx_adapter.go\<close>, \<^verbatim>\<open>shard_ids.go\<close>: one shard per day. The invariant \<open>adapter_inv\<close> says that every point lies
    in the shard of its day; \<open>stored\<close> is what the database represents. Interprets \<open>point_sink\<close>.
  \<^item> \<^verbatim>\<open>Persistence\<close>: \<^verbatim>\<open>appender.go\<close>, \<^verbatim>\<open>querier.go\<close>, \<^verbatim>\<open>store.go\<close>: a commit stores the numeric samples, a
    select returns what is stored, deletion removes exactly the days before the cutoff.

  \<^bold>\<open>Cluster\<close> (\<^verbatim>\<open>internal/routing\<close>, \<^verbatim>\<open>internal/storage\<close>, \<^verbatim>\<open>internal/batch\<close>).
  \<^item> \<^verbatim>\<open>Routing\<close>: the routing table and the static lookup: as many distinct replicas as configured.
  \<^item> \<^verbatim>\<open>Replication\<close>: appending to all replicas, queries with failover and retries, merged label
    values. Samples reach exactly their replicas; one reachable replica is enough for an answer;
    with none, the query never returns, also after its deadline.
  \<^item> \<^verbatim>\<open>Batching\<close>: \<^verbatim>\<open>batcher.go\<close> and the writer of \<^verbatim>\<open>remote_appender.go\<close>: under every interleaving of
    the two goroutines points are written once, in order, or counted as dropped, and every batch
    is sent or queued.

  \<^bold>\<open>Network\<close> (\<^verbatim>\<open>pkg/leanstreams\<close>, \<^verbatim>\<open>internal/metricstore\<close>).
  \<^item> \<^verbatim>\<open>Lean_Streams\<close>: headers, client, server and read loop. Over a network whose writes and dials may
    fail, and whose bytes arrive in any pieces, messages arrive at least once and in order.
  \<^item> \<^verbatim>\<open>Net_Lifecycle\<close>: the goroutines of a listener as a transition system, and connections.
  \<^item> \<^verbatim>\<open>Metric_Node\<close>: the configuration of a node and the callbacks of its listeners. A batch at the
    ingress port is routed; a batch from another node is stored exactly once, because storing
    again changes nothing (locale \<open>idempotent_sink\<close>).

  \<^bold>\<open>Edge\<close> (\<^verbatim>\<open>internal/nozzle\<close>, \<^verbatim>\<open>pkg/ingressclient\<close>, \<^verbatim>\<open>pkg/auth\<close>, \<^verbatim>\<open>pkg/cfauthproxy\<close>).
  \<^item> \<^verbatim>\<open>Rollups\<close>: counters and histograms per source and tags. The locale \<open>interval_rollup\<close> is the
    interface \<open>Rollup\<close>. Every combination of an interval is reported once, with its total.
  \<^item> \<^verbatim>\<open>Nozzle\<close>: envelopes, one turn of each goroutine, the ingress client.
  \<^item> \<^verbatim>\<open>Auth\<close>: tokens, source ids of queries, the cache of the cloud controller's answers, and the
    middleware: only authorised requests are forwarded.
  \<^item> \<^verbatim>\<open>Host_Port\<close>, \<^verbatim>\<open>Access_Log\<close>: the access log around the middleware: what can be
    read back from it, and that a request can forge its lines.

  \<^bold>\<open>Rules\<close> (\<^verbatim>\<open>pkg/rulesclient\<close>, \<^verbatim>\<open>internal/rules\<close>, \<^verbatim>\<open>internal/api/rules_api.go\<close>).
  \<^item> \<^verbatim>\<open>Durations\<close>: JSON values and the type \<open>Duration\<close> of \<^verbatim>\<open>rule_group.go\<close>, with
    \<open>time.ParseDuration\<close>: which intervals survive being sent.
  \<^item> \<^verbatim>\<open>Dir_Tree\<close>: a file system of directories and files in which each call may fail.
  \<^item> \<^verbatim>\<open>Rules_Client\<close>: configurations, rule groups, their validation and their JSON. What third
    parties do (YAML, expressions and the rule loader of Prometheus, certificates, the router) is
    the record \<open>rules_env\<close>.
  \<^item> \<^verbatim>\<open>Rule_Files\<close>: \<^verbatim>\<open>rule_manager_files.go\<close>. A configuration is a shared value: storing its
    certificates replaces them by the paths of the files.
  \<^item> \<^verbatim>\<open>Rule_Managers\<close>: the managers of one node and \<open>loadRules\<close>. The invariant \<open>node_inv\<close> says
    that memory and disk agree; a restart brings the managers back. The locale \<open>rule_manager\<close> is
    the interface \<open>RuleManager\<close>, which the local manager satisfies.
  \<^item> \<^verbatim>\<open>Rules_Cluster\<close>: the API, the client, remote and replicated managers. The manager that a
    node uses for any other node satisfies the same locale, and a cluster whose nodes answer
    refines one map of managers. The defects: intervals of days are not replicated, failed creates
    are hidden, replicas get no certificates.

  \<^bold>\<open>Loops.\<close> Every loop that ends is a total function. The retries of a query and the dialling of a
  connection may go on for ever: there the result is \<open>Blocks\<close>. The loop over the pages of the cloud
  controller is a partial function into \<open>option\<close>. No definition has fuel.

  \<^bold>\<open>Not modelled.\<close> The HTTP servers and the query engine, scraping, cluster discovery, the blackbox tester, logging, TLS and the main programs: they
  configure and call libraries, or are programs of their own. Ring buffers are seen through what was
  set into them; that they overwrite when their reader falls behind is not part of the model. A
  rule manager of Prometheus is the groups it has loaded: its goroutines, the waiting for them and
  the registration of its metrics are left out, and so is the text of JSON and YAML.
\<close>

end
